(* ===== verification/Prelude.thy ===== *)
theory Prelude
  imports Main
begin

text \<open>
  What the component theories share: the shape of a Go result, the collections
  of rewrite rules the proofs are driven by, the contracts (locales) under which
  a component is seen as a machine that takes steps, and a few facts on lists.

  \<^item> A Go call that returns \<open>(value, error)\<close> is a value of the sum type
    \<open>('e, 'a) result\<close>: \<open>Inl\<close> for the error, \<open>Inr\<close> for the value.
  \<^item> A Go call that returns only \<open>error\<close> is an \<open>'e option\<close>: \<open>None\<close> is \<open>nil\<close>.
  \<^item> \<open>errors.Join\<close> builds a tree of errors whose leaves are what \<open>errors.Is\<close>
    finds; a joined error is modelled by the list of its leaves, and \<open>nil\<close> by the
    empty list (\<open>errors.Join\<close> of only \<open>nil\<close> values is \<open>nil\<close>).
\<close>

type_synonym ('e, 'a) result = "'e + 'a"

named_theorems step_defs \<open>definitions of the operations of a component\<close>
named_theorems inversion \<open>what a successful call says about its arguments\<close>

subsection \<open>Results\<close>

definition bind_result :: "('e, 'a) result \<Rightarrow> ('a \<Rightarrow> ('e, 'b) result) \<Rightarrow> ('e, 'b) result" where
  "bind_result m f = (case m of Inl e \<Rightarrow> Inl e | Inr a \<Rightarrow> f a)"

lemma bind_result_simps [simp]:
  "bind_result (Inl e) f = Inl e"
  "bind_result (Inr a) f = f a"
  by (simp_all add: bind_result_def)

lemma bind_result_Inr [inversion]:
  "bind_result m f = Inr b \<longleftrightarrow> (\<exists>a. m = Inr a \<and> f a = Inr b)"
  by (cases m) simp_all

lemma bind_result_Inl:
  "bind_result m f = Inl e \<longleftrightarrow> m = Inl e \<or> (\<exists>a. m = Inr a \<and> f a = Inl e)"
  by (cases m) simp_all

text \<open>The error of a call, as a joined error: nothing when the call returned \<open>nil\<close>.\<close>

definition leaves :: "'e option \<Rightarrow> 'e list" where
  "leaves e = (case e of None \<Rightarrow> [] | Some x \<Rightarrow> [x])"

lemma leaves_simps [simp]:
  "leaves None = []"
  "leaves (Some e) = [e]"
  by (simp_all add: leaves_def)

lemma leaves_eq_Nil [simp]: "leaves e = [] \<longleftrightarrow> e = None"
  by (cases e) simp_all

subsection \<open>Machines\<close>

text \<open>
  A component seen by its clients is a machine: each operation takes the state and
  yields the next. The contract asks that every operation keeps the invariant; every
  run then keeps it.
\<close>

locale machine =
  fixes step :: "'s \<Rightarrow> 'e \<Rightarrow> 's"
    and inv :: "'s \<Rightarrow> bool"
  assumes step_inv: "inv s \<Longrightarrow> inv (step s e)"
begin

lemma run_inv: "inv s \<Longrightarrow> inv (foldl step s es)"
  by (induction es arbitrary: s) (auto intro: step_inv)

end

text \<open>
  A machine that implements a simpler one: an abstraction function that commutes with
  every operation commutes with every run.
\<close>

locale refined_machine = machine step inv
  for step :: "'s \<Rightarrow> 'e \<Rightarrow> 's" and inv :: "'s \<Rightarrow> bool" +
  fixes abs :: "'s \<Rightarrow> 'a"
    and spec :: "'a \<Rightarrow> 'e \<Rightarrow> 'a"
  assumes step_refines: "inv s \<Longrightarrow> abs (step s e) = spec (abs s) e"
begin

lemma run_refines: "inv s \<Longrightarrow> abs (foldl step s es) = foldl spec (abs s) es"
  by (induction es arbitrary: s) (simp_all add: step_refines step_inv)

end

text \<open>
  A component whose operations interleave (goroutines between two critical sections) is a
  step relation: one rule per atomic step. Its contract is the same, over the reflexive
  transitive closure.
\<close>

locale concurrent_machine =
  fixes step :: "'s \<Rightarrow> 's \<Rightarrow> bool"
    and inv :: "'s \<Rightarrow> bool"
  assumes step_inv: "step s t \<Longrightarrow> inv s \<Longrightarrow> inv t"
begin

lemma steps_inv: "step\<^sup>*\<^sup>* s t \<Longrightarrow> inv s \<Longrightarrow> inv t"
  by (induction rule: rtranclp_induct) (auto intro: step_inv)

end

subsection \<open>Lists\<close>

text \<open>The last \<open>n\<close> elements of a list.\<close>

definition lastn :: "nat \<Rightarrow> 'a list \<Rightarrow> 'a list" where
  "lastn n xs = drop (length xs - n) xs"

lemma length_lastn [simp]: "length (lastn n xs) = min n (length xs)"
  by (simp add: lastn_def)

lemma lastn_all [simp]: "length xs \<le> n \<Longrightarrow> lastn n xs = xs"
  by (simp add: lastn_def)

lemma lastn_lastn_append: "lastn n (lastn n xs @ ys) = lastn n (xs @ ys)"
proof (cases "length xs \<le> n")
  case False
  then show ?thesis by (simp add: lastn_def add.commute)
qed simp

lemma lastn_suffix: "\<exists>ys. xs = ys @ lastn n xs"
  by (metis append_take_drop_id lastn_def)

text \<open>
  How many elements of a list have a property, as an integer: the counters of the program are
  compared with tallies, and go up and down.
\<close>

definition tally :: "('a \<Rightarrow> bool) \<Rightarrow> 'a list \<Rightarrow> int" where
  "tally P xs = int (length (filter P xs))"

lemma tally_simps [simp]:
  "tally P [] = 0"
  "tally P (x # xs) = tally P xs + of_bool (P x)"
  "tally P (xs @ ys) = tally P xs + tally P ys"
  by (simp_all add: tally_def)

lemma tally_nonneg [simp]: "0 \<le> tally P xs"
  by (simp add: tally_def)

lemma tally_update [simp]:
  "i < length xs \<Longrightarrow> tally P (xs[i := y]) = tally P xs - of_bool (P (xs ! i)) + of_bool (P y)"
proof (induction xs arbitrary: i)
  case (Cons x xs)
  then show ?case by (cases i) auto
qed simp

lemma tally_positive: "i < length xs \<Longrightarrow> P (xs ! i) \<Longrightarrow> 0 < tally P xs"
  by (auto simp: tally_def filter_empty_conv)

lemma tally_zero: "tally P xs = 0 \<longleftrightarrow> (\<forall>x \<in> set xs. \<not> P x)"
  by (auto simp: tally_def filter_empty_conv)

lemma tally_none: "tally P xs + tally Q ys \<le> 0 \<Longrightarrow> tally P xs = 0 \<and> tally Q ys = 0"
  using tally_nonneg [of P xs] tally_nonneg [of Q ys] by linarith

lemma tally_mono: "(\<And>x. x \<in> set xs \<Longrightarrow> P x \<Longrightarrow> Q x) \<Longrightarrow> tally P xs \<le> tally Q xs"
  by (induction xs) auto

lemma tally_map: "tally P (map f xs) = tally (P \<circ> f) xs"
  by (induction xs) auto

end
