(* ===== verification/JsonLexer.thy ===== *)
theory JsonLexer
  imports Prelude
begin

text \<open>
  The part of \<open>encoding/json\<close> that \<open>strictjson\<close> reads its input through: the bytes of a
  JSON text, cut into lexemes. A \<open>string\<close> is a Go byte string (one \<open>char\<close> per byte).

  \<open>json.Decoder\<close> skips white space (\<open>peek\<close>), looks at one byte, and reads a delimiter, a
  string or another scalar from there; which of these it reads does not depend on the
  decoder's state. So the input of a decoder is the list \<open>lexemes data\<close>. The list ends
  with \<open>LBad\<close> where the scanner would report a syntax error: \<open>validateTokens\<close> never reads
  past the first error. A string lexeme holds the decoded name (\<open>unquote\<close>), so two
  spellings of one name are one lexeme.
\<close>

datatype delim = LBrace | RBrace | LBrack | RBrack

datatype atom = Number string | Boolean bool | Null

datatype lexeme = LDelim delim | LColon | LComma | LStr string | LAtom atom | LBad

subsection \<open>Bytes\<close>

definition byte :: "char \<Rightarrow> nat" where
  "byte c = of_char c"

definition is_space :: "char \<Rightarrow> bool" where
  "is_space c \<longleftrightarrow> byte c \<in> {32, 9, 13, 10}"

definition is_digit :: "char \<Rightarrow> bool" where
  "is_digit c \<longleftrightarrow> 48 \<le> byte c \<and> byte c \<le> 57"

definition hex_value :: "char \<Rightarrow> nat option" where
  "hex_value c =
     (if is_digit c then Some (byte c - 48)
      else if 97 \<le> byte c \<and> byte c \<le> 102 then Some (byte c - 87)
      else if 65 \<le> byte c \<and> byte c \<le> 70 then Some (byte c - 55)
      else None)"

fun hex4 :: "string \<Rightarrow> (nat \<times> string) option" where
  "hex4 (a # b # c # d # rest) =
     (case (hex_value a, hex_value b, hex_value c, hex_value d) of
        (Some w, Some x, Some y, Some z) \<Rightarrow> Some (4096 * w + 256 * x + 16 * y + z, rest)
      | _ \<Rightarrow> None)"
| "hex4 _ = None"

subsection \<open>UTF-8\<close>

definition utf8_encode :: "nat \<Rightarrow> string" where
  "utf8_encode r = map char_of
     (if r < 128 then [r]
      else if r < 2048 then [192 + r div 64, 128 + r mod 64]
      else if r < 65536 then [224 + r div 4096, 128 + r div 64 mod 64, 128 + r mod 64]
      else [240 + r div 262144, 128 + r div 4096 mod 64, 128 + r div 64 mod 64, 128 + r mod 64])"

definition cont :: "nat \<Rightarrow> nat \<Rightarrow> char \<Rightarrow> bool" where
  "cont lo hi c \<longleftrightarrow> lo \<le> byte c \<and> byte c \<le> hi"

text \<open>How many bytes the UTF-8 sequence at the head of the input has, 0 for none.\<close>

definition utf8_len :: "string \<Rightarrow> nat" where
  "utf8_len s =
     (case s of
        [] \<Rightarrow> 0
      | a # t \<Rightarrow>
         (let p = byte a in
          if p < 128 then 1
          else if 194 \<le> p \<and> p \<le> 223 then
            (case t of b # _ \<Rightarrow> if cont 128 191 b then 2 else 0 | _ \<Rightarrow> 0)
          else if 224 \<le> p \<and> p \<le> 239 then
            (case t of
               b # c # _ \<Rightarrow>
                 if cont (if p = 224 then 160 else 128) (if p = 237 then 159 else 191) b
                    \<and> cont 128 191 c then 3 else 0
             | _ \<Rightarrow> 0)
          else if 240 \<le> p \<and> p \<le> 244 then
            (case t of
               b # c # d # _ \<Rightarrow>
                 if cont (if p = 240 then 144 else 128) (if p = 244 then 143 else 191) b
                    \<and> cont 128 191 c \<and> cont 128 191 d then 4 else 0
             | _ \<Rightarrow> 0)
          else 0))"

lemma utf8_len_le: "utf8_len s \<le> length s"
  by (auto simp: utf8_len_def Let_def split: list.splits)

definition replacement :: string where
  "replacement = utf8_encode 65533"

subsection \<open>Strings\<close>

definition simple_escape :: "char \<Rightarrow> char option" where
  "simple_escape c = map_of
     [(CHR 0x22, CHR 0x22), (CHR 0x5C, CHR 0x5C), (CHR ''/'', CHR ''/''), (CHR ''b'', CHR 0x08),
      (CHR ''f'', CHR 0x0C), (CHR ''n'', CHR 0x0A), (CHR ''r'', CHR 0x0D), (CHR ''t'', CHR 0x09)] c"

text \<open>
  The scanner's view of a string after its opening quote: the raw contents, still escaped,
  and the input after the closing quote.
\<close>

function scan_string :: "string \<Rightarrow> (string \<times> string) option" where
  "scan_string [] = None"
| "scan_string (c # s) =
     (if c = CHR 0x22 then Some ([], s)
      else if c = CHR 0x5C then
        (case s of
           [] \<Rightarrow> None
         | e # t \<Rightarrow>
             if e = CHR ''u'' then
               (case hex4 t of
                  None \<Rightarrow> None
                | Some _ \<Rightarrow> map_option (apfst (append (c # e # take 4 t))) (scan_string (drop 4 t)))
             else if simple_escape e = None then None
             else map_option (apfst (append [c, e])) (scan_string t))
      else if byte c < 32 then None
      else map_option (apfst (Cons c)) (scan_string s))"
  by pat_completeness auto
termination by (relation "measure length") auto

definition is_surrogate :: "nat \<Rightarrow> bool" where
  "is_surrogate r \<longleftrightarrow> 55296 \<le> r \<and> r < 57344"

text \<open>\<open>utf16.DecodeRune\<close>: the code point of a pair of surrogates.\<close>

definition surrogate_pair :: "nat \<Rightarrow> nat \<Rightarrow> nat option" where
  "surrogate_pair hi lo =
     (if 55296 \<le> hi \<and> hi < 56320 \<and> 56320 \<le> lo \<and> lo < 57344
      then Some ((hi - 55296) * 1024 + (lo - 56320) + 65536) else None)"

text \<open>\<open>getu4\<close>: the four hex digits after a \<open>\u\<close>.\<close>

definition getu4 :: "string \<Rightarrow> nat option" where
  "getu4 s =
     (case s of
        a # b # t \<Rightarrow> if a = CHR 0x5C \<and> b = CHR ''u'' then map_option fst (hex4 t) else None
      | _ \<Rightarrow> None)"

text \<open>
  \<open>unquote\<close>: the name a scanned string spells. Escapes are replaced, a lone surrogate and
  a byte that is not UTF-8 become U+FFFD.
\<close>

function unquote :: "string \<Rightarrow> string" where
  "unquote [] = []"
| "unquote (c # s) =
     (if c = CHR 0x5C then
        (case s of
           [] \<Rightarrow> []
         | e # t \<Rightarrow>
             if e = CHR ''u'' then
               (case hex4 t of
                  None \<Rightarrow> []
                | Some (r, _) \<Rightarrow>
                    let rest = drop 4 t in
                    if is_surrogate r then
                      (case Option.bind (getu4 rest) (surrogate_pair r) of
                         Some p \<Rightarrow> utf8_encode p @ unquote (drop 6 rest)
                       | None \<Rightarrow> replacement @ unquote rest)
                    else utf8_encode r @ unquote rest)
             else (case simple_escape e of None \<Rightarrow> [] | Some x \<Rightarrow> x # unquote t))
      else (case utf8_len (c # s) of
              0 \<Rightarrow> replacement @ unquote s
            | Suc n \<Rightarrow> c # take n s @ unquote (drop n s)))"
  by pat_completeness auto
termination by (relation "measure length") auto

subsection \<open>Numbers and literals\<close>

text \<open>
  A number is an optional minus, an integer part with no leading zero, an optional fraction
  and an optional exponent; the scanner takes the longest such prefix and reports an error
  where a digit it needs is missing.
\<close>

definition scan_digits1 :: "string \<Rightarrow> (string \<times> string) option" where
  "scan_digits1 s =
     (let ds = takeWhile is_digit s in if ds = [] then None else Some (ds, dropWhile is_digit s))"

definition scan_int :: "string \<Rightarrow> (string \<times> string) option" where
  "scan_int s =
     (case s of
        [] \<Rightarrow> None
      | c # t \<Rightarrow> if c = CHR ''0'' then Some ([c], t) else scan_digits1 s)"

definition scan_frac :: "string \<Rightarrow> (string \<times> string) option" where
  "scan_frac s =
     (case s of
        c # t \<Rightarrow> if c = CHR ''.'' then map_option (apfst (Cons c)) (scan_digits1 t) else Some ([], s)
      | [] \<Rightarrow> Some ([], []))"

definition scan_exp :: "string \<Rightarrow> (string \<times> string) option" where
  "scan_exp s =
     (case s of
        c # t \<Rightarrow>
          if c = CHR ''e'' \<or> c = CHR ''E'' then
            (case t of
               d # u \<Rightarrow>
                 if d = CHR ''+'' \<or> d = CHR ''-'' then map_option (apfst (append [c, d])) (scan_digits1 u)
                 else map_option (apfst (Cons c)) (scan_digits1 t)
             | [] \<Rightarrow> None)
          else Some ([], s)
      | [] \<Rightarrow> Some ([], []))"

definition scan_unsigned :: "string \<Rightarrow> (string \<times> string) option" where
  "scan_unsigned s =
     Option.bind (scan_int s) (\<lambda>(i, s1).
     Option.bind (scan_frac s1) (\<lambda>(f, s2).
     map_option (apfst (\<lambda>e. i @ f @ e)) (scan_exp s2)))"

definition scan_number :: "string \<Rightarrow> (string \<times> string) option" where
  "scan_number s =
     (case s of
        c # t \<Rightarrow> if c = CHR ''-'' then map_option (apfst (Cons c)) (scan_unsigned t) else scan_unsigned s
      | [] \<Rightarrow> None)"

definition scan_literal :: "string \<Rightarrow> (atom \<times> string) option" where
  "scan_literal s =
     (if take 4 s = ''true'' then Some (Boolean True, drop 4 s)
      else if take 5 s = ''false'' then Some (Boolean False, drop 5 s)
      else if take 4 s = ''null'' then Some (Null, drop 4 s)
      else None)"

subsection \<open>Lexemes\<close>

definition delim_of :: "char \<Rightarrow> lexeme option" where
  "delim_of c = map_of
     [(CHR 0x7B, LDelim LBrace), (CHR 0x7D, LDelim RBrace), (CHR ''['', LDelim LBrack),
      (CHR '']'', LDelim RBrack), (CHR '':'', LColon), (CHR '','', LComma)] c"

text \<open>One lexeme at a byte that is not white space, with the input after it.\<close>

definition lex1 :: "char \<Rightarrow> string \<Rightarrow> (lexeme \<times> string) option" where
  "lex1 c s =
     (case delim_of c of
        Some l \<Rightarrow> Some (l, s)
      | None \<Rightarrow>
          if c = CHR 0x22 then map_option (apfst (LStr \<circ> unquote)) (scan_string s)
          else if c = CHR ''-'' \<or> is_digit c then map_option (apfst (LAtom \<circ> Number)) (scan_number (c # s))
          else map_option (apfst LAtom) (scan_literal (c # s)))"

text \<open>
  Every scanner splits its input: what it read, then the rest. So the lexer advances at
  every lexeme.
\<close>

lemma scan_string_split: "scan_string s = Some (r, t) \<Longrightarrow> s = r @ CHR 0x22 # t"
proof (induction s arbitrary: r t rule: scan_string.induct)
  case (2 c s)
  then show ?case
    by (auto split: if_splits list.splits option.splits) (metis append_take_drop_id)
qed simp

lemma scan_digits1_split [inversion]:
  "scan_digits1 s = Some (d, t) \<Longrightarrow> s = d @ t \<and> d \<noteq> []"
  by (auto simp: scan_digits1_def Let_def split: if_splits)

lemma scan_int_split: "scan_int s = Some (d, t) \<Longrightarrow> s = d @ t \<and> d \<noteq> []"
  by (auto simp: scan_int_def dest: scan_digits1_split split: list.splits if_splits)

lemma scan_frac_split: "scan_frac s = Some (d, t) \<Longrightarrow> s = d @ t"
  by (auto simp: scan_frac_def dest: scan_digits1_split split: list.splits if_splits)

lemma scan_exp_split: "scan_exp s = Some (d, t) \<Longrightarrow> s = d @ t"
  by (auto simp: scan_exp_def dest!: scan_digits1_split split: list.splits if_splits)

lemma scan_number_split: "scan_number s = Some (d, t) \<Longrightarrow> s = d @ t \<and> d \<noteq> []"
  by (auto simp: scan_number_def scan_unsigned_def bind_eq_Some_conv
        dest!: scan_int_split scan_frac_split scan_exp_split split: list.splits if_splits)

lemma scan_literal_shrinks: "scan_literal (c # s) = Some (a, t) \<Longrightarrow> length t \<le> length s"
  by (auto simp: scan_literal_def split: if_splits)

lemma lex1_shrinks: "lex1 c s = Some (l, t) \<Longrightarrow> length t \<le> length s"
  by (auto simp: lex1_def dest!: scan_string_split scan_number_split scan_literal_shrinks
        simp: Cons_eq_append_conv split: option.splits if_splits)

function lexemes :: "string \<Rightarrow> lexeme list" where
  "lexemes [] = []"
| "lexemes (c # s) =
     (if is_space c then lexemes s
      else (case lex1 c s of
              None \<Rightarrow> [LBad]
            | Some (l, t) \<Rightarrow> l # lexemes t))"
  by pat_completeness auto
termination
  by (relation "measure length") (auto dest: lex1_shrinks simp: less_Suc_eq_le)

end
