(* ===== verification/StrictJson.thy ===== *)
theory StrictJson
  imports JsonLexer
begin

text \<open>
  \<open>strictjson.Validate\<close>: the token machine of \<open>json.Decoder\<close> (standard library) and,
  over it, the iterative scanner \<open>validateTokens\<close> of \<open>strictjson/strictjson.go\<close> with its
  explicit stack of container frames.
\<close>

subsection \<open>json.Decoder.Token\<close>

datatype jtoken = TDelim delim | TString string | TAtom atom

datatype tstate =
    TopValue | ArrayStart | ArrayValue | ArrayComma
  | ObjectStart | ObjectKey | ObjectColon | ObjectValue | ObjectComma

text \<open>The lexemes to come, \<open>tokenState\<close> and \<open>tokenStack\<close> (top first).\<close>

type_synonym decoder = "lexeme list \<times> tstate \<times> tstate list"

datatype token_read = TEOF | TError | TGot jtoken decoder

definition tokenValueAllowed :: "tstate \<Rightarrow> bool" where
  "tokenValueAllowed ts \<longleftrightarrow> ts \<in> {TopValue, ArrayStart, ArrayValue, ObjectValue}"

fun tokenValueEnd :: "tstate \<Rightarrow> tstate" where
  "tokenValueEnd ArrayStart = ArrayComma"
| "tokenValueEnd ArrayValue = ArrayComma"
| "tokenValueEnd ObjectValue = ObjectComma"
| "tokenValueEnd ts = ts"

definition close_delim :: "delim \<Rightarrow> lexeme list \<Rightarrow> tstate list \<Rightarrow> token_read" where
  "close_delim d ls stk =
     (case stk of [] \<Rightarrow> TError | ts # stk' \<Rightarrow> TGot (TDelim d) (ls, tokenValueEnd ts, stk'))"

fun Token :: "decoder \<Rightarrow> token_read" where
  "Token ([], ts, stk) = TEOF"
| "Token (LDelim LBrack # ls, ts, stk) =
     (if tokenValueAllowed ts then TGot (TDelim LBrack) (ls, ArrayStart, ts # stk) else TError)"
| "Token (LDelim RBrack # ls, ts, stk) =
     (if ts = ArrayStart \<or> ts = ArrayComma then close_delim RBrack ls stk else TError)"
| "Token (LDelim LBrace # ls, ts, stk) =
     (if tokenValueAllowed ts then TGot (TDelim LBrace) (ls, ObjectStart, ts # stk) else TError)"
| "Token (LDelim RBrace # ls, ts, stk) =
     (if ts = ObjectStart \<or> ts = ObjectComma then close_delim RBrace ls stk else TError)"
| "Token (LColon # ls, ts, stk) =
     (if ts = ObjectColon then Token (ls, ObjectValue, stk) else TError)"
| "Token (LComma # ls, ts, stk) =
     (if ts = ArrayComma then Token (ls, ArrayValue, stk)
      else if ts = ObjectComma then Token (ls, ObjectKey, stk)
      else TError)"
| "Token (LStr s # ls, ts, stk) =
     (if ts = ObjectStart \<or> ts = ObjectKey then TGot (TString s) (ls, ObjectColon, stk)
      else if tokenValueAllowed ts then TGot (TString s) (ls, tokenValueEnd ts, stk)
      else TError)"
| "Token (LAtom a # ls, ts, stk) =
     (if tokenValueAllowed ts then TGot (TAtom a) (ls, tokenValueEnd ts, stk) else TError)"
| "Token (LBad # ls, ts, stk) = TError"

lemma Token_advances: "Token d = TGot t d' \<Longrightarrow> length (fst d') < length (fst d)"
  by (induction d rule: Token.induct) (auto simp: close_delim_def split: if_splits list.splits)

subsection \<open>validateTokens\<close>

datatype jerror = ErrDuplicateName | ErrInvalidJSON

record containerFrame =
  delimiter :: delim
  seen :: "string set"
  wantKey :: bool

definition maxNestingDepth :: nat where
  "maxNestingDepth = 10000"

definition delimitersMatch :: "delim \<Rightarrow> delim \<Rightarrow> bool" where
  "delimitersMatch op cl \<longleftrightarrow> op = LBrace \<and> cl = RBrace \<or> op = LBrack \<and> cl = RBrack"

text \<open>
  The frames are the slice \<open>frames\<close>, last element first. A pass of the loop works on the
  frames and on \<open>rootComplete\<close>. First the branch for a member name, taken when the innermost
  frame is an object that wants a key.
\<close>

definition on_key ::
  "jtoken \<Rightarrow> containerFrame \<Rightarrow> containerFrame list \<Rightarrow> bool \<Rightarrow> (jerror, containerFrame list \<times> bool) result"
where
  "on_key tok frame outer rootComplete =
     (case tok of
        TDelim RBrace \<Rightarrow> Inr (outer, if outer = [] then True else rootComplete)
      | TString key \<Rightarrow>
          if key \<in> seen frame then Inl ErrDuplicateName
          else Inr (frame\<lparr>seen := insert key (seen frame), wantKey := False\<rparr> # outer, rootComplete)
      | _ \<Rightarrow> Inl ErrInvalidJSON)"

text \<open>\<open>frames[len(frames)-1].wantKey = true\<close> in an object: its next token is a name.\<close>

fun want_next_key :: "containerFrame list \<Rightarrow> containerFrame list" where
  "want_next_key [] = []"
| "want_next_key (f # fs) = (if delimiter f = LBrace then f\<lparr>wantKey := True\<rparr> # fs else f # fs)"

definition on_close ::
  "delim \<Rightarrow> containerFrame list \<Rightarrow> bool \<Rightarrow> (jerror, containerFrame list \<times> bool) result"
where
  "on_close d frames rootComplete =
     (case frames of
        [] \<Rightarrow> Inl ErrInvalidJSON
      | f # outer \<Rightarrow>
          if \<not> delimitersMatch (delimiter f) d then Inl ErrInvalidJSON
          else Inr (outer, if outer = [] then True else rootComplete))"

definition on_open ::
  "delim \<Rightarrow> containerFrame list \<Rightarrow> bool \<Rightarrow> (jerror, containerFrame list \<times> bool) result"
where
  "on_open d frames rootComplete =
     (if length frames = maxNestingDepth then Inl ErrInvalidJSON
      else case d of
        LBrace \<Rightarrow> Inr (\<lparr>delimiter = LBrace, seen = {}, wantKey = True\<rparr> # frames, rootComplete)
      | LBrack \<Rightarrow> Inr (\<lparr>delimiter = LBrack, seen = {}, wantKey = False\<rparr> # frames, rootComplete)
      | _ \<Rightarrow> Inl ErrInvalidJSON)"

definition on_value ::
  "jtoken \<Rightarrow> containerFrame list \<Rightarrow> bool \<Rightarrow> (jerror, containerFrame list \<times> bool) result"
where
  "on_value tok frames rootComplete =
     (case tok of
        TDelim d \<Rightarrow>
          if d = RBrace \<or> d = RBrack then on_close d frames rootComplete
          else on_open d (want_next_key frames) rootComplete
      | _ \<Rightarrow> Inr (want_next_key frames, if frames = [] then True else rootComplete))"

text \<open>One pass of the loop on a token that was read.\<close>

definition on_token ::
  "jtoken \<Rightarrow> containerFrame list \<Rightarrow> bool \<Rightarrow> (jerror, containerFrame list \<times> bool) result"
where
  "on_token tok frames rootComplete =
     (if rootComplete \<and> frames = [] then Inl ErrInvalidJSON
      else case frames of
        frame # outer \<Rightarrow>
          if delimiter frame = LBrace \<and> wantKey frame then on_key tok frame outer rootComplete
          else on_value tok frames rootComplete
      | [] \<Rightarrow> on_value tok frames rootComplete)"

text \<open>\<open>None\<close> is the \<open>nil\<close> error. Each pass reads a token, so the loop ends.\<close>

function validate_loop :: "decoder \<Rightarrow> containerFrame list \<Rightarrow> bool \<Rightarrow> jerror option" where
  "validate_loop d frames rootComplete =
     (case Token d of
        TEOF \<Rightarrow> if rootComplete \<and> frames = [] then None else Some ErrInvalidJSON
      | TError \<Rightarrow> Some ErrInvalidJSON
      | TGot tok d' \<Rightarrow>
          (case on_token tok frames rootComplete of
             Inl e \<Rightarrow> Some e
           | Inr (frames', root') \<Rightarrow> validate_loop d' frames' root'))"
  by pat_completeness auto
termination
  by (relation "measure (\<lambda>(d, _, _). length (fst d))") (auto dest: Token_advances)

declare validate_loop.simps [simp del]

definition validateTokens :: "decoder \<Rightarrow> jerror option" where
  "validateTokens d = validate_loop d [] False"

definition NewDecoder :: "string \<Rightarrow> decoder" where
  "NewDecoder data = (lexemes data, TopValue, [])"

definition Validate :: "string \<Rightarrow> jerror option" where
  "Validate data = validateTokens (NewDecoder data)"

end
