(* ===== verification/JsonGrammar.thy ===== *)
theory JsonGrammar
  imports StrictJson
begin

text \<open>
  What \<open>Validate\<close> promises: a grammar of JSON values, the two conditions (no object repeats
  a member name, nesting at most \<open>maxNestingDepth\<close>), a recursive reference checker over a
  value, and the proof that the iterative scanner of StrictJson decides exactly this.
\<close>

subsection \<open>JSON values and their lexemes\<close>

datatype json = JAtom atom | JString string | JArray "json list" | JObject "(string \<times> json) list"

definition comma_list :: "lexeme list list \<Rightarrow> lexeme list" where
  "comma_list xss = (case xss of [] \<Rightarrow> [] | xs # yss \<Rightarrow> xs @ concat (map (Cons LComma) yss))"

fun render :: "json \<Rightarrow> lexeme list" where
  "render (JAtom a) = [LAtom a]"
| "render (JString s) = [LStr s]"
| "render (JArray vs) = LDelim LBrack # comma_list (map render vs) @ [LDelim RBrack]"
| "render (JObject ms) =
     LDelim LBrace # comma_list (map (\<lambda>(k, v). LStr k # LColon # render v) ms) @ [LDelim RBrace]"

fun unique_names :: "json \<Rightarrow> bool" where
  "unique_names (JAtom a) = True"
| "unique_names (JString s) = True"
| "unique_names (JArray vs) = list_all unique_names vs"
| "unique_names (JObject ms) = (distinct (map fst ms) \<and> list_all (\<lambda>(k, v). unique_names v) ms)"

text \<open>\<open>fits n v\<close>: the containers of \<open>v\<close> nest at most \<open>n\<close> deep.\<close>

fun fits :: "nat \<Rightarrow> json \<Rightarrow> bool" where
  "fits n (JAtom a) = True"
| "fits n (JString s) = True"
| "fits n (JArray vs) = (case n of 0 \<Rightarrow> False | Suc m \<Rightarrow> list_all (fits m) vs)"
| "fits n (JObject ms) = (case n of 0 \<Rightarrow> False | Suc m \<Rightarrow> list_all (\<lambda>(k, v). fits m v) ms)"

subsection \<open>The reference checker\<close>

text \<open>
  The checker a recursive-descent parser would be: it walks the value in document order,
  \<open>n\<close> levels being left, and stops at the first fault.
\<close>

fun check :: "nat \<Rightarrow> json \<Rightarrow> jerror option"
  and check_elems :: "nat \<Rightarrow> json list \<Rightarrow> jerror option"
  and check_members :: "nat \<Rightarrow> string set \<Rightarrow> (string \<times> json) list \<Rightarrow> jerror option" where
  "check n (JAtom a) = None"
| "check n (JString s) = None"
| "check n (JArray vs) = (case n of 0 \<Rightarrow> Some ErrInvalidJSON | Suc m \<Rightarrow> check_elems m vs)"
| "check n (JObject ms) = (case n of 0 \<Rightarrow> Some ErrInvalidJSON | Suc m \<Rightarrow> check_members m {} ms)"
| "check_elems n [] = None"
| "check_elems n (v # vs) = (case check n v of Some e \<Rightarrow> Some e | None \<Rightarrow> check_elems n vs)"
| "check_members n ns [] = None"
| "check_members n ns ((k, v) # ms) =
     (if k \<in> ns then Some ErrDuplicateName
      else (case check n v of
              Some e \<Rightarrow> Some e
            | None \<Rightarrow> check_members n (insert k ns) ms))"

text \<open>Where the checker finds no fault, and which fault it finds.\<close>

lemma check_None:
  "check n v = None \<longleftrightarrow> unique_names v \<and> fits n v"
  "check_elems n vs = None \<longleftrightarrow> list_all (\<lambda>v. unique_names v \<and> fits n v) vs"
  "check_members n ns ms = None \<longleftrightarrow>
     distinct (map fst ms) \<and> ns \<inter> set (map fst ms) = {} \<and>
     list_all (\<lambda>(k, v). unique_names v \<and> fits n v) ms"
proof (induction n v and n vs and n ns ms rule: check_check_elems_check_members.induct)
  case (3 n vs)
  then show ?case by (cases n) (auto simp: list_all_iff)
next
  case (4 n ms)
  then show ?case by (cases n) (auto simp: list_all_iff split_beta)
qed (auto split: option.splits)

lemma check_fault:
  "check n v = Some e \<Longrightarrow> (fits n v \<longrightarrow> e = ErrDuplicateName) \<and> (unique_names v \<longrightarrow> e = ErrInvalidJSON)"
  "check_elems n vs = Some e \<Longrightarrow>
     (list_all (fits n) vs \<longrightarrow> e = ErrDuplicateName) \<and> (list_all unique_names vs \<longrightarrow> e = ErrInvalidJSON)"
  "check_members n ns ms = Some e \<Longrightarrow>
     (list_all (\<lambda>(k, v). fits n v) ms \<longrightarrow> e = ErrDuplicateName) \<and>
     (distinct (map fst ms) \<and> ns \<inter> set (map fst ms) = {} \<and> list_all (\<lambda>(k, v). unique_names v) ms
        \<longrightarrow> e = ErrInvalidJSON)"
proof (induction n v and n vs and n ns ms rule: check_check_elems_check_members.induct)
  case (3 n vs)
  then show ?case by (cases n) auto
next
  case (4 n ms)
  then show ?case by (cases n) auto
qed (auto split: option.splits if_splits)

subsection \<open>The scanner, one lexeme at a time\<close>

definition value_position :: "tstate \<Rightarrow> containerFrame list \<Rightarrow> bool \<Rightarrow> bool" where
  "value_position ts frames root =
     (case frames of
        [] \<Rightarrow> ts = TopValue \<and> \<not> root
      | f # _ \<Rightarrow>
          delimiter f = LBrack \<and> (ts = ArrayStart \<or> ts = ArrayValue)
          \<or> delimiter f = LBrace \<and> \<not> wantKey f \<and> ts = ObjectValue)"

lemma value_position_allowed: "value_position ts frames root \<Longrightarrow> tokenValueAllowed ts"
  by (auto simp: value_position_def tokenValueAllowed_def split: list.splits)

text \<open>At a place for a value every token goes to the branch for values.\<close>

lemma on_token_value: "value_position ts frames root \<Longrightarrow> on_token t frames root = on_value t frames root"
  by (auto simp: value_position_def on_token_def split: list.splits)

lemma length_want_next_key [simp]: "length (want_next_key fs) = length fs"
  by (cases fs) simp_all

lemma want_next_key_Nil [simp]: "want_next_key fs = [] \<longleftrightarrow> fs = []"
  by (cases fs) simp_all

text \<open>The loop on a list of lexemes that is not empty, unfolded once.\<close>

lemmas loop_unfold = validate_loop.simps [of "(l # ls, ts, stk)" for l ls ts stk]

lemma loop_Nil:
  "validate_loop ([], ts, stk) frames root = (if root \<and> frames = [] then None else Some ErrInvalidJSON)"
  by (simp add: validate_loop.simps)

lemma loop_colon:
  "validate_loop (LColon # ls, ObjectColon, stk) frames root = validate_loop (ls, ObjectValue, stk) frames root"
  by (simp add: validate_loop.simps)

lemma loop_comma:
  "validate_loop (LComma # ls, ArrayComma, stk) frames root = validate_loop (ls, ArrayValue, stk) frames root"
  "validate_loop (LComma # ls, ObjectComma, stk) frames root = validate_loop (ls, ObjectKey, stk) frames root"
  by (simp_all add: validate_loop.simps)

lemma loop_scalar:
  assumes "value_position ts frames root"
  shows "validate_loop (LAtom a # ls, ts, stk) frames root
           = validate_loop (ls, tokenValueEnd ts, stk) (want_next_key frames) (root \<or> frames = [])"
    and "validate_loop (LStr s # ls, ts, stk) frames root
           = validate_loop (ls, tokenValueEnd ts, stk) (want_next_key frames) (root \<or> frames = [])"
  using assms value_position_allowed [OF assms]
  by (auto simp: loop_unfold on_token_value on_value_def value_position_def split: list.splits)

lemma loop_open_array:
  assumes "value_position ts frames root"
  shows "validate_loop (LDelim LBrack # ls, ts, stk) frames root =
     (if length frames = maxNestingDepth then Some ErrInvalidJSON
      else validate_loop (ls, ArrayStart, ts # stk)
             (\<lparr>delimiter = LBrack, seen = {}, wantKey = False\<rparr> # want_next_key frames) root)"
  using assms value_position_allowed [OF assms]
  by (simp add: loop_unfold on_token_value on_value_def on_open_def)

lemma loop_open_object:
  assumes "value_position ts frames root"
  shows "validate_loop (LDelim LBrace # ls, ts, stk) frames root =
     (if length frames = maxNestingDepth then Some ErrInvalidJSON
      else validate_loop (ls, ObjectStart, ts # stk)
             (\<lparr>delimiter = LBrace, seen = {}, wantKey = True\<rparr> # want_next_key frames) root)"
  using assms value_position_allowed [OF assms]
  by (simp add: loop_unfold on_token_value on_value_def on_open_def)

lemma loop_close_array:
  assumes "delimiter f = LBrack" and "ts = ArrayStart \<or> ts = ArrayComma"
  shows "validate_loop (LDelim RBrack # ls, ts, t # stk) (f # fs) root
           = validate_loop (ls, tokenValueEnd t, stk) fs (root \<or> fs = [])"
  using assms
  by (auto simp: loop_unfold close_delim_def on_token_def on_value_def on_close_def delimitersMatch_def)

lemma loop_close_object:
  assumes "delimiter f = LBrace" and "wantKey f" and "ts = ObjectStart \<or> ts = ObjectComma"
  shows "validate_loop (LDelim RBrace # ls, ts, t # stk) (f # fs) root
           = validate_loop (ls, tokenValueEnd t, stk) fs (root \<or> fs = [])"
  using assms
  by (auto simp: loop_unfold close_delim_def on_token_def on_key_def)

lemma loop_name:
  assumes "delimiter f = LBrace" and "wantKey f" and "ts = ObjectStart \<or> ts = ObjectKey"
  shows "validate_loop (LStr k # ls, ts, stk) (f # fs) root =
     (if k \<in> seen f then Some ErrDuplicateName
      else validate_loop (ls, ObjectColon, stk)
             (f\<lparr>seen := insert k (seen f), wantKey := False\<rparr> # fs) root)"
  using assms by (auto simp: loop_unfold on_token_def on_key_def)

lemmas loop_steps = loop_Nil loop_colon loop_comma loop_scalar loop_open_array loop_open_object
  loop_close_array loop_close_object loop_name

subsection \<open>The scanner on a rendered value\<close>

definition tail_list :: "lexeme list list \<Rightarrow> lexeme list" where
  "tail_list xss = concat (map (Cons LComma) xss)"

lemma comma_list_simps [simp]:
  "comma_list [] = []"
  "comma_list (xs # xss) = xs @ tail_list xss"
  by (simp_all add: comma_list_def tail_list_def)

lemma tail_list_simps [simp]:
  "tail_list [] = []"
  "tail_list (xs # xss) = LComma # xs @ tail_list xss"
  by (simp_all add: tail_list_def)

abbreviation member_lexemes :: "string \<times> json \<Rightarrow> lexeme list" where
  "member_lexemes \<equiv> (\<lambda>(k, v). LStr k # LColon # render v)"

abbreviation outcome_then :: "jerror option \<Rightarrow> jerror option \<Rightarrow> jerror option" where
  "outcome_then e k \<equiv> (case e of Some x \<Rightarrow> Some x | None \<Rightarrow> k)"

text \<open>
  From a place for a value, the scanner does to the lexemes of \<open>v\<close> what the reference checker
  does to \<open>v\<close>, and goes on after it. The same for the elements of an array and the members of
  an object, up to the closing delimiter.
\<close>

lemma run_value:
  "n = maxNestingDepth - length fs \<Longrightarrow> length fs \<le> maxNestingDepth \<Longrightarrow> value_position ts fs root \<Longrightarrow>
   validate_loop (render v @ ls, ts, stk) fs root
     = outcome_then (check n v) (validate_loop (ls, tokenValueEnd ts, stk) (want_next_key fs) (root \<or> fs = []))"
  "n = maxNestingDepth - length (f # fs) \<Longrightarrow> length (f # fs) \<le> maxNestingDepth \<Longrightarrow>
   delimiter f = LBrack \<Longrightarrow> ts = ArrayStart \<or> ts = ArrayComma \<Longrightarrow>
   validate_loop ((if ts = ArrayStart then comma_list else tail_list) (map render vs) @ LDelim RBrack # ls,
                  ts, t # stk) (f # fs) root
     = outcome_then (check_elems n vs) (validate_loop (ls, tokenValueEnd t, stk) fs (root \<or> fs = []))"
  "n = maxNestingDepth - length (f # fs) \<Longrightarrow> length (f # fs) \<le> maxNestingDepth \<Longrightarrow>
   delimiter f = LBrace \<Longrightarrow> wantKey f \<Longrightarrow> seen f = ns \<Longrightarrow> ts = ObjectStart \<or> ts = ObjectComma \<Longrightarrow>
   validate_loop ((if ts = ObjectStart then comma_list else tail_list) (map member_lexemes ms) @ LDelim RBrace # ls,
                  ts, t # stk) (f # fs) root
     = outcome_then (check_members n ns ms) (validate_loop (ls, tokenValueEnd t, stk) fs (root \<or> fs = []))"
proof (induction n v and n vs and n ns ms arbitrary: fs ts root ls stk and f fs ts root ls t stk and f fs ts root ls t stk
    rule: check_check_elems_check_members.induct)
  case (3 n vs)
  show ?case
  proof (cases n)
    case 0
    with "3.prems" show ?thesis by (simp add: loop_open_array)
  next
    case (Suc m)
    let ?f = "\<lparr>delimiter = LBrack, seen = {}, wantKey = False\<rparr>"
    from Suc "3.prems" have "m = maxNestingDepth - length (?f # want_next_key fs)"
      and "length (?f # want_next_key fs) \<le> maxNestingDepth" by simp_all
    note IH = "3.IH" [OF Suc this, of ArrayStart]
    from Suc "3.prems" IH show ?thesis by (auto simp: loop_open_array split: option.split)
  qed
next
  case (4 n ms)
  show ?case
  proof (cases n)
    case 0
    with "4.prems" show ?thesis by (simp add: loop_open_object)
  next
    case (Suc m)
    let ?f = "\<lparr>delimiter = LBrace, seen = {}, wantKey = True\<rparr>"
    from Suc "4.prems" have "m = maxNestingDepth - length (?f # want_next_key fs)"
      and "length (?f # want_next_key fs) \<le> maxNestingDepth" by simp_all
    note IH = "4.IH" [OF Suc this, of ObjectStart]
    from Suc "4.prems" IH show ?thesis by (auto simp: loop_open_object split: option.split)
  qed
next
  case (6 n v vs)
  from "6.prems" have pos: "value_position (if ts = ArrayStart then ArrayStart else ArrayValue) (f # fs) root"
    by (auto simp: value_position_def)
  note v = "6.IH"(1) [OF "6.prems"(1,2) pos]
    and vs = "6.IH"(2) [OF _ "6.prems"(1,2,3), of ArrayComma]
  from "6.prems" v vs show ?case
    by (auto simp: loop_comma split: option.split)
next
  case (8 n ns k v ms)
  let ?f = "f\<lparr>seen := insert k ns, wantKey := False\<rparr>"
  let ?g = "f\<lparr>seen := insert k ns, wantKey := True\<rparr>"
  show ?case
  proof (cases "k \<in> ns")
    case True
    with "8.prems" show ?thesis by (auto simp: loop_comma loop_name)
  next
    case False
    from "8.prems" have "value_position ObjectValue (?f # fs) root"
      by (auto simp: value_position_def)
    with "8.prems" have v: "validate_loop (render v @ ls', ObjectValue, stk') (?f # fs) root
        = outcome_then (check n v) (validate_loop (ls', ObjectComma, stk') (?g # fs) root)" for ls' stk'
      using "8.IH"(1) [OF False, of "?f # fs" ObjectValue root] by (simp cong: option.case_cong)
    from "8.prems" have ms: "check n v = None \<Longrightarrow>
        validate_loop (tail_list (map member_lexemes ms) @ LDelim RBrace # ls, ObjectComma, t # stk) (?g # fs) root
        = outcome_then (check_members n (insert k ns) ms)
            (validate_loop (ls, tokenValueEnd t, stk) fs (root \<or> fs = []))"
      using "8.IH"(2) [OF False, of ?g fs ObjectComma] by simp
    from "8.prems" False v ms show ?thesis
      by (auto simp: loop_comma loop_name loop_colon split: option.split)
  qed
qed (auto simp: loop_scalar loop_close_array loop_close_object)

lemma loop_render: "validate_loop (render v, TopValue, []) [] False = check maxNestingDepth v"
  using run_value(1) [of maxNestingDepth "[]" TopValue False v "[]" "[]"]
  by (simp add: value_position_def loop_Nil split: option.splits)

lemma Validate_render: "lexemes data = render v \<Longrightarrow> Validate data = check maxNestingDepth v"
  by (simp add: Validate_def validateTokens_def NewDecoder_def loop_render)

subsection \<open>What the scanner accepts\<close>

text \<open>
  The converse: what is left to read when the scanner ends without a fault. \<open>done_with fs ls\<close>:
  after a value inside the frames \<open>fs\<close>, the lexemes \<open>ls\<close> complete every open container.
\<close>

abbreviation room :: "containerFrame list \<Rightarrow> nat" where
  "room fs \<equiv> maxNestingDepth - length fs"

fun done_with :: "containerFrame list \<Rightarrow> lexeme list \<Rightarrow> bool" where
  "done_with [] ls \<longleftrightarrow> ls = []"
| "done_with (f # fs) ls \<longleftrightarrow>
     (if delimiter f = LBrack
      then \<exists>vs rest. ls = tail_list (map render vs) @ LDelim RBrack # rest
             \<and> check_elems (room (f # fs)) vs = None \<and> done_with fs rest
      else \<exists>ms rest. ls = tail_list (map member_lexemes ms) @ LDelim RBrace # rest
             \<and> check_members (room (f # fs)) (seen f) ms = None \<and> done_with fs rest)"

definition value_then :: "containerFrame list \<Rightarrow> lexeme list \<Rightarrow> bool" where
  "value_then fs ls \<longleftrightarrow> (\<exists>v rest. ls = render v @ rest \<and> check (room fs) v = None \<and> done_with fs rest)"

definition name_then :: "containerFrame list \<Rightarrow> lexeme list \<Rightarrow> bool" where
  "name_then fs ls \<longleftrightarrow>
     (\<exists>k rest f outer. fs = f # outer \<and> ls = LStr k # LColon # rest \<and> k \<notin> seen f
        \<and> value_then (f\<lparr>seen := insert k (seen f)\<rparr> # outer) rest)"

text \<open>The last case: \<open>ObjectColon\<close>, between a name and its colon.\<close>

fun completes :: "tstate \<Rightarrow> containerFrame list \<Rightarrow> bool \<Rightarrow> lexeme list \<Rightarrow> bool" where
  "completes TopValue fs root ls \<longleftrightarrow> (if root then ls = [] else value_then fs ls)"
| "completes ArrayStart fs root ls \<longleftrightarrow>
     (\<exists>rest. ls = LDelim RBrack # rest \<and> done_with (tl fs) rest) \<or> value_then fs ls"
| "completes ArrayValue fs root ls \<longleftrightarrow> value_then fs ls"
| "completes ObjectValue fs root ls \<longleftrightarrow> value_then fs ls"
| "completes ArrayComma fs root ls \<longleftrightarrow> done_with fs ls"
| "completes ObjectComma fs root ls \<longleftrightarrow> done_with fs ls"
| "completes ObjectStart fs root ls \<longleftrightarrow>
     (\<exists>rest. ls = LDelim RBrace # rest \<and> done_with (tl fs) rest) \<or> name_then fs ls"
| "completes ObjectKey fs root ls \<longleftrightarrow> name_then fs ls"
| "completes ObjectColon fs root ls \<longleftrightarrow> (\<exists>rest. ls = LColon # rest \<and> value_then fs rest)"

definition at_frame :: "containerFrame \<Rightarrow> tstate \<Rightarrow> bool" where
  "at_frame f ts \<longleftrightarrow>
     delimiter f = LBrack \<and> ts \<in> {ArrayStart, ArrayValue, ArrayComma}
     \<or> delimiter f = LBrace \<and> wantKey f \<and> ts \<in> {ObjectStart, ObjectKey, ObjectComma}
     \<or> delimiter f = LBrace \<and> \<not> wantKey f \<and> ts \<in> {ObjectColon, ObjectValue}"

definition saved_state :: "tstate \<Rightarrow> containerFrame list \<Rightarrow> bool" where
  "saved_state t fs \<longleftrightarrow>
     (case fs of
        [] \<Rightarrow> t = TopValue
      | f # _ \<Rightarrow> delimiter f = LBrack \<and> t \<in> {ArrayStart, ArrayValue}
                 \<or> delimiter f = LBrace \<and> wantKey f \<and> t = ObjectValue)"

fun stack_ok :: "tstate list \<Rightarrow> containerFrame list \<Rightarrow> bool" where
  "stack_ok [] [] \<longleftrightarrow> True"
| "stack_ok (t # ts) (f # fs) \<longleftrightarrow> saved_state t fs \<and> stack_ok ts fs"
| "stack_ok _ _ \<longleftrightarrow> False"

text \<open>The decoder's state and the scanner's frames agree.\<close>

definition config_ok :: "tstate \<Rightarrow> tstate list \<Rightarrow> containerFrame list \<Rightarrow> bool" where
  "config_ok ts stk fs \<longleftrightarrow>
     length fs \<le> maxNestingDepth \<and> stack_ok stk fs
     \<and> (case fs of [] \<Rightarrow> ts = TopValue | f # _ \<Rightarrow> at_frame f ts)"

lemma done_with_want_next_key [simp]: "done_with (want_next_key fs) = done_with fs"
  by (cases fs) (auto simp: fun_eq_iff)

lemma value_then_want_next_key [simp]: "value_then (want_next_key fs) = value_then fs"
  by (simp add: value_then_def fun_eq_iff)

lemma done_with_wantKey: "done_with (f\<lparr>wantKey := b\<rparr> # fs) = done_with (f # fs)"
  by (simp add: fun_eq_iff)

lemma value_then_wantKey [simp]: "value_then (f\<lparr>wantKey := b\<rparr> # fs) = value_then (f # fs)"
  by (simp add: value_then_def fun_eq_iff)

lemma stack_ok_length: "stack_ok stk fs \<Longrightarrow> length stk = length fs"
  by (induction stk fs rule: stack_ok.induct) auto

text \<open>How each lexeme extends what completes a configuration.\<close>

lemma value_then_scalar:
  "done_with fs ls \<Longrightarrow> value_then fs (LAtom a # ls)"
  "done_with fs ls \<Longrightarrow> value_then fs (LStr s # ls)"
  unfolding value_then_def
  by (rule exI [of _ "JAtom a"], simp) (rule exI [of _ "JString s"], simp)

lemma value_then_array:
  assumes "completes ArrayStart (f # fs) root ls" and "delimiter f = LBrack" and "length fs < maxNestingDepth"
  shows "value_then fs (LDelim LBrack # ls)"
proof -
  from assms(1) consider (empty) rest where "ls = LDelim RBrack # rest" "done_with fs rest"
    | (elem) "value_then (f # fs) ls" by auto
  then obtain vs rest where "ls = comma_list (map render vs) @ LDelim RBrack # rest"
    and "check_elems (room (f # fs)) vs = None" and "done_with fs rest"
  proof cases
    case (empty rest)
    then show ?thesis using that [of "[]" rest] by simp
  next
    case elem
    then obtain v rest where v: "ls = render v @ rest" "check (room (f # fs)) v = None" "done_with (f # fs) rest"
      by (auto simp: value_then_def)
    then obtain vs rest' where "rest = tail_list (map render vs) @ LDelim RBrack # rest'"
      "check_elems (room (f # fs)) vs = None" "done_with fs rest'"
      using assms(2) by auto
    with v show ?thesis using that [of "v # vs" rest'] by simp
  qed
  moreover from assms(3) have "room fs = Suc (room (f # fs))" by simp
  ultimately show ?thesis
    unfolding value_then_def by (intro exI [of _ "JArray vs"]) auto
qed

lemma name_then_members:
  assumes "name_then (f # fs) ls" and "delimiter f = LBrace"
  obtains k v ms rest where "ls = member_lexemes (k, v) @ tail_list (map member_lexemes ms) @ LDelim RBrace # rest"
    and "check_members (room (f # fs)) (seen f) ((k, v) # ms) = None" and "done_with fs rest"
proof -
  from assms(1) obtain k r where k: "ls = LStr k # LColon # r" "k \<notin> seen f"
    and r: "value_then (f\<lparr>seen := insert k (seen f)\<rparr> # fs) r" by (auto simp: name_then_def)
  then obtain v r' where v: "r = render v @ r'" "check (room (f # fs)) v = None"
    and r': "done_with (f\<lparr>seen := insert k (seen f)\<rparr> # fs) r'" by (auto simp: value_then_def)
  from r' assms(2) obtain ms rest where "r' = tail_list (map member_lexemes ms) @ LDelim RBrace # rest"
    "check_members (room (f # fs)) (insert k (seen f)) ms = None" "done_with fs rest" by auto
  with k v show thesis using that [of k v ms rest] by simp
qed

lemma value_then_object:
  assumes "completes ObjectStart (f # fs) root ls" and "delimiter f = LBrace" and "seen f = {}"
    and "length fs < maxNestingDepth"
  shows "value_then fs (LDelim LBrace # ls)"
proof -
  from assms(1) consider (empty) rest where "ls = LDelim RBrace # rest" "done_with fs rest"
    | (name) "name_then (f # fs) ls" by auto
  then obtain ms rest where "ls = comma_list (map member_lexemes ms) @ LDelim RBrace # rest"
    and "check_members (room (f # fs)) {} ms = None" and "done_with fs rest"
  proof cases
    case (empty rest)
    then show ?thesis using that [of "[]" rest] by simp
  next
    case name
    then obtain k v ms rest
      where "ls = member_lexemes (k, v) @ tail_list (map member_lexemes ms) @ LDelim RBrace # rest"
      "check_members (room (f # fs)) (seen f) ((k, v) # ms) = None" "done_with fs rest"
      by (rule name_then_members [OF _ assms(2)])
    then show ?thesis using that [of "(k, v) # ms" rest] assms(3) by simp
  qed
  moreover from assms(4) have "room fs = Suc (room (f # fs))" by simp
  ultimately show ?thesis
    unfolding value_then_def by (intro exI [of _ "JObject ms"]) auto
qed

lemma done_with_close:
  "delimiter f = LBrack \<Longrightarrow> done_with fs ls \<Longrightarrow> done_with (f # fs) (LDelim RBrack # ls)"
  "delimiter f = LBrace \<Longrightarrow> done_with fs ls \<Longrightarrow> done_with (f # fs) (LDelim RBrace # ls)"
  by (auto intro: exI [of _ "[]"])

lemma done_with_comma_array:
  assumes "delimiter f = LBrack" and "value_then (f # fs) ls"
  shows "done_with (f # fs) (LComma # ls)"
proof -
  from assms(2) obtain v r where v: "ls = render v @ r" "check (room (f # fs)) v = None" "done_with (f # fs) r"
    by (auto simp: value_then_def)
  then obtain vs rest where "r = tail_list (map render vs) @ LDelim RBrack # rest"
    "check_elems (room (f # fs)) vs = None" "done_with fs rest" using assms(1) by auto
  with v(1,2) assms(1) show ?thesis by (auto intro!: exI [of _ "v # vs"])
qed

lemma done_with_comma_object:
  assumes "delimiter f = LBrace" and "name_then (f # fs) ls"
  shows "done_with (f # fs) (LComma # ls)"
proof -
  from assms(2,1) obtain k v ms rest
    where "ls = member_lexemes (k, v) @ tail_list (map member_lexemes ms) @ LDelim RBrace # rest"
    "check_members (room (f # fs)) (seen f) ((k, v) # ms) = None" "done_with fs rest"
    by (rule name_then_members)
  with assms(1) show ?thesis by (auto intro!: exI [of _ "(k, v) # ms"] exI [of _ rest])
qed

text \<open>What a configuration that goes on to accept says about its next lexeme.\<close>

lemma config_value_position:
  assumes "config_ok ts stk fs" and "tokenValueAllowed ts" and "\<not> (root \<and> fs = [])"
  shows "value_position ts fs root"
  using assms
  by (auto simp: config_ok_def at_frame_def value_position_def tokenValueAllowed_def split: list.splits)

lemma accepts_value:
  assumes "validate_loop (l # ls, ts, stk) fs root = None" and "config_ok ts stk fs"
    and "l = LDelim LBrack \<or> l = LDelim LBrace \<or> l = LAtom a"
  shows "value_position ts fs root"
  using assms
  by (intro config_value_position)
     (auto simp: loop_unfold on_token_def split: if_splits)

lemma accepts_string:
  assumes "validate_loop (LStr s # ls, ts, stk) fs root = None" and "config_ok ts stk fs"
  obtains (as_value) "value_position ts fs root"
  | (as_name) f outer where "fs = f # outer" "delimiter f = LBrace" "wantKey f" "ts = ObjectStart \<or> ts = ObjectKey"
proof (cases "ts = ObjectStart \<or> ts = ObjectKey")
  case True
  with assms(2) show thesis
    by (intro as_name [of "hd fs" "tl fs"]) (auto simp: config_ok_def at_frame_def split: list.splits)
next
  case False
  with assms show thesis
    by (intro as_value config_value_position) (auto simp: loop_unfold on_token_def split: if_splits)
qed

lemma accepts_close:
  assumes "validate_loop (LDelim d # ls, ts, stk) fs root = None" and "config_ok ts stk fs"
  shows "d = RBrack \<Longrightarrow> \<exists>f outer t stk'. fs = f # outer \<and> stk = t # stk' \<and> delimiter f = LBrack
            \<and> (ts = ArrayStart \<or> ts = ArrayComma)"
    and "d = RBrace \<Longrightarrow> \<exists>f outer t stk'. fs = f # outer \<and> stk = t # stk' \<and> delimiter f = LBrace
            \<and> wantKey f \<and> (ts = ObjectStart \<or> ts = ObjectComma)"
  using assms
  by (auto simp: loop_unfold config_ok_def at_frame_def length_Suc_conv dest!: stack_ok_length
        split: if_splits list.splits)

lemma accepts_separator:
  "validate_loop (LColon # ls, ts, stk) fs root = None \<Longrightarrow> ts = ObjectColon"
  "validate_loop (LComma # ls, ts, stk) fs root = None \<Longrightarrow> ts = ArrayComma \<or> ts = ObjectComma"
  by (auto simp: loop_unfold split: if_splits)

text \<open>The configuration after a value, a name or a delimiter again agrees.\<close>

lemma config_after_value:
  "value_position ts fs root \<Longrightarrow> config_ok ts stk fs \<Longrightarrow>
     config_ok (tokenValueEnd ts) stk (want_next_key fs)"
proof (cases fs)
  case (Cons f outer)
  then show "value_position ts fs root \<Longrightarrow> config_ok ts stk fs \<Longrightarrow> ?thesis"
    by (cases stk) (auto simp: value_position_def config_ok_def at_frame_def)
qed (auto simp: value_position_def config_ok_def)

lemma config_after_open:
  assumes "value_position ts fs root" and "config_ok ts stk fs" and "length fs \<noteq> maxNestingDepth"
    and "f = \<lparr>delimiter = LBrack, seen = {}, wantKey = False\<rparr> \<and> ts' = ArrayStart
       \<or> f = \<lparr>delimiter = LBrace, seen = {}, wantKey = True\<rparr> \<and> ts' = ObjectStart"
  shows "config_ok ts' (ts # stk) (f # want_next_key fs)"
proof -
  from assms(1) have "saved_state ts (want_next_key fs)"
    by (cases fs) (auto simp: saved_state_def value_position_def)
  moreover from assms(2) have "stack_ok stk (want_next_key fs)"
    by (cases fs; cases stk) (auto simp: config_ok_def)
  ultimately show ?thesis
    using assms(2-4) by (auto simp: config_ok_def at_frame_def)
qed

lemma config_after_close:
  "config_ok ts (t # stk) (f # fs) \<Longrightarrow> config_ok (tokenValueEnd t) stk fs"
  by (cases fs) (auto simp: config_ok_def saved_state_def at_frame_def)

lemma completes_after_value:
  "value_position ts fs root \<Longrightarrow> completes (tokenValueEnd ts) (want_next_key fs) (root \<or> fs = []) ls \<Longrightarrow>
     done_with fs ls"
  by (cases fs) (auto simp: value_position_def done_with_wantKey simp del: done_with.simps(2))

lemma completes_after_close:
  "config_ok ts (t # stk) (f # fs) \<Longrightarrow> completes (tokenValueEnd t) fs (root \<or> fs = []) ls \<Longrightarrow> done_with fs ls"
  by (cases fs) (auto simp: config_ok_def saved_state_def simp del: done_with.simps(2))

text \<open>\<open>explained ls\<close>: whenever the scanner accepts \<open>ls\<close>, they complete its configuration.\<close>

definition explained :: "lexeme list \<Rightarrow> bool" where
  "explained ls \<longleftrightarrow>
     (\<forall>ts stk fs root. validate_loop (ls, ts, stk) fs root = None \<longrightarrow> config_ok ts stk fs \<longrightarrow>
        completes ts fs root ls)"

lemma explainedD:
  "explained ls \<Longrightarrow> validate_loop (ls, ts, stk) fs root = None \<Longrightarrow> config_ok ts stk fs \<Longrightarrow> completes ts fs root ls"
  by (simp add: explained_def)

lemma completes_value:
  "value_position ts fs root \<Longrightarrow> value_then fs ls \<Longrightarrow> completes ts fs root ls"
  by (cases fs) (auto simp: value_position_def)

lemma explained_after_value:
  assumes "explained ls" and pos: "value_position ts fs root" and ok: "config_ok ts stk fs"
    and "validate_loop (ls, tokenValueEnd ts, stk) (want_next_key fs) (root \<or> fs = []) = None"
  shows "done_with fs ls"
  by (rule completes_after_value [OF pos explainedD [OF assms(1,4) config_after_value [OF pos ok]]])

lemma explained_Nil: "explained []"
  by (auto simp: explained_def loop_Nil config_ok_def split: if_splits)

lemma explained_atom: "explained ls \<Longrightarrow> explained (LAtom a # ls)"
  unfolding explained_def [of "LAtom a # ls"]
proof (intro allI impI)
  fix ts stk fs root
  assume e: "explained ls" and v: "validate_loop (LAtom a # ls, ts, stk) fs root = None"
    and ok: "config_ok ts stk fs"
  from v ok have pos: "value_position ts fs root" by (blast intro: accepts_value)
  from v have "done_with fs ls" by (intro explained_after_value [OF e pos ok]) (simp add: loop_scalar pos)
  then show "completes ts fs root (LAtom a # ls)" by (intro completes_value [OF pos] value_then_scalar)
qed

lemma explained_string: "explained ls \<Longrightarrow> explained (LStr s # ls)"
  unfolding explained_def [of "LStr s # ls"]
proof (intro allI impI)
  fix ts stk fs root
  assume e: "explained ls" and v: "validate_loop (LStr s # ls, ts, stk) fs root = None"
    and ok: "config_ok ts stk fs"
  from v ok show "completes ts fs root (LStr s # ls)"
  proof (cases rule: accepts_string)
    case pos: as_value
    from v have "done_with fs ls" by (intro explained_after_value [OF e pos ok]) (simp add: loop_scalar pos)
    then show ?thesis by (intro completes_value [OF pos] value_then_scalar)
  next
    case (as_name f outer)
    let ?g = "f\<lparr>seen := insert s (seen f), wantKey := False\<rparr>"
    from as_name v have k: "s \<notin> seen f" and "validate_loop (ls, ObjectColon, stk) (?g # outer) root = None"
      by (auto simp: loop_name split: if_splits)
    moreover from ok as_name have "config_ok ObjectColon stk (?g # outer)"
      by (cases stk) (auto simp: config_ok_def at_frame_def)
    ultimately have "completes ObjectColon (?g # outer) root ls" by (blast intro: explainedD [OF e])
    then obtain rest where "ls = LColon # rest" "value_then (?g # outer) rest" by auto
    with as_name k show ?thesis by (auto simp: name_then_def)
  qed
qed

lemma explained_colon: "explained ls \<Longrightarrow> explained (LColon # ls)"
  unfolding explained_def [of "LColon # ls"]
proof (intro allI impI)
  fix ts stk fs root
  assume e: "explained ls" and v: "validate_loop (LColon # ls, ts, stk) fs root = None"
    and ok: "config_ok ts stk fs"
  from v have ts: "ts = ObjectColon" by (rule accepts_separator)
  with ok have "config_ok ObjectValue stk fs" by (auto simp: config_ok_def at_frame_def split: list.splits)
  with v ts explainedD [OF e, of ObjectValue stk fs root] show "completes ts fs root (LColon # ls)"
    by (simp add: loop_colon)
qed

lemma explained_comma: "explained ls \<Longrightarrow> explained (LComma # ls)"
  unfolding explained_def [of "LComma # ls"]
proof (intro allI impI)
  fix ts stk fs root
  assume e: "explained ls" and v: "validate_loop (LComma # ls, ts, stk) fs root = None"
    and ok: "config_ok ts stk fs"
  from v consider (arr) "ts = ArrayComma" | (obj) "ts = ObjectComma" by (blast dest: accepts_separator)
  then show "completes ts fs root (LComma # ls)"
  proof cases
    case arr
    with ok obtain f outer where "fs = f # outer" "delimiter f = LBrack" and "config_ok ArrayValue stk fs"
      by (auto simp: config_ok_def at_frame_def split: list.splits)
    with explainedD [OF e, of ArrayValue stk fs root] v arr show ?thesis
      by (simp add: loop_comma done_with_comma_array del: done_with.simps)
  next
    case obj
    with ok obtain f outer where "fs = f # outer" "delimiter f = LBrace" and "config_ok ObjectKey stk fs"
      by (auto simp: config_ok_def at_frame_def split: list.splits)
    with explainedD [OF e, of ObjectKey stk fs root] v obj show ?thesis
      by (simp add: loop_comma done_with_comma_object del: done_with.simps)
  qed
qed

lemma explained_bad: "explained (LBad # ls)"
  by (simp add: explained_def loop_unfold)

lemma explained_open_array: "explained ls \<Longrightarrow> explained (LDelim LBrack # ls)"
  unfolding explained_def [of "LDelim LBrack # ls"]
proof (intro allI impI)
  fix ts stk fs root
  assume e: "explained ls" and v: "validate_loop (LDelim LBrack # ls, ts, stk) fs root = None"
    and ok: "config_ok ts stk fs"
  let ?f = "\<lparr>delimiter = LBrack, seen = {}, wantKey = False\<rparr>"
  from v ok have pos: "value_position ts fs root" by (blast intro: accepts_value)
  with v have depth: "length fs \<noteq> maxNestingDepth"
    and "validate_loop (ls, ArrayStart, ts # stk) (?f # want_next_key fs) root = None"
    by (auto simp: loop_open_array split: if_splits)
  with e have c: "completes ArrayStart (?f # want_next_key fs) root ls"
    by (intro explainedD [OF e]) (auto intro: config_after_open [OF pos ok])
  from depth ok have "length (want_next_key fs) < maxNestingDepth" by (simp add: config_ok_def)
  then have "value_then (want_next_key fs) (LDelim LBrack # ls)"
    by (intro value_then_array [OF c]) simp_all
  then show "completes ts fs root (LDelim LBrack # ls)" by (intro completes_value [OF pos]) simp
qed

lemma explained_open_object: "explained ls \<Longrightarrow> explained (LDelim LBrace # ls)"
  unfolding explained_def [of "LDelim LBrace # ls"]
proof (intro allI impI)
  fix ts stk fs root
  assume e: "explained ls" and v: "validate_loop (LDelim LBrace # ls, ts, stk) fs root = None"
    and ok: "config_ok ts stk fs"
  let ?f = "\<lparr>delimiter = LBrace, seen = {}, wantKey = True\<rparr>"
  from v ok have pos: "value_position ts fs root" by (blast intro: accepts_value)
  with v have depth: "length fs \<noteq> maxNestingDepth"
    and "validate_loop (ls, ObjectStart, ts # stk) (?f # want_next_key fs) root = None"
    by (auto simp: loop_open_object split: if_splits)
  with e have c: "completes ObjectStart (?f # want_next_key fs) root ls"
    by (intro explainedD [OF e]) (auto intro: config_after_open [OF pos ok])
  from depth ok have "length (want_next_key fs) < maxNestingDepth" by (simp add: config_ok_def)
  then have "value_then (want_next_key fs) (LDelim LBrace # ls)"
    by (intro value_then_object [OF c]) simp_all
  then show "completes ts fs root (LDelim LBrace # ls)" by (intro completes_value [OF pos]) simp
qed

lemma explained_close_array: "explained ls \<Longrightarrow> explained (LDelim RBrack # ls)"
  unfolding explained_def [of "LDelim RBrack # ls"]
proof (intro allI impI)
  fix ts stk fs root
  assume e: "explained ls" and v: "validate_loop (LDelim RBrack # ls, ts, stk) fs root = None"
    and ok: "config_ok ts stk fs"
  from accepts_close(1) [OF v ok] obtain f outer t stk' where f: "fs = f # outer" "stk = t # stk'"
    "delimiter f = LBrack" "ts = ArrayStart \<or> ts = ArrayComma" by auto
  from v f have "validate_loop (ls, tokenValueEnd t, stk') outer (root \<or> outer = []) = None"
    by (simp add: loop_close_array)
  moreover from ok have ok': "config_ok ts (t # stk') (f # outer)" unfolding f .
  ultimately have "done_with outer ls"
    by (blast intro: completes_after_close explainedD [OF e] config_after_close)
  with f done_with_close(1) [of f outer ls] show "completes ts fs root (LDelim RBrack # ls)"
    by (auto simp del: done_with.simps)
qed

lemma explained_close_object: "explained ls \<Longrightarrow> explained (LDelim RBrace # ls)"
  unfolding explained_def [of "LDelim RBrace # ls"]
proof (intro allI impI)
  fix ts stk fs root
  assume e: "explained ls" and v: "validate_loop (LDelim RBrace # ls, ts, stk) fs root = None"
    and ok: "config_ok ts stk fs"
  from accepts_close(2) [OF v ok] obtain f outer t stk' where f: "fs = f # outer" "stk = t # stk'"
    "delimiter f = LBrace" "wantKey f" "ts = ObjectStart \<or> ts = ObjectComma" by auto
  from v f have "validate_loop (ls, tokenValueEnd t, stk') outer (root \<or> outer = []) = None"
    by (simp add: loop_close_object)
  moreover from ok have ok': "config_ok ts (t # stk') (f # outer)" unfolding f .
  ultimately have "done_with outer ls"
    by (blast intro: completes_after_close explainedD [OF e] config_after_close)
  with f done_with_close(2) [of f outer ls] show "completes ts fs root (LDelim RBrace # ls)"
    by (auto simp del: done_with.simps)
qed

lemma explained_all: "explained ls"
proof (induction ls)
  case (Cons l ls)
  then show ?case
    by (cases l; cases "case l of LDelim d \<Rightarrow> d | _ \<Rightarrow> LBrace")
       (simp_all add: explained_atom explained_string explained_colon explained_comma explained_bad
         explained_open_array explained_open_object explained_close_array explained_close_object)
qed (rule explained_Nil)

lemma loop_accepts:
  assumes "validate_loop (ls, TopValue, []) [] False = None"
  shows "\<exists>v. ls = render v \<and> check maxNestingDepth v = None"
proof -
  have "config_ok TopValue [] []" by (simp add: config_ok_def)
  with assms have "completes TopValue [] False ls" by (intro explainedD [OF explained_all])
  then show ?thesis by (auto simp: value_then_def)
qed

lemma Validate_accepts: "Validate data = None \<Longrightarrow> \<exists>v. lexemes data = render v \<and> check maxNestingDepth v = None"
  by (rule loop_accepts) (simp add: Validate_def validateTokens_def NewDecoder_def)


subsection \<open>The contract\<close>

text \<open>
  C1 (equivalence): for any bytes, \<open>Validate\<close> returns \<open>nil\<close> exactly when the bytes are one
  JSON value (its lexemes are those of some value, with nothing after it), in which no object
  at any depth repeats a member name and containers nest at most \<open>maxNestingDepth\<close> deep.
  Names are compared decoded: the lexemes of two spellings of a name are equal.
\<close>

theorem Validate_iff_well_formed:
  "Validate data = None \<longleftrightarrow>
     (\<exists>v. lexemes data = render v \<and> unique_names v \<and> fits maxNestingDepth v)"
  using Validate_accepts Validate_render check_None(1) by metis

text \<open>
  C23 (refinement): on the text of any JSON value, however it is nested and whatever names it
  repeats, the iterative scanner with its explicit stack gives the answer of the recursive
  reference checker: the same fault, the first in document order, or none.
\<close>

theorem Validate_refines_check:
  assumes "lexemes data = render v"
  shows "Validate data = check maxNestingDepth v"
  using assms by (rule Validate_render)

subsection \<open>Witnesses\<close>

text \<open>The definitions that evaluate the lexer on a concrete text.\<close>

lemmas lexer_defs = lex1_def delim_of_def is_space_def is_digit_def byte_def hex_value_def
  scan_number_def scan_unsigned_def scan_int_def scan_frac_def scan_exp_def scan_digits1_def
  scan_literal_def simple_escape_def utf8_len_def utf8_encode_def is_surrogate_def char_of_def bit_0

text \<open>Two spellings of the name \<open>a\<close>, the second escaped, in one object.\<close>

definition twice_a :: string where
  "twice_a = ''{\"a\":1,\"'' @ CHR 0x5C # ''u0061\":[]}''"

definition twice_a_value :: json where
  "twice_a_value = JObject [(''a'', JAtom (Number ''1'')), (''a'', JArray [])]"

lemma lexemes_twice_a: "lexemes twice_a = render twice_a_value"
  by (simp add: twice_a_def twice_a_value_def lexer_defs)

theorem Validate_refines_check_witness: "Validate twice_a = Some ErrDuplicateName"
  by (simp add: Validate_refines_check [OF lexemes_twice_a] twice_a_value_def maxNestingDepth_def)

end
