(* ===== verification/JsonErrors.thy ===== *)
theory JsonErrors
  imports JsonGrammar
begin

text \<open>
  Which of its two errors \<open>Validate\<close> reports, on any input: the scanner as a machine that takes one
  lexeme at a time, how each of its configurations can be completed to a JSON value, and the point
  at which it stops.
\<close>

subsection \<open>One lexeme at a time\<close>

text \<open>\<open>tokenState\<close>, \<open>tokenStack\<close>, the frames and \<open>rootComplete\<close>.\<close>

type_synonym scan_config = "tstate \<times> tstate list \<times> containerFrame list \<times> bool"

definition lex_step :: "scan_config \<Rightarrow> lexeme \<Rightarrow> (jerror, scan_config) result" where
  "lex_step c l =
     (case c of (ts, stk, fs, root) \<Rightarrow>
        if l = LColon then (if ts = ObjectColon then Inr (ObjectValue, stk, fs, root) else Inl ErrInvalidJSON)
        else if l = LComma then
          (if ts = ArrayComma then Inr (ArrayValue, stk, fs, root)
           else if ts = ObjectComma then Inr (ObjectKey, stk, fs, root) else Inl ErrInvalidJSON)
        else case Token ([l], ts, stk) of
          TGot tok (ls, ts', stk') \<Rightarrow>
            (case on_token tok fs root of Inl e \<Rightarrow> Inl e | Inr (fs', root') \<Rightarrow> Inr (ts', stk', fs', root'))
        | _ \<Rightarrow> Inl ErrInvalidJSON)"

fun lex_run :: "scan_config \<Rightarrow> lexeme list \<Rightarrow> (jerror, scan_config) result" where
  "lex_run c [] = Inr c"
| "lex_run c (l # ls) = (case lex_step c l of Inl e \<Rightarrow> Inl e | Inr c' \<Rightarrow> lex_run c' ls)"

definition loop_at :: "scan_config \<Rightarrow> lexeme list \<Rightarrow> jerror option" where
  "loop_at c ls = (case c of (ts, stk, fs, root) \<Rightarrow> validate_loop (ls, ts, stk) fs root)"

abbreviation start_config :: scan_config where
  "start_config \<equiv> (TopValue, [], [], False)"

lemma Validate_loop_at: "Validate data = loop_at start_config (lexemes data)"
  by (simp add: Validate_def validateTokens_def NewDecoder_def loop_at_def)

lemma Token_local: "l \<noteq> LColon \<Longrightarrow> l \<noteq> LComma \<Longrightarrow> Token (l # ls, ts, stk) =
    (case Token ([l], ts, stk) of TGot tok (_, ts', stk') \<Rightarrow> TGot tok (ls, ts', stk') | r \<Rightarrow> r)"
  by (cases "([l], ts, stk)" rule: Token.cases) (simp_all add: close_delim_def split: list.split)

lemma Token_reads: "l \<noteq> LColon \<Longrightarrow> l \<noteq> LComma \<Longrightarrow> Token (l # ls, ts, stk) \<noteq> TEOF"
  by (cases "(l # ls, ts, stk)" rule: Token.cases) (simp_all add: close_delim_def split: list.split)

lemma loop_separator:
  "validate_loop (LColon # ls, ts, stk) fs root =
     (if ts = ObjectColon then validate_loop (ls, ObjectValue, stk) fs root else Some ErrInvalidJSON)"
  "validate_loop (LComma # ls, ts, stk) fs root =
     (if ts = ArrayComma then validate_loop (ls, ArrayValue, stk) fs root
      else if ts = ObjectComma then validate_loop (ls, ObjectKey, stk) fs root else Some ErrInvalidJSON)"
  by (auto simp: loop_colon loop_comma) (simp_all add: loop_unfold)

lemma loop_at_Cons: "loop_at c (l # ls) = (case lex_step c l of Inl e \<Rightarrow> Some e | Inr c' \<Rightarrow> loop_at c' ls)"
proof -
  obtain ts stk fs root where c: "c = (ts, stk, fs, root)" by (cases c)
  show ?thesis
  proof (cases "l = LColon \<or> l = LComma")
    case True
    then show ?thesis by (auto simp: c loop_at_def lex_step_def loop_separator)
  next
    case False
    then show ?thesis
      using Token_local [of l ls ts stk] Token_reads [of l ls ts stk] Token_reads [of l "[]" ts stk]
      by (auto simp: c loop_at_def lex_step_def loop_unfold split: token_read.split prod.split sum.split)
  qed
qed

lemma loop_at_append: "loop_at c (p @ q) = (case lex_run c p of Inl e \<Rightarrow> Some e | Inr c' \<Rightarrow> loop_at c' q)"
  by (induction p arbitrary: c) (simp_all add: loop_at_Cons split: sum.split)

subsection \<open>Every configuration can be completed\<close>

text \<open>After a value, in every open container: the delimiters that close them.\<close>

definition after_value :: "tstate \<Rightarrow> containerFrame list \<Rightarrow> bool \<Rightarrow> bool" where
  "after_value ts fs root \<longleftrightarrow> (case fs of [] \<Rightarrow> root | f # _ \<Rightarrow> ts = ArrayComma \<or> ts = ObjectComma)"

lemma after_value_closes:
  "config_ok ts stk fs \<Longrightarrow> after_value ts fs root \<Longrightarrow> \<exists>q. validate_loop (q, ts, stk) fs root = None"
proof (induction fs arbitrary: ts stk root)
  case Nil
  then show ?case by (intro exI [of _ "[]"]) (simp add: after_value_def loop_Nil)
next
  case (Cons f fs)
  then obtain t stk' where stk: "stk = t # stk'" "saved_state t fs"
    by (cases stk) (auto simp: config_ok_def)
  with Cons.prems(1) have ok: "config_ok (tokenValueEnd t) stk' fs" by (intro config_after_close) simp
  have "after_value (tokenValueEnd t) fs (root \<or> fs = [])"
    using stk(2) by (auto simp: after_value_def saved_state_def split: list.splits)
  from Cons.IH [OF ok this] obtain q where q: "validate_loop (q, tokenValueEnd t, stk') fs (root \<or> fs = []) = None" by blast
  from Cons.prems consider "delimiter f = LBrack" "ts = ArrayComma" | "delimiter f = LBrace" "wantKey f" "ts = ObjectComma"
    by (auto simp: config_ok_def at_frame_def after_value_def)
  then show ?case
  proof cases
    case 1
    with q show ?thesis by (intro exI [of _ "LDelim RBrack # q"]) (simp add: stk(1) loop_close_array)
  next
    case 2
    with q show ?thesis by (intro exI [of _ "LDelim RBrace # q"]) (simp add: stk(1) loop_close_object)
  qed
qed

lemma value_completes:
  assumes "config_ok ts stk fs" and "value_position ts fs root"
  shows "\<exists>q. validate_loop (q, ts, stk) fs root = None"
proof -
  have "after_value (tokenValueEnd ts) (want_next_key fs) (root \<or> fs = [])"
    using assms(2) by (cases fs) (auto simp: after_value_def value_position_def)
  from after_value_closes [OF config_after_value [OF assms(2,1)] this]
  obtain q where "validate_loop (q, tokenValueEnd ts, stk) (want_next_key fs) (root \<or> fs = []) = None" by blast
  then show ?thesis by (intro exI [of _ "LAtom (Number ''0'') # q"]) (simp add: loop_scalar assms(2))
qed

lemma colon_completes:
  assumes "config_ok ObjectColon stk (f # fs)" and "delimiter f = LBrace" and "\<not> wantKey f"
  shows "\<exists>q. validate_loop (q, ObjectColon, stk) (f # fs) root = None"
proof -
  have "config_ok ObjectValue stk (f # fs)" "value_position ObjectValue (f # fs) root"
    using assms by (auto simp: config_ok_def at_frame_def value_position_def)
  from value_completes [OF this] obtain q where "validate_loop (q, ObjectValue, stk) (f # fs) root = None" by blast
  then show ?thesis by (intro exI [of _ "LColon # q"]) (simp add: loop_colon)
qed

lemma name_completes:
  assumes "config_ok ts stk (f # fs)" and "delimiter f = LBrace" and "wantKey f" and "ts = ObjectStart \<or> ts = ObjectKey"
    and "k \<notin> seen f"
  shows "\<exists>q. validate_loop (LStr k # q, ts, stk) (f # fs) root = None"
proof -
  have "config_ok ObjectColon stk (f\<lparr>seen := insert k (seen f), wantKey := False\<rparr> # fs)"
    using assms(1-3) by (cases stk) (auto simp: config_ok_def at_frame_def)
  from colon_completes [OF this] show ?thesis using assms(2-5) by (auto simp: loop_name)
qed

definition finite_seen :: "containerFrame list \<Rightarrow> bool" where
  "finite_seen fs \<longleftrightarrow> (\<forall>f \<in> set fs. finite (seen f))"

lemma fresh_name: "finite (ns :: string set) \<Longrightarrow> \<exists>k. k \<notin> ns"
  by (rule ex_new_if_finite) (rule infinite_UNIV_listI)

lemma config_completes:
  assumes ok: "config_ok ts stk fs" and "finite_seen fs"
  shows "\<exists>q. validate_loop (q, ts, stk) fs root = None"
proof (cases "value_position ts fs root \<or> after_value ts fs root")
  case True
  with ok show ?thesis using value_completes after_value_closes by blast
next
  case False
  then obtain f outer where fs: "fs = f # outer" and f: "delimiter f = LBrace"
    "wantKey f \<and> (ts = ObjectStart \<or> ts = ObjectKey) \<or> \<not> wantKey f \<and> ts = ObjectColon"
    using ok by (cases fs) (auto simp: config_ok_def at_frame_def value_position_def after_value_def)
  obtain k where "k \<notin> seen f" using fresh_name assms(2) fs by (auto simp: finite_seen_def)
  with f ok show ?thesis unfolding fs by (metis name_completes colon_completes)
qed

subsection \<open>Configurations that are reached\<close>

definition good :: "scan_config \<Rightarrow> bool" where
  "good c \<longleftrightarrow> (case c of (ts, stk, fs, root) \<Rightarrow> config_ok ts stk fs \<and> finite_seen fs)"

lemma good_start: "good start_config"
  by (simp add: good_def config_ok_def finite_seen_def)

lemma good_completes: "good c \<Longrightarrow> \<exists>q. loop_at c q = None"
  by (cases c) (auto simp: good_def loop_at_def dest: config_completes)

lemma finite_seen_simps [simp]: "finite_seen []" "finite_seen (f # fs) \<longleftrightarrow> finite (seen f) \<and> finite_seen fs"
  by (simp_all add: finite_seen_def)

lemma finite_seen_want_next_key [simp]: "finite_seen (want_next_key fs) = finite_seen fs"
  by (cases fs) simp_all

lemma config_ok_separators:
  "config_ok ObjectColon stk fs \<Longrightarrow> config_ok ObjectValue stk fs"
  "config_ok ArrayComma stk fs \<Longrightarrow> config_ok ArrayValue stk fs"
  "config_ok ObjectComma stk fs \<Longrightarrow> config_ok ObjectKey stk fs"
  by (cases fs; auto simp: config_ok_def at_frame_def)+

text \<open>A string in an object that wants a name is one; elsewhere scalars and opening delimiters are values.\<close>

lemma lex_step_value:
  assumes "config_ok ts stk fs" and "l = LAtom a \<or> l = LStr x \<and> \<not> (ts = ObjectStart \<or> ts = ObjectKey)"
    and "lex_step (ts, stk, fs, root) l = Inr c"
  shows "value_position ts fs root \<and> c = (tokenValueEnd ts, stk, want_next_key fs, root \<or> fs = [])"
proof -
  from assms(2,3) have "tokenValueAllowed ts" "\<not> (root \<and> fs = [])"
    by (auto simp: lex_step_def on_token_def split: if_splits)
  with assms(1) have pos: "value_position ts fs root" by (rule config_value_position)
  with assms(2,3) show ?thesis
    by (auto simp: lex_step_def on_token_value on_value_def value_position_allowed split: if_splits)
qed

lemma lex_step_name:
  assumes "config_ok ts stk fs" and "ts = ObjectStart \<or> ts = ObjectKey"
  obtains f outer where "fs = f # outer" "delimiter f = LBrace" "wantKey f"
    "lex_step (ts, stk, fs, root) (LStr k) =
       (if k \<in> seen f then Inl ErrDuplicateName
        else Inr (ObjectColon, stk, f\<lparr>seen := insert k (seen f), wantKey := False\<rparr> # outer, root))"
proof -
  from assms obtain f outer where "fs = f # outer" "delimiter f = LBrace" "wantKey f"
    by (cases fs) (auto simp: config_ok_def at_frame_def)
  with assms(2) that show thesis by (auto simp: lex_step_def on_token_def on_key_def)
qed

lemma lex_step_open:
  assumes "config_ok ts stk fs" and "d = LBrack \<or> d = LBrace" and "lex_step (ts, stk, fs, root) (LDelim d) = Inr c"
  shows "value_position ts fs root \<and> length fs \<noteq> maxNestingDepth
    \<and> c = (if d = LBrack then ArrayStart else ObjectStart, ts # stk,
           \<lparr>delimiter = d, seen = {}, wantKey = (d = LBrace)\<rparr> # want_next_key fs, root)"
proof -
  from assms(2,3) have "tokenValueAllowed ts" "\<not> (root \<and> fs = [])"
    by (auto simp: lex_step_def on_token_def split: if_splits)
  with assms(1) have pos: "value_position ts fs root" by (rule config_value_position)
  with assms(2,3) show ?thesis
    by (auto simp: lex_step_def on_token_value on_value_def on_open_def value_position_allowed split: if_splits)
qed

lemma lex_step_close:
  assumes "config_ok ts stk fs" and "d = RBrack \<or> d = RBrace" and "lex_step (ts, stk, fs, root) (LDelim d) = Inr c"
  obtains f outer t stk' root' where "fs = f # outer" "stk = t # stk'" "c = (tokenValueEnd t, stk', outer, root')"
proof -
  from assms(2,3) obtain t stk' where stk: "stk = t # stk'" "Token ([LDelim d], ts, stk) = TGot (TDelim d) ([], tokenValueEnd t, stk')"
    by (cases stk) (auto simp: lex_step_def close_delim_def split: if_splits)
  with assms(1) obtain f outer where fs: "fs = f # outer" by (cases fs) (auto simp: config_ok_def)
  from assms(2,3) stk fs have "c = (tokenValueEnd t, stk', outer, snd (snd (snd c)))"
    by (auto simp: lex_step_def on_token_def on_value_def on_close_def on_key_def split: if_splits)
  with fs stk(1) show thesis by (rule that)
qed

lemma lex_step_good:
  assumes "good c" and "lex_step c l = Inr c'"
  shows "good c'"
proof -
  obtain ts stk fs root where c: "c = (ts, stk, fs, root)" by (cases c)
  with assms have ok: "config_ok ts stk fs" "finite_seen fs" and step: "lex_step (ts, stk, fs, root) l = Inr c'"
    by (simp_all add: good_def)
  show ?thesis
  proof (cases l)
    case (LDelim d)
    then show ?thesis
    proof (cases "d = LBrack \<or> d = LBrace")
      case True
      from lex_step_open [OF ok(1) True step [unfolded LDelim]] ok(2) True show ?thesis
        by (auto simp: good_def intro!: config_after_open [OF _ ok(1)])
    next
      case False
      then have "d = RBrack \<or> d = RBrace" by (cases d) auto
      from lex_step_close [OF ok(1) this] step LDelim obtain f outer t stk' root' where
        "fs = f # outer" "stk = t # stk'" "c' = (tokenValueEnd t, stk', outer, root')" by blast
      with ok show ?thesis by (auto simp: good_def intro: config_after_close)
    qed
  next
    case (LStr k)
    show ?thesis
    proof (cases "ts = ObjectStart \<or> ts = ObjectKey")
      case True
      obtain f outer where f: "fs = f # outer" "delimiter f = LBrace" "wantKey f" and "lex_step (ts, stk, fs, root) (LStr k) =
         (if k \<in> seen f then Inl ErrDuplicateName
          else Inr (ObjectColon, stk, f\<lparr>seen := insert k (seen f), wantKey := False\<rparr> # outer, root))"
        by (rule lex_step_name [OF ok(1) True])
      with step LStr have "c' = (ObjectColon, stk, f\<lparr>seen := insert k (seen f), wantKey := False\<rparr> # outer, root)"
        by (simp split: if_splits)
      with f ok show ?thesis by (cases stk) (auto simp: good_def config_ok_def at_frame_def)
    next
      case False
      from lex_step_value [OF ok(1) _ step [unfolded LStr], of undefined k] False ok show ?thesis
        by (auto simp: good_def intro: config_after_value)
    qed
  next
    case (LAtom a)
    from lex_step_value [OF ok(1) _ step [unfolded LAtom], of a] ok show ?thesis
      by (auto simp: good_def intro: config_after_value)
  next
    case LBad
    with step show ?thesis by (simp add: lex_step_def)
  qed (use step ok in \<open>auto simp: lex_step_def good_def intro: config_ok_separators split: if_splits\<close>)
qed

lemma lex_run_append: "lex_run c (p @ q) = (case lex_run c p of Inl e \<Rightarrow> Inl e | Inr c' \<Rightarrow> lex_run c' q)"
  by (induction p arbitrary: c) (simp_all split: sum.split)

lemma lex_run_good: "lex_run c p = Inr c' \<Longrightarrow> good c \<Longrightarrow> good c'"
  by (induction p arbitrary: c) (auto split: sum.splits dest: lex_step_good)

subsection \<open>Other names\<close>

text \<open>Strings can be replaced by others: what is left is the text of a value of the same shape.\<close>

fun blank :: "lexeme \<Rightarrow> lexeme" where
  "blank (LStr s) = LStr []"
| "blank l = l"

lemma blank_simps [simp]:
  "blank l = LDelim d \<longleftrightarrow> l = LDelim d" "LDelim d = blank l \<longleftrightarrow> l = LDelim d"
  "blank l = LComma \<longleftrightarrow> l = LComma" "LComma = blank l \<longleftrightarrow> l = LComma"
  "blank l = LColon \<longleftrightarrow> l = LColon" "LColon = blank l \<longleftrightarrow> l = LColon"
  "blank l = LAtom a \<longleftrightarrow> l = LAtom a" "LAtom a = blank l \<longleftrightarrow> l = LAtom a"
  "LStr [] = blank l \<longleftrightarrow> (\<exists>s. l = LStr s)" "blank l = LStr [] \<longleftrightarrow> (\<exists>s. l = LStr s)"
  by (cases l; auto)+

definition same_shape :: "json \<Rightarrow> json \<Rightarrow> bool" where
  "same_shape w v \<longleftrightarrow> (\<forall>n. fits n w = fits n v)"

definition relabels :: "('a \<Rightarrow> lexeme list) \<Rightarrow> ('a \<Rightarrow> 'a \<Rightarrow> bool) \<Rightarrow> 'a \<Rightarrow> bool" where
  "relabels rn R x \<longleftrightarrow> (\<forall>ls. map blank ls = map blank (rn x) \<longrightarrow> (\<exists>y. ls = rn y \<and> R y x))"

lemma relabels_tail:
  assumes "list_all (relabels rn R) xs" and "map blank ls = map blank (tail_list (map rn xs))"
  shows "\<exists>ys. ls = tail_list (map rn ys) \<and> list_all2 R ys xs"
  using assms
proof (induction xs arbitrary: ls)
  case (Cons x xs)
  from Cons.prems(2) obtain a b where ls: "ls = LComma # a @ b" "map blank a = map blank (rn x)"
    "map blank b = map blank (tail_list (map rn xs))"
    by (auto simp: map_eq_append_conv map_eq_Cons_conv)
  from ls(2) Cons.prems(1) obtain y where "a = rn y" "R y x" by (auto simp: relabels_def)
  moreover from Cons.IH [OF _ ls(3)] Cons.prems(1) obtain ys where "b = tail_list (map rn ys)" "list_all2 R ys xs" by auto
  ultimately show ?case unfolding ls(1) by (intro exI [of _ "y # ys"]) simp
qed simp

lemma relabels_comma:
  assumes "list_all (relabels rn R) xs" and "map blank ls = map blank (comma_list (map rn xs))"
  shows "\<exists>ys. ls = comma_list (map rn ys) \<and> list_all2 R ys xs"
proof (cases xs)
  case (Cons x xs')
  with assms(2) obtain a b where ls: "ls = a @ b" "map blank a = map blank (rn x)"
    "map blank b = map blank (tail_list (map rn xs'))" by (auto simp: map_eq_append_conv)
  from ls(2) assms(1) Cons obtain y where "a = rn y" "R y x" by (auto simp: relabels_def)
  moreover from relabels_tail [OF _ ls(3)] assms(1) Cons obtain ys where "b = tail_list (map rn ys)" "list_all2 R ys xs'" by auto
  ultimately show ?thesis unfolding ls(1) Cons by (intro exI [of _ "y # ys"]) simp
qed (use assms in simp)

lemma list_all2_shape: "list_all2 same_shape ws vs \<Longrightarrow> list_all (fits n) ws = list_all (fits n) vs"
  by (induction rule: list_all2_induct) (simp_all add: same_shape_def)

lemma list_all2_members:
  "list_all2 (\<lambda>y x. same_shape (snd y) (snd x)) ws ms \<Longrightarrow>
     list_all (\<lambda>(k, v). fits n v) ws = list_all (\<lambda>(k, v). fits n v) ms"
  by (induction rule: list_all2_induct) (auto simp: same_shape_def)

lemma relabels_member:
  assumes "relabels render same_shape v"
  shows "relabels member_lexemes (\<lambda>y x. same_shape (snd y) (snd x)) (k, v)"
  unfolding relabels_def
proof (intro allI impI)
  fix ls
  assume "map blank ls = map blank (member_lexemes (k, v))"
  then obtain k' rest where ls: "ls = LStr k' # LColon # rest" "map blank rest = map blank (render v)"
    by (auto simp: map_eq_Cons_conv)
  with assms obtain w where "rest = render w" "same_shape w v" by (auto simp: relabels_def)
  with ls show "\<exists>y. ls = member_lexemes y \<and> same_shape (snd y) (snd (k, v))" by (intro exI [of _ "(k', w)"]) simp
qed

lemma relabels_json: "relabels render same_shape v"
proof (induction v)
  case (JAtom a)
  show ?case by (auto simp: relabels_def same_shape_def map_eq_Cons_conv intro: exI [of _ "JAtom a"])
next
  case (JString x)
  have "\<exists>y. [LStr s] = render y \<and> same_shape y (JString x)" for s
    by (intro exI [of _ "JString s"]) (simp add: same_shape_def)
  then show ?case by (auto simp: relabels_def map_eq_Cons_conv)
next
  case (JArray vs)
  then have all: "list_all (relabels render same_shape) vs" by (simp add: list_all_iff)
  show ?case unfolding relabels_def
  proof (intro allI impI)
    fix ls
    assume "map blank ls = map blank (render (JArray vs))"
    then obtain b where ls: "ls = LDelim LBrack # b @ [LDelim RBrack]" "map blank b = map blank (comma_list (map render vs))"
      by (auto simp: map_eq_append_conv map_eq_Cons_conv)
    from relabels_comma [OF all this(2)] obtain ws where ws: "b = comma_list (map render ws)" "list_all2 same_shape ws vs" by blast
    then have "same_shape (JArray ws) (JArray vs)" by (simp add: same_shape_def list_all2_shape split: nat.split)
    with ls ws show "\<exists>y. ls = render y \<and> same_shape y (JArray vs)" by (intro exI [of _ "JArray ws"]) simp
  qed
next
  case (JObject ms)
  then have all: "list_all (relabels member_lexemes (\<lambda>y x. same_shape (snd y) (snd x))) ms"
    by (auto simp: list_all_iff intro!: relabels_member)
  show ?case unfolding relabels_def
  proof (intro allI impI)
    fix ls
    assume "map blank ls = map blank (render (JObject ms))"
    then obtain b where ls: "ls = LDelim LBrace # b @ [LDelim RBrace]" "map blank b = map blank (comma_list (map member_lexemes ms))"
      by (auto simp: map_eq_append_conv map_eq_Cons_conv)
    from relabels_comma [OF all this(2)] obtain ws where ws: "b = comma_list (map member_lexemes ws)"
      "list_all2 (\<lambda>y x. same_shape (snd y) (snd x)) ws ms" by blast
    then have "same_shape (JObject ws) (JObject ms)" by (simp add: same_shape_def list_all2_members split: nat.split)
    with ls ws show "\<exists>y. ls = render y \<and> same_shape y (JObject ms)" by (intro exI [of _ "JObject ws"]) simp
  qed
qed

lemma other_name:
  assumes "p @ LStr k # q = render v"
  shows "\<exists>w. p @ LStr k' # q = render w \<and> (\<forall>n. fits n w = fits n v)"
proof -
  have "map blank (p @ LStr k' # q) = map blank (render v)" using arg_cong [OF assms, of "map blank"] by simp
  with relabels_json [of v] show ?thesis by (auto simp: relabels_def same_shape_def)
qed

subsection \<open>Where it stops\<close>

lemma lex_run_fails:
  "lex_run c ls = Inl e \<Longrightarrow> \<exists>p l q c'. ls = p @ l # q \<and> lex_run c p = Inr c' \<and> lex_step c' l = Inl e"
proof (induction ls arbitrary: c)
  case (Cons l ls)
  show ?case
  proof (cases "lex_step c l")
    case (Inl e')
    with Cons.prems show ?thesis by (intro exI [of _ "[]"]) auto
  next
    case (Inr c')
    with Cons.prems Cons.IH [of c'] obtain p l' q c'' where "ls = p @ l' # q" "lex_run c' p = Inr c''" "lex_step c'' l' = Inl e"
      by auto
    with Inr show ?thesis by (intro exI [of _ "l # p"]) auto
  qed
qed simp

lemma lex_step_duplicate:
  assumes "good c" and "lex_step c l = Inl ErrDuplicateName"
  obtains k k' c' where "l = LStr k" "lex_step c (LStr k') = Inr c'"
proof -
  obtain ts stk fs root where c: "c = (ts, stk, fs, root)" by (cases c)
  with assms have ok: "config_ok ts stk fs" "finite_seen fs" by (simp_all add: good_def)
  from assms(2) obtain k r f outer where tok: "l \<noteq> LColon" "l \<noteq> LComma" "Token ([l], ts, stk) = TGot (TString k) r"
    and f: "fs = f # outer" "delimiter f = LBrace" "wantKey f"
    by (auto simp: c lex_step_def on_token_def on_key_def on_value_def on_close_def on_open_def
        split: if_splits token_read.splits prod.splits list.splits jtoken.splits delim.splits sum.splits)
  then have l: "l = LStr k" by (cases "([l], ts, stk)" rule: Token.cases) (auto simp: close_delim_def split: if_splits list.splits)
  with tok(3) f ok(1) have "ts = ObjectStart \<or> ts = ObjectKey"
    by (auto simp: config_ok_def at_frame_def tokenValueAllowed_def)
  obtain k' where k': "\<forall>f \<in> set fs. k' \<notin> seen f"
    using fresh_name [of "\<Union> (seen ` set fs)"] ok(2) by (auto simp: finite_seen_def)
  obtain f outer where "fs = f # outer" "lex_step (ts, stk, fs, root) (LStr k') =
     (if k' \<in> seen f then Inl ErrDuplicateName
      else Inr (ObjectColon, stk, f\<lparr>seen := insert k' (seen f), wantKey := False\<rparr> # outer, root))"
    by (rule lex_step_name [OF ok(1) \<open>ts = ObjectStart \<or> ts = ObjectKey\<close>])
  with k' l that show thesis unfolding c by simp
qed

subsection \<open>The contract\<close>

text \<open>\<open>begins p P\<close>: the lexemes \<open>p\<close> are the beginning of a JSON value with the property \<open>P\<close>.\<close>

definition begins :: "lexeme list \<Rightarrow> (json \<Rightarrow> bool) \<Rightarrow> bool" where
  "begins p P \<longleftrightarrow> (\<exists>v q. p @ q = render v \<and> P v)"

definition repeats_a_name :: "lexeme list \<Rightarrow> bool" where
  "repeats_a_name ls \<longleftrightarrow>
     (\<exists>n. begins (take n ls) (fits maxNestingDepth) \<and> \<not> begins (take n ls) (\<lambda>v. fits maxNestingDepth v \<and> unique_names v))"

lemma loop_at_render: "loop_at start_config (render v) = check maxNestingDepth v"
  by (simp add: loop_at_def loop_render)

lemma loop_at_accepts: "loop_at start_config ls = None \<Longrightarrow> \<exists>v. ls = render v \<and> fits maxNestingDepth v \<and> unique_names v"
  using loop_accepts [of ls] by (auto simp: loop_at_def check_None)

lemma run_begins:
  assumes "lex_run start_config p = Inr c"
  shows "begins p (\<lambda>v. fits maxNestingDepth v \<and> unique_names v)"
proof -
  from good_completes [OF lex_run_good [OF assms good_start]] obtain q where "loop_at c q = None" by blast
  with assms have "loop_at start_config (p @ q) = None" by (simp add: loop_at_append)
  from loop_at_accepts [OF this] show ?thesis unfolding begins_def by blast
qed

lemma duplicate_repeats:
  assumes "loop_at start_config ls = Some ErrDuplicateName"
  shows "repeats_a_name ls"
proof -
  have "loop_at c' [] \<noteq> Some ErrDuplicateName" for c' by (cases c') (simp add: loop_at_def loop_Nil)
  with assms have "lex_run start_config ls = Inl ErrDuplicateName"
    using loop_at_append [of start_config ls "[]"] by (auto split: sum.splits)
  then obtain p l q c where ls: "ls = p @ l # q" and run: "lex_run start_config p = Inr c"
    and stop: "lex_step c l = Inl ErrDuplicateName" by (blast dest: lex_run_fails)
  obtain k k' c' where l: "l = LStr k" and c': "lex_step c (LStr k') = Inr c'"
    by (rule lex_step_duplicate [OF lex_run_good [OF run good_start] stop])
  have "lex_run start_config (p @ [LStr k']) = Inr c'"
    using run c' by (simp add: lex_run_append)
  from run_begins [OF this] obtain v q' where "p @ LStr k' # q' = render v" "fits maxNestingDepth v" by (auto simp: begins_def)
  with other_name [OF this(1), of k] have "begins (p @ [l]) (fits maxNestingDepth)" by (auto simp: begins_def l)
  moreover have "\<not> begins (p @ [l]) (\<lambda>v. fits maxNestingDepth v \<and> unique_names v)"
  proof
    assume "begins (p @ [l]) (\<lambda>v. fits maxNestingDepth v \<and> unique_names v)"
    then obtain v q' where "p @ l # q' = render v" "check maxNestingDepth v = None" by (auto simp: begins_def check_None)
    then have "loop_at start_config (p @ l # q') = None" by (metis loop_at_render)
    with run stop show False by (simp add: loop_at_append loop_at_Cons)
  qed
  moreover have "take (length p + 1) ls = p @ [l]" by (simp add: ls)
  ultimately show ?thesis unfolding repeats_a_name_def by metis
qed

lemma repeats_duplicate:
  assumes "repeats_a_name ls"
  shows "loop_at start_config ls = Some ErrDuplicateName"
proof -
  from assms obtain n where p: "begins (take n ls) (fits maxNestingDepth)"
    "\<not> begins (take n ls) (\<lambda>v. fits maxNestingDepth v \<and> unique_names v)" by (auto simp: repeats_a_name_def)
  then obtain e where stop: "lex_run start_config (take n ls) = Inl e" using run_begins by (cases "lex_run start_config (take n ls)") auto
  from p(1) obtain v q where v: "take n ls @ q = render v" "fits maxNestingDepth v" by (auto simp: begins_def)
  with stop have "check maxNestingDepth v = Some e"
    using loop_at_render [of v] loop_at_append [of start_config "take n ls" q] by simp
  with v(2) check_fault(1) have "e = ErrDuplicateName" by blast
  with stop show ?thesis using loop_at_append [of start_config "take n ls" "drop n ls"] by simp
qed

text \<open>
  C24 (error): of any input, which of its two errors \<open>Validate\<close> reports. It is
  \<open>ErrDuplicateName\<close> exactly when the input has a beginning that some JSON value within the limit of
  nesting starts with, but none without a repeated name: a name is repeated before anything else is wrong,
  whatever follows. It is \<open>ErrInvalidJSON\<close> for everything else that is not one JSON value within the limit
  and without repeated names: empty, cut off or malformed input, more than one value, or too deep.
\<close>

theorem Validate_classifies:
  "(Validate data = Some ErrDuplicateName \<longleftrightarrow> repeats_a_name (lexemes data))
   \<and> (Validate data = Some ErrInvalidJSON \<longleftrightarrow>
        \<not> repeats_a_name (lexemes data)
        \<and> \<not> (\<exists>v. lexemes data = render v \<and> unique_names v \<and> fits maxNestingDepth v))"
proof -
  have dup: "Validate data = Some ErrDuplicateName \<longleftrightarrow> repeats_a_name (lexemes data)"
    using duplicate_repeats repeats_duplicate by (auto simp: Validate_loop_at)
  moreover have "Validate data = None \<longleftrightarrow> (\<exists>v. lexemes data = render v \<and> unique_names v \<and> fits maxNestingDepth v)"
    using Validate_accepts Validate_render check_None(1) by metis
  moreover have "Validate data = None \<or> Validate data = Some ErrDuplicateName \<or> Validate data = Some ErrInvalidJSON"
    by (cases "Validate data") (use jerror.exhaust in auto)
  ultimately show ?thesis by auto
qed

subsection \<open>Witness\<close>

text \<open>A repeated name in an object that is never closed, and a text that is malformed before any name.\<close>

definition cut_off :: string where
  "cut_off = ''{\"a\":1,\"a\":]''"

theorem Validate_classifies_witness: "repeats_a_name (lexemes cut_off) \<and> \<not> repeats_a_name (lexemes ''{]'')"
proof -
  have "Validate ''{]'' = Some ErrInvalidJSON"
    by (simp add: Validate_loop_at loop_at_def loop_unfold lexer_defs on_token_def on_value_def on_open_def maxNestingDepth_def
        tokenValueAllowed_def)
  then have "\<not> repeats_a_name (lexemes ''{]'')" using Validate_classifies [of "''{]''"] by simp
  moreover have "Validate cut_off = Some ErrDuplicateName"
    by (simp add: cut_off_def Validate_loop_at loop_at_def loop_unfold lexer_defs on_token_def on_value_def on_open_def on_key_def
        maxNestingDepth_def tokenValueAllowed_def)
  then have "repeats_a_name (lexemes cut_off)" using Validate_classifies [of cut_off] by simp
  ultimately show ?thesis by simp
qed

end
