(* ===== verification/StrictDecode.thy ===== *)
theory StrictDecode
  imports JsonGrammar "HOL-Library.Monad_Syntax"
begin

text \<open>
  \<open>Decode\<close> and \<open>DecodeReader\<close> of \<open>strictjson/strictjson.go\<close>: the argument checks, the bounded
  read through \<open>io.LimitedReader\<close> and \<open>io.ReadAll\<close>, the decision of \<open>Validate\<close>, and the
  errors, redacted by \<open>sanitizeDecodeError\<close>.

  \<open>json.Decoder.Decode\<close> into the caller's Go value works by reflection on a type of the
  application: it is the argument \<open>typed\<close> of the definitions (given whether unknown fields are
  refused and the bytes, the error if any and the new value). A reader is any state with a
  \<open>Read\<close> function; the contract \<open>byte_reader\<close> says what \<open>io.Reader\<close> promises.
\<close>

subsection \<open>Errors of encoding/json\<close>

record type_error =
  Value :: string
  GoType :: string
  Struct :: string
  Field :: string

text \<open>
  The chain of an error: \<open>fmt.Errorf\<close> with \<open>%w\<close> wraps another under a text of its own.
\<close>

datatype json_error =
    UnmarshalTypeError type_error
  | InvalidUnmarshalError string
  | OtherError string
  | WrapError string json_error

definition type_error_text :: "type_error \<Rightarrow> string" where
  "type_error_text t =
     ''json: cannot unmarshal '' @ Value t @
     (if Struct t \<noteq> [] \<or> Field t \<noteq> []
      then '' into Go struct field '' @ Struct t @ ''.'' @ Field t @ '' of type '' @ GoType t
      else '' into Go value of type '' @ GoType t)"

fun json_error_text :: "json_error \<Rightarrow> string" where
  "json_error_text (UnmarshalTypeError t) = type_error_text t"
| "json_error_text (InvalidUnmarshalError m) = m"
| "json_error_text (OtherError m) = m"
| "json_error_text (WrapError m e) = m"

text \<open>\<open>errors.As\<close> for the two error types: the first of the chain that has the type.\<close>

fun as_type_error :: "json_error \<Rightarrow> type_error option" where
  "as_type_error (UnmarshalTypeError t) = Some t"
| "as_type_error (WrapError m e) = as_type_error e"
| "as_type_error _ = None"

fun as_invalid :: "json_error \<Rightarrow> string option" where
  "as_invalid (InvalidUnmarshalError m) = Some m"
| "as_invalid (WrapError m e) = as_invalid e"
| "as_invalid _ = None"

subsection \<open>Errors of strictjson\<close>

text \<open>
  What a read can report: \<open>io.EOF\<close> itself, an error that wraps it (for which only
  \<open>errors.Is\<close> sees \<open>io.EOF\<close>), another error, or \<open>io.ErrNoProgress\<close>.
\<close>

datatype io_error = EOF | WrappedEOF | IOError nat | ErrNoProgress

definition is_EOF :: "io_error \<Rightarrow> bool" where
  "is_EOF e \<longleftrightarrow> e = EOF \<or> e = WrappedEOF"

datatype sj_error =
    ErrTooLarge
  | Structural jerror
  | ErrUnknownField
  | errNilReader
  | errNilTarget
  | MaximumNotPositive
  | OptionNil
  | ReadInput io_error
  | DecodeError json_error
  | InvalidTarget string



definition unknown_field_prefix :: string where
  "unknown_field_prefix = ''json: unknown field ''"


text \<open>\<open>strings.Cut(value, '' '')\<close>, the part before.\<close>

definition cut_value :: "string \<Rightarrow> string" where
  "cut_value s = takeWhile (\<lambda>c. c \<noteq> CHR '' '') s"

definition redact :: "type_error \<Rightarrow> type_error" where
  "redact t = t\<lparr>Struct := [], Field := [], Value := cut_value (Value t)\<rparr>"

definition has_prefix :: "string \<Rightarrow> string \<Rightarrow> bool" where
  "has_prefix s p \<longleftrightarrow> take (length p) s = p"

definition sanitizeDecodeError :: "json_error \<Rightarrow> sj_error" where
  "sanitizeDecodeError err =
     (if has_prefix (json_error_text err) unknown_field_prefix then ErrUnknownField
      else case as_type_error err of
        Some t \<Rightarrow> DecodeError (UnmarshalTypeError (redact t))
      | None \<Rightarrow>
          (case as_invalid err of
             Some m \<Rightarrow> InvalidTarget m
           | None \<Rightarrow> DecodeError err))"

text \<open>\<open>decodeError.Is\<close> for the package's own classification.\<close>

definition is_ErrDecode :: "sj_error \<Rightarrow> bool" where
  "is_ErrDecode e = (case e of DecodeError _ \<Rightarrow> True | _ \<Rightarrow> False)"

subsection \<open>Options and arguments\<close>

record decodeOptions =
  disallowUnknownFields :: bool

datatype opt_value = NilInterface | NilOptionFunc | OptionFunc "decodeOptions \<Rightarrow> decodeOptions"

definition DisallowUnknownFields :: opt_value where
  "DisallowUnknownFields = OptionFunc (\<lambda>opts. opts\<lparr>disallowUnknownFields := True\<rparr>)"

fun isNilOption :: "opt_value \<Rightarrow> bool" where
  "isNilOption NilInterface = True"
| "isNilOption NilOptionFunc = True"
| "isNilOption (OptionFunc f) = False"

fun applyOptions_from :: "decodeOptions \<Rightarrow> opt_value list \<Rightarrow> (sj_error, decodeOptions) result" where
  "applyOptions_from opts [] = Inr opts"
| "applyOptions_from opts (OptionFunc f # fs) = applyOptions_from (f opts) fs"
| "applyOptions_from opts (_ # fs) = Inl OptionNil"

definition applyOptions :: "opt_value list \<Rightarrow> (sj_error, decodeOptions) result" where
  "applyOptions fs = applyOptions_from \<lparr>disallowUnknownFields = False\<rparr> fs"

text \<open>A Go \<open>any\<close>: no value, a pointer (possibly nil) or something else.\<close>

datatype 'a any = NilAny | Pointer "'a option" | NonPointer 'a

fun isNilPointer :: "'a any \<Rightarrow> bool" where
  "isNilPointer NilAny = True"
| "isNilPointer (Pointer p) = (p = None)"
| "isNilPointer (NonPointer v) = False"

subsection \<open>Decode\<close>

text \<open>
  The first component is the error (\<open>None\<close> for \<open>nil\<close>), the second the destination afterwards.
\<close>

type_synonym 'd typed = "bool \<Rightarrow> string \<Rightarrow> 'd any \<Rightarrow> json_error option \<times> 'd any"

definition decode :: "'d typed \<Rightarrow> string \<Rightarrow> 'd any \<Rightarrow> decodeOptions \<Rightarrow> sj_error option \<times> 'd any" where
  "decode typed data dst opts =
     (case Validate data of
        Some e \<Rightarrow> (Some (Structural e), dst)
      | None \<Rightarrow>
          (case typed (disallowUnknownFields opts) data dst of
             (Some err, dst') \<Rightarrow> (Some (sanitizeDecodeError err), dst')
           | (None, dst') \<Rightarrow> (None, dst')))"

definition Decode :: "'d typed \<Rightarrow> string \<Rightarrow> 'd any \<Rightarrow> opt_value list \<Rightarrow> sj_error option \<times> 'd any" where
  "Decode typed data dst fs =
     (if isNilPointer dst then (Some errNilTarget, dst)
      else case applyOptions fs of
        Inl e \<Rightarrow> (Some e, dst)
      | Inr opts \<Rightarrow> decode typed data dst opts)"

subsection \<open>Readers\<close>

type_synonym 'r read = "'r \<Rightarrow> nat \<Rightarrow> string \<times> io_error option \<times> 'r"

text \<open>\<open>io.LimitedReader\<close>: the reader and how many bytes it may still deliver (\<open>N\<close>).\<close>

definition limited_read :: "'r read \<Rightarrow> ('r \<times> nat) read" where
  "limited_read rd = (\<lambda>(r, N) n.
     if N = 0 then ([], Some EOF, (r, N))
     else (case rd r (min n N) of (bs, e, r') \<Rightarrow> (bs, e, (r', N - length bs))))"

text \<open>
  \<open>io.ReadAll\<close>: read until an error, with \<open>Suc (spare n)\<close> bytes of free space when \<open>n\<close> bytes
  are held (how \<open>append\<close> grows the buffer does not matter). \<open>None\<close>: it never returns, which
  happens with a reader that always returns no bytes and no error.
\<close>

partial_function (option) read_all ::
  "'r read \<Rightarrow> (nat \<Rightarrow> nat) \<Rightarrow> string \<Rightarrow> 'r \<Rightarrow> ((io_error, string) result \<times> 'r) option"
where
  "read_all rd spare b r =
     (case rd r (Suc (spare (length b))) of
        (bs, e, r') \<Rightarrow>
          (case e of
             None \<Rightarrow> read_all rd spare (b @ bs) r'
           | Some x \<Rightarrow> Some (if x = EOF then Inr (b @ bs) else Inl x, r')))"

definition after_limit :: "'r read \<Rightarrow> 'r \<Rightarrow> sj_error option \<times> 'r" where
  "after_limit rd r =
     (case rd r 1 of
        (bs, e, r') \<Rightarrow>
          (if bs \<noteq> [] then (Some ErrTooLarge, r')
           else case e of
             None \<Rightarrow> (Some (ReadInput ErrNoProgress), r')
           | Some x \<Rightarrow> (if is_EOF x then None else Some (ReadInput x), r')))"

text \<open>\<open>held v\<close>: what a value that is not nil holds; \<open>rehold\<close> puts a new state in its place.\<close>

fun held :: "'a any \<Rightarrow> 'a option" where
  "held NilAny = None"
| "held (Pointer p) = p"
| "held (NonPointer v) = Some v"

fun rehold :: "'a any \<Rightarrow> 'a \<Rightarrow> 'a any" where
  "rehold (NonPointer _) x = NonPointer x"
| "rehold _ x = Pointer (Some x)"

lemma isNilPointer_held: "isNilPointer v \<longleftrightarrow> held v = None"
  by (cases v) auto

text \<open>
  \<open>DecodeReader\<close>: the error, the destination and the reader afterwards; \<open>None\<close> when the read
  never returns. The first test is \<open>isNilPointer(r)\<close>.
\<close>

definition DecodeReader ::
  "'d typed \<Rightarrow> (nat \<Rightarrow> nat) \<Rightarrow> 'r read \<Rightarrow> 'r any \<Rightarrow> int \<Rightarrow> 'd any \<Rightarrow> opt_value list
     \<Rightarrow> (sj_error option \<times> 'd any \<times> 'r any) option"
where
  "DecodeReader typed spare rd r maxBytes dst fs =
     (case held r of
        None \<Rightarrow> Some (Some errNilReader, dst, r)
      | Some r0 \<Rightarrow>
      if maxBytes \<le> 0 then Some (Some MaximumNotPositive, dst, r)
      else if isNilPointer dst then Some (Some errNilTarget, dst, r)
      else case applyOptions fs of
        Inl e \<Rightarrow> Some (Some e, dst, r)
      | Inr opts \<Rightarrow>
          (case read_all (limited_read rd) spare [] (r0, nat maxBytes) of
             None \<Rightarrow> None
           | Some (Inl x, (r1, N)) \<Rightarrow> Some (Some (ReadInput x), dst, rehold r r1)
           | Some (Inr data, (r1, N)) \<Rightarrow>
               (case (if N = 0 then after_limit rd r1 else (None, r1)) of
                  (Some e, r2) \<Rightarrow> Some (Some e, dst, rehold r r2)
                | (None, r2) \<Rightarrow>
                    (case decode typed data dst opts of (e, dst') \<Rightarrow> Some (e, dst', rehold r r2)))))"

subsection \<open>The contract of a reader\<close>

text \<open>A rule for \<open>ReadAll\<close>: what its loop keeps, and what the last read then gives.\<close>

lemma read_all_rule:
  assumes "read_all rd spare b r = Some (res, r')" and "I b r"
    and "\<And>b r n bs r1. I b r \<Longrightarrow> rd r n = (bs, None, r1) \<Longrightarrow> I (b @ bs) r1"
    and "\<And>b r n bs x r1. I b r \<Longrightarrow> rd r n = (bs, Some x, r1) \<Longrightarrow>
           Q (if x = EOF then Inr (b @ bs) else Inl x) r1"
  shows "Q res r'"
proof -
  let ?P = "\<lambda>rd' (spare' :: nat \<Rightarrow> nat) b r out. rd' = rd \<longrightarrow> I b r \<longrightarrow> Q (fst out) (snd out)"
  have "?P rd spare b r out" if "read_all rd spare b r = Some out" for out
  proof (rule read_all.raw_induct [where P = ?P, OF _ that])
    fix f rd' spare' b r out
    assume IH: "\<And>rd' spare' b r out. f rd' spare' b r = Some out \<Longrightarrow> ?P rd' spare' b r out"
      and eq: "(case rd' r (Suc (spare' (length b))) of
         (bs, e, r') \<Rightarrow> (case e of None \<Rightarrow> f rd' spare' (b @ bs) r'
           | Some x \<Rightarrow> Some (if x = EOF then Inr (b @ bs) else Inl x, r'))) = Some out"
    show "?P rd' spare' b r out"
    proof (intro impI)
      assume rd': "rd' = rd" and "I b r"
      obtain bs e r1 where step: "rd r (Suc (spare' (length b))) = (bs, e, r1)" by (metis prod_cases3)
      show "Q (fst out) (snd out)"
      proof (cases e)
        case None
        with eq step rd' have "f rd' spare' (b @ bs) r1 = Some out" by simp
        from IH [OF this] rd' assms(3) [OF \<open>I b r\<close>] step None show ?thesis by simp
      next
        case (Some x)
        with eq step rd' assms(4) [OF \<open>I b r\<close>] show ?thesis by auto
      qed
    qed
  qed
  with assms(1,2) show ?thesis by fastforce
qed

text \<open>
  The whole of what a reader has left: reads, of whatever sizes, up to the end that it reports
  itself.
\<close>

inductive delivers :: "'r read \<Rightarrow> 'r \<Rightarrow> string \<Rightarrow> bool" for rd where
  last: "rd r n = (bs, Some EOF, r') \<Longrightarrow> delivers rd r bs"
| more: "rd r n = (bs, None, r') \<Longrightarrow> delivers rd r' cs \<Longrightarrow> delivers rd r (bs @ cs)"

text \<open>A bounded \<open>ReadAll\<close> that stays below its bound has read to the end.\<close>

lemma read_all_delivers:
  assumes "read_all (limited_read rd) spare [] (r, N) = Some (Inr body, s)" and "length body < N"
  shows "delivers rd r body"
proof -
  define I where "I b s \<longleftrightarrow> N \<le> length b + snd s \<and> (\<forall>cs. delivers rd (fst s) cs \<longrightarrow> delivers rd r (b @ cs))" for b s
  define Q where "Q out \<longleftrightarrow> (\<forall>b. out = Inr b \<longrightarrow> N \<le> length b \<or> delivers rd r b)" for out :: "(io_error, string) result"
  have "Q (Inr body)"
  proof (rule read_all_rule [OF assms(1), of I "\<lambda>out _. Q out"])
    show "I [] (r, N)" by (simp add: I_def)
  next
    fix b s n bs s'
    assume "I b s" "limited_read rd s n = (bs, None, s')"
    then show "I (b @ bs) s'"
      by (cases s) (auto simp: I_def limited_read_def split: if_splits prod.splits dest: delivers.more)
  next
    fix b s n bs x s'
    assume "I b s" "limited_read rd s n = (bs, Some x, s')"
    then show "Q (if x = EOF then Inr (b @ bs) else Inl x)"
      by (cases s) (auto simp: I_def Q_def limited_read_def split: if_splits prod.splits intro: delivers.last)
  qed
  with assms(2) show ?thesis by (simp add: Q_def)
qed

text \<open>
  \<open>io.Reader\<close>: a read delivers the next bytes of the stream (\<open>pending\<close>) and no more than it
  was given room for. Whatever errors it reports, and however it cuts the stream.
\<close>

locale byte_reader =
  fixes rd :: "'r read"
    and pending :: "'r \<Rightarrow> string"
  assumes read_pending: "rd r n = (bs, e, r') \<Longrightarrow> pending r = bs @ pending r'"
    and read_room: "rd r n = (bs, e, r') \<Longrightarrow> length bs \<le> n"
begin

lemma limited_read_budget:
  assumes "limited_read rd (r, N) n = (bs, e, (r', N'))"
  shows "pending r = bs @ pending r'" and "length bs + N' = N"
proof -
  show "pending r = bs @ pending r'"
    using assms by (auto simp: limited_read_def read_pending split: if_splits prod.splits)
  show "length bs + N' = N"
    using assms by (fastforce simp: limited_read_def dest: read_room split: if_splits prod.splits)
qed

text \<open>A bounded \<open>ReadAll\<close> takes from the stream what its budget lost, and returns that.\<close>

lemma read_all_budget:
  assumes "read_all (limited_read rd) spare [] (r, N) = Some (res, (r', N'))"
  shows "\<exists>bs. pending r = bs @ pending r' \<and> length bs + N' = N \<and> (\<forall>data. res = Inr data \<longrightarrow> data = bs)"
proof -
  define I where "I b s \<longleftrightarrow> pending r = b @ pending (fst s) \<and> length b + snd s = N" for b s
  define Q where "Q out s \<longleftrightarrow> (\<exists>bs. pending r = bs @ pending (fst s) \<and> length bs + snd s = N
                      \<and> (\<forall>data. out = Inr data \<longrightarrow> data = bs))" for out :: "(io_error, string) result" and s
  have step: "I (b @ bs) s'" if "I b s" and "limited_read rd s n = (bs, e, s')" for b s n bs e s'
    using that limited_read_budget [of "fst s" "snd s" n bs e "fst s'" "snd s'"]
    by (auto simp: I_def)
  have "Q res (r', N')"
  proof (rule read_all_rule [OF assms, of I])
    show "I [] (r, N)" by (simp add: I_def)
  next
    fix b s n bs s'
    show "I b s \<Longrightarrow> limited_read rd s n = (bs, None, s') \<Longrightarrow> I (b @ bs) s'" by (rule step)
  next
    fix b s n bs x s'
    assume "I b s" and "limited_read rd s n = (bs, Some x, s')"
    then have "I (b @ bs) s'" by (rule step)
    then show "Q (if x = EOF then Inr (b @ bs) else Inl x) s'"
      unfolding I_def Q_def by (intro exI [of _ "b @ bs"]) auto
  qed
  then show ?thesis by (simp add: Q_def)
qed

lemma after_limit_budget:
  assumes "after_limit rd r = (e, r')"
  shows "\<exists>bs. pending r = bs @ pending r' \<and> length bs \<le> 1"
proof -
  obtain bs x r1 where step: "rd r 1 = (bs, x, r1)" by (metis prod_cases3)
  with assms have "r' = r1" by (auto simp: after_limit_def split: if_splits option.splits)
  with read_pending [OF step] read_room [OF step] show ?thesis by blast
qed

text \<open>\<open>DecodeReader\<close> takes at most one byte more than its limit from the reader.\<close>

lemma DecodeReader_budget:
  assumes "DecodeReader typed spare rd (NonPointer r) maxBytes dst fs = Some (e, d, r')"
  shows "\<exists>r1 bs. r' = NonPointer r1 \<and> pending r = bs @ pending r1 \<and> length bs \<le> nat maxBytes + 1"
proof (cases "maxBytes \<le> 0 \<or> isNilPointer dst \<or> (\<exists>e. applyOptions fs = Inl e)")
  case True
  with assms show ?thesis by (auto simp: DecodeReader_def split: if_splits)
next
  case False
  then obtain opts where opts: "applyOptions fs = Inr opts" by (cases "applyOptions fs") auto
  from assms False opts obtain res r1 N where all:
    "read_all (limited_read rd) spare [] (r, nat maxBytes) = Some (res, (r1, N))"
    by (auto simp: DecodeReader_def split: option.splits)
  obtain bs where bs: "pending r = bs @ pending r1" "length bs + N = nat maxBytes"
    using read_all_budget [OF all] by auto
  obtain e2 r2 where after: "after_limit rd r1 = (e2, r2)" by (metis prod.collapse)
  then obtain cs where cs: "pending r1 = cs @ pending r2" "length cs \<le> 1"
    using after_limit_budget by blast
  from assms False opts all after have "r' = NonPointer r1 \<or> r' = NonPointer r2"
    by (auto simp: DecodeReader_def split: sum.splits if_splits option.splits prod.splits)
  then show ?thesis
  proof
    assume "r' = NonPointer r1"
    with bs show ?thesis by (intro exI [of _ r1] exI [of _ bs]) auto
  next
    assume "r' = NonPointer r2"
    with bs cs show ?thesis by (intro exI [of _ r2] exI [of _ "bs @ cs"]) auto
  qed
qed

end

text \<open>
  A reader with a bound on how often it can return no error: each such read of at least one
  byte makes it smaller. Then \<open>ReadAll\<close> returns, with a limit or without.
\<close>

locale progressing_reader =
  fixes rd :: "'r read"
    and left :: "'r \<Rightarrow> nat"
  assumes progress: "rd r (Suc n) = (bs, None, r') \<Longrightarrow> left r' < left r"
begin

lemma read_all_returns: "\<exists>out. read_all rd spare b r = Some out"
proof (induction "left r" arbitrary: b r rule: less_induct)
  case less
  obtain bs e r1 where step: "rd r (Suc (spare (length b))) = (bs, e, r1)" by (metis prod_cases3)
  show ?case
  proof (cases e)
    case None
    with step have "left r1 < left r" by (auto dest: progress)
    from less [OF this, of "b @ bs"] step None show ?thesis by (simp add: read_all.simps [of _ _ _ r])
  next
    case (Some x)
    with step show ?thesis by (simp add: read_all.simps [of _ _ _ r])
  qed
qed

text \<open>A limit on such a reader is such a reader again.\<close>

lemma limited_progress: "progressing_reader (limited_read rd) (left \<circ> fst)"
proof
  fix s n bs s'
  assume *: "limited_read rd s (Suc n) = (bs, None, s')"
  obtain r N where s: "s = (r, N)" by (cases s)
  with * obtain N' where "N = Suc N'" by (cases N) (auto simp: limited_read_def)
  with * s show "(left \<circ> fst) s' < (left \<circ> fst) s"
    by (auto simp: limited_read_def dest: progress split: prod.splits)
qed

lemma DecodeReader_returns: "DecodeReader typed spare rd r maxBytes dst fs \<noteq> None"
proof -
  have "read_all (limited_read rd) spare [] s \<noteq> None" for s
    using progressing_reader.read_all_returns [OF limited_progress, of spare "[]" s] by auto
  then show ?thesis
    by (auto simp: DecodeReader_def simp del: not_None_eq split: option.splits sum.splits prod.splits)
qed

end

text \<open>
  A reader that reports nothing but the end of its stream, at the end, and does not return
  without data before it.
\<close>

locale honest_reader = byte_reader +
  assumes eof_end: "rd r n = (bs, Some x, r') \<Longrightarrow> x = EOF \<and> pending r' = []"
    and no_stall: "rd r (Suc n) = (bs, None, r') \<Longrightarrow> bs \<noteq> []"
begin

text \<open>A bounded \<open>ReadAll\<close> returns the stream up to the bound.\<close>

lemma read_all_limited:
  "\<exists>r'. read_all (limited_read rd) spare b (r, N)
          = Some (Inr (b @ take N (pending r)), (r', N - length (pending r)))
        \<and> pending r' = drop N (pending r)"
proof (induction N arbitrary: b r rule: less_induct)
  case (less N)
  show ?case
  proof (cases N)
    case 0
    then show ?thesis by (simp add: read_all.simps [of _ _ _ "(r, _)"] limited_read_def)
  next
    case (Suc m)
    let ?n = "min (Suc (spare (length b))) N"
    obtain bs e r1 where step: "rd r ?n = (bs, e, r1)" by (metis prod_cases3)
    from read_pending [OF step] read_room [OF step] have p: "pending r = bs @ pending r1" "length bs \<le> N" by auto
    note unfold = read_all.simps [of _ _ _ "(r, _)"] limited_read_def
    show ?thesis
    proof (cases e)
      case None
      with step Suc no_stall [of r "min (spare (length b)) m" bs r1] have "bs \<noteq> []" by simp
      with Suc have "N - length bs < N" by (cases bs) auto
      from less [OF this, of "b @ bs" r1] step None Suc p show ?thesis
        by (auto simp: unfold diff_diff_left)
    next
      case (Some x)
      with eof_end [of r ?n bs x r1] step have "x = EOF" "pending r1 = []" by auto
      with step Some Suc p show ?thesis by (auto simp: unfold)
    qed
  qed
qed

lemma after_limit_honest:
  "\<exists>r'. after_limit rd r = (if pending r = [] then None else Some ErrTooLarge, r')"
proof -
  obtain bs e r1 where step: "rd r (Suc 0) = (bs, e, r1)" by (metis prod_cases3)
  note p = read_pending [OF step]
  show ?thesis
  proof (cases e)
    case None
    with step no_stall [of r 0 bs r1] p show ?thesis by (auto simp: after_limit_def)
  next
    case (Some x)
    with step eof_end [of r "Suc 0" bs x r1] p show ?thesis by (auto simp: after_limit_def is_EOF_def)
  qed
qed

text \<open>The outcome of \<open>DecodeReader\<close> once its arguments passed the checks.\<close>

lemma DecodeReader_outcome:
  assumes "held r = Some r0" and "0 < maxBytes" and "\<not> isNilPointer dst" and "applyOptions fs = Inr opts"
  shows "map_option (\<lambda>(e, d, _). (e, d)) (DecodeReader typed spare rd r maxBytes dst fs) =
     Some (if int (length (pending r0)) \<le> maxBytes then decode typed (pending r0) dst opts
           else (Some ErrTooLarge, dst))"
proof -
  obtain r1 where all: "read_all (limited_read rd) spare [] (r0, nat maxBytes) =
      Some (Inr (take (nat maxBytes) (pending r0)), (r1, nat maxBytes - length (pending r0)))"
    and r1: "pending r1 = drop (nat maxBytes) (pending r0)"
    using read_all_limited [of spare "[]" r0 "nat maxBytes"] by auto
  obtain r2 where "after_limit rd r1 = (if pending r1 = [] then None else Some ErrTooLarge, r2)"
    using after_limit_honest by blast
  with all r1 assms show ?thesis
    by (auto simp: DecodeReader_def split: prod.splits)
qed

end

subsection \<open>Two readers\<close>

text \<open>
  A script of reads: each element is what one read of enough room returns, bytes and an error
  or none; less room takes the bytes in part. After the script the reader is at its end. Any
  finite behaviour of a reader, well behaved or not, is a script.
\<close>

fun script_read :: "(string \<times> io_error option) list read" where
  "script_read [] n = ([], Some EOF, [])"
| "script_read ((bs, e) # rest) n =
     (if length bs \<le> n then (bs, e, rest) else (take n bs, None, (drop n bs, e) # rest))"

definition script_bytes :: "(string \<times> io_error option) list \<Rightarrow> string" where
  "script_bytes s = concat (map fst s)"

interpretation script: byte_reader script_read script_bytes
proof
  fix r n bs e r'
  assume *: "script_read r n = (bs, e, r')"
  then show "script_bytes r = bs @ script_bytes r'"
    by (cases "(r, n)" rule: script_read.cases) (auto simp: script_bytes_def split: if_splits)
  from * show "length bs \<le> n"
    by (cases "(r, n)" rule: script_read.cases) (auto split: if_splits)
qed

interpretation script: progressing_reader script_read "\<lambda>s. sum_list (map (Suc \<circ> length \<circ> fst) s)"
proof
  fix r n bs r'
  assume "script_read r (Suc n) = (bs, None, r')"
  then show "sum_list (map (Suc \<circ> length \<circ> fst) r') < sum_list (map (Suc \<circ> length \<circ> fst) r)"
    by (cases "(r, Suc n)" rule: script_read.cases) (auto split: if_splits)
qed

text \<open>
  Bytes in memory or a stream that only ends: the data, how the reads cut it (the size of
  each; \<open>bytes.Reader\<close> never cuts), and whether the end is reported with the last bytes.
\<close>

type_synonym stream = "string \<times> nat list \<times> bool"

fun stream_read :: "stream read" where
  "stream_read (data, cuts, eager) n =
     (if data = [] then ([], Some EOF, (data, cuts, eager))
      else let k = (case cuts of [] \<Rightarrow> n | c # _ \<Rightarrow> min n (Suc c));
               rest = drop k data
           in (take k data, if rest = [] \<and> eager then Some EOF else None, (rest, tl cuts, eager)))"

interpretation stream: honest_reader stream_read fst
proof
  fix r :: stream and n bs e r'
  assume *: "stream_read r n = (bs, e, r')"
  then show "fst r = bs @ fst r'"
    by (cases r) (auto simp: Let_def split: if_splits)
  from * show "length bs \<le> n"
    by (cases r) (auto simp: Let_def split: if_splits list.splits)
next
  fix r :: stream and n bs x r'
  assume "stream_read r n = (bs, Some x, r')"
  then show "x = EOF \<and> fst r' = []"
    by (cases r) (auto simp: Let_def split: if_splits)
next
  fix r :: stream and n bs r'
  assume "stream_read r (Suc n) = (bs, None, r')"
  then show "bs \<noteq> []"
    by (cases r) (auto simp: Let_def split: if_splits list.splits)
qed

subsection \<open>The contract\<close>

lemma rehold_inject [simp]: "rehold r x = rehold r y \<longleftrightarrow> x = y"
  by (cases r) auto

text \<open>
  C2 (functional): on any stream of bytes, however its reads cut it and whether or not its
  end comes with the last bytes, \<open>DecodeReader\<close> with a positive limit returns; input longer
  than the limit is \<open>ErrTooLarge\<close> with the destination untouched, and on the rest it does what
  \<open>Decode\<close> does on the whole input. Bad arguments are reported before anything is read.
\<close>

theorem DecodeReader_is_bounded_Decode:
  assumes "0 < maxBytes"
  shows "map_option (\<lambda>(e, d, _). (e, d))
           (DecodeReader typed spare stream_read (Pointer (Some (data, cuts, eager))) maxBytes dst fs)
       = Some (if isNilPointer dst \<or> (\<exists>e. applyOptions fs = Inl e) \<or> int (length data) \<le> maxBytes
               then Decode typed data dst fs else (Some ErrTooLarge, dst))"
proof (cases "isNilPointer dst \<or> (\<exists>e. applyOptions fs = Inl e)")
  case True
  with assms show ?thesis by (auto simp: DecodeReader_def Decode_def)
next
  case False
  then obtain opts where "applyOptions fs = Inr opts" by (cases "applyOptions fs") auto
  with False assms
    stream.DecodeReader_outcome [of "Pointer (Some (data, cuts, eager))" _ maxBytes dst fs opts typed spare]
  show ?thesis by (simp add: Decode_def del: map_option_eq_Some)
qed

text \<open>
  C25 (bounds): whatever a reader does, with any errors, short reads and reads without data,
  as long as it is finite, \<open>DecodeReader\<close> returns, and it has taken at most \<open>maxBytes + 1\<close>
  bytes from the reader (none when the limit is not positive).
\<close>

theorem DecodeReader_reads_at_most:
  "\<exists>e d s' bs. DecodeReader typed spare script_read (NonPointer s) maxBytes dst fs = Some (e, d, NonPointer s')
     \<and> script_bytes s = bs @ script_bytes s' \<and> int (length bs) \<le> max 0 maxBytes + 1"
proof -
  obtain e d r' where out: "DecodeReader typed spare script_read (NonPointer s) maxBytes dst fs = Some (e, d, r')"
    using script.DecodeReader_returns [of typed spare "NonPointer s" maxBytes dst fs] by auto
  from script.DecodeReader_budget [OF this] obtain s' bs
    where "r' = NonPointer s'" "script_bytes s = bs @ script_bytes s'" "length bs \<le> nat maxBytes + 1" by blast
  with out show ?thesis by (intro exI [of _ e] exI [of _ d] exI [of _ s'] exI [of _ bs]) auto
qed

text \<open>
  The destination only sees valid input. If \<open>Decode\<close> reports no error, the input
  is one JSON value without repeated names, within the nesting limit; if the input is not,
  the destination is untouched and the error is one of the two structural ones (or a complaint
  about the arguments).
\<close>

lemma Decode_only_valid:
  "(fst (Decode typed data dst fs) = None \<longrightarrow>
      (\<exists>v. lexemes data = render v \<and> unique_names v \<and> fits maxNestingDepth v))
   \<and> (Validate data \<noteq> None \<longrightarrow> snd (Decode typed data dst fs) = dst
        \<and> fst (Decode typed data dst fs) \<in>
            {Some (Structural ErrDuplicateName), Some (Structural ErrInvalidJSON), Some errNilTarget, Some OptionNil})"
proof -
  have "applyOptions_from opts fs = Inl e \<Longrightarrow> e = OptionNil" for opts e
    by (induction opts fs rule: applyOptions_from.induct) auto
  then have opts: "applyOptions fs = Inl e \<Longrightarrow> e = OptionNil" for e
    by (simp add: applyOptions_def)
  show ?thesis
    using Validate_accepts [of data] check_None(1) opts
    by (auto simp: Decode_def decode_def split: option.splits sum.splits prod.splits if_splits)
       (metis jerror.exhaust)+
qed









subsection \<open>Witnesses\<close>

text \<open>A destination that takes any value and records how long its text was.\<close>

definition typed_length :: "nat typed" where
  "typed_length strict data dst = (None, NonPointer (length data))"

theorem DecodeReader_is_bounded_Decode_witness:
  "map_option (\<lambda>(e, d, _). (e, d))
     (DecodeReader typed_length (\<lambda>_. 511) stream_read (Pointer (Some (''[1,2]'', [0, 1], True))) 3 (NonPointer 0)
        [DisallowUnknownFields])
   = Some (Some ErrTooLarge, NonPointer 0)"
  by (subst DecodeReader_is_bounded_Decode) (simp_all add: applyOptions_def DisallowUnknownFields_def)

lemma Validate_twice_a: "Validate twice_a = Some ErrDuplicateName"
  using Validate_render [OF lexemes_twice_a] by (simp add: twice_a_value_def maxNestingDepth_def)



end
