(* ===== verification/Admission.thy ===== *)
theory Admission
  imports Prelude
begin

text \<open>
  \<open>localgateway/admission.go\<close>: the listener that bounds the connections it hands out. Any
  number of goroutines call \<open>Accept\<close>; each of them, every \<open>Close\<close> of a connection and the
  \<open>Close\<close> of the listener are cut at the mutex: one rule of the step relation is one critical
  section, or one action between two of them. \<open>sync.Cond\<close> has no spurious wake-ups: \<open>Wait\<close> puts
  a goroutine to sleep, \<open>Signal\<close> wakes one sleeper if there is one, \<open>Broadcast\<close> wakes all. A
  woken goroutine takes the mutex again and repeats the loop's test. The hook \<open>onWait\<close> is for
  tests and left out.
\<close>

subsection \<open>State\<close>

text \<open>
  Where a goroutine is in \<open>Accept\<close>: outside; asleep in \<open>cond.Wait\<close>; woken, about to repeat the
  test; past the first critical section, in the inner \<open>Accept\<close>; with an error from it, about to
  \<open>release\<close>; with a connection from it, before the second critical section; after that section
  saw \<open>closed\<close>, about to close the connection.
\<close>

datatype accept_pc = Idle | Asleep | Woken | Admitted | Failed | Accepted | Rejecting

text \<open>An \<open>admittedConn\<close>: open; closed below, \<open>once.Do\<close> still to come; released.\<close>

datatype conn_state = Open | Closing | Released

record admission =
  max_conns :: int
  active :: int
  closed :: bool
  pcs :: "accept_pc list"
  conns :: "conn_state list"

text \<open>\<open>newAdmissionListener\<close>, with \<open>n\<close> goroutines that may call \<open>Accept\<close>.\<close>

definition newAdmissionListener :: "int \<Rightarrow> nat \<Rightarrow> admission" where
  "newAdmissionListener m n =
     \<lparr>max_conns = m, active = 0, closed = False, pcs = replicate n Idle, conns = []\<rparr>"

subsection \<open>Operations\<close>

definition set_pc :: "nat \<Rightarrow> accept_pc \<Rightarrow> admission \<Rightarrow> admission" where
  "set_pc i p s = s\<lparr>pcs := (pcs s)[i := p]\<rparr>"

definition set_conn :: "nat \<Rightarrow> conn_state \<Rightarrow> admission \<Rightarrow> admission" where
  "set_conn c k s = s\<lparr>conns := (conns s)[c := k]\<rparr>"

text \<open>\<open>Signal\<close> wakes some sleeper \<open>w\<close>, or finds none.\<close>

definition may_signal :: "admission \<Rightarrow> nat option \<Rightarrow> bool" where
  "may_signal s w =
     (case w of None \<Rightarrow> Asleep \<notin> set (pcs s) | Some j \<Rightarrow> j < length (pcs s) \<and> pcs s ! j = Asleep)"

definition signal :: "nat option \<Rightarrow> admission \<Rightarrow> admission" where
  "signal w s = (case w of None \<Rightarrow> s | Some j \<Rightarrow> set_pc j Woken s)"

definition broadcast :: "admission \<Rightarrow> admission" where
  "broadcast s = s\<lparr>pcs := map (\<lambda>p. if p = Asleep then Woken else p) (pcs s)\<rparr>"

text \<open>The first critical section of \<open>Accept\<close>, entered or re-entered after a wake-up.\<close>

definition Accept_enter :: "nat \<Rightarrow> admission \<Rightarrow> admission" where
  "Accept_enter i s =
     (if active s \<ge> max_conns s \<and> \<not> closed s then set_pc i Asleep s
      else if closed s then set_pc i Idle s
      else set_pc i Admitted (s\<lparr>active := active s + 1\<rparr>))"

text \<open>\<open>release\<close>: one slot less, and one sleeper woken.\<close>

definition release_slot :: "nat option \<Rightarrow> admission \<Rightarrow> admission" where
  "release_slot w s = signal w (s\<lparr>active := active s - 1\<rparr>)"

text \<open>The second critical section: the connection is handed out unless the listener closed.\<close>

definition Accept_commit :: "nat \<Rightarrow> nat option \<Rightarrow> admission \<Rightarrow> admission" where
  "Accept_commit i w s =
     (if closed s then set_pc i Rejecting (release_slot w s)
      else set_pc i Idle (s\<lparr>conns := conns s @ [Open]\<rparr>))"

text \<open>\<open>admissionListener.Close\<close>, up to the inner listener's own \<open>Close\<close>.\<close>

definition Close :: "admission \<Rightarrow> admission" where
  "Close s = (if closed s then s else broadcast (s\<lparr>closed := True\<rparr>))"

text \<open>\<open>once.Do(c.release)\<close> of \<open>admittedConn.Close\<close>: nothing the second time.\<close>

definition Conn_release_once :: "nat \<Rightarrow> nat option \<Rightarrow> admission \<Rightarrow> admission" where
  "Conn_release_once c w s =
     (if conns s ! c = Released then s else set_conn c Released (release_slot w s))"

definition Conn_close_inner :: "nat \<Rightarrow> admission \<Rightarrow> admission" where
  "Conn_close_inner c s = (if conns s ! c = Open then set_conn c Closing s else s)"

lemmas admission_ops [step_defs] = set_pc_def set_conn_def signal_def broadcast_def
  Accept_enter_def release_slot_def Accept_commit_def Close_def Conn_release_once_def Conn_close_inner_def

subsection \<open>Steps\<close>

text \<open>
  The inner \<open>Accept\<close> ends with a connection or an error, as the environment decides. A
  connection is closed by any goroutine, any number of times; the second half of a \<open>Close\<close>
  comes after the first.
\<close>

inductive admission_step :: "admission \<Rightarrow> admission \<Rightarrow> bool" where
  accept: "i < length (pcs s) \<Longrightarrow> pcs s ! i \<in> {Idle, Woken} \<Longrightarrow> admission_step s (Accept_enter i s)"
| inner_ok: "i < length (pcs s) \<Longrightarrow> pcs s ! i = Admitted \<Longrightarrow> admission_step s (set_pc i Accepted s)"
| inner_error: "i < length (pcs s) \<Longrightarrow> pcs s ! i = Admitted \<Longrightarrow> admission_step s (set_pc i Failed s)"
| after_error: "i < length (pcs s) \<Longrightarrow> pcs s ! i = Failed \<Longrightarrow> may_signal s w \<Longrightarrow>
     admission_step s (set_pc i Idle (release_slot w s))"
| commit: "i < length (pcs s) \<Longrightarrow> pcs s ! i = Accepted \<Longrightarrow> may_signal s w \<Longrightarrow>
     admission_step s (Accept_commit i w s)"
| reject: "i < length (pcs s) \<Longrightarrow> pcs s ! i = Rejecting \<Longrightarrow> admission_step s (set_pc i Idle s)"
| close_listener: "admission_step s (Close s)"
| close_inner: "c < length (conns s) \<Longrightarrow> admission_step s (Conn_close_inner c s)"
| release_once: "c < length (conns s) \<Longrightarrow> conns s ! c \<noteq> Open \<Longrightarrow> may_signal s w \<Longrightarrow>
     admission_step s (Conn_release_once c w s)"

inductive_cases admission_stepE: "admission_step s t"

subsection \<open>Invariant\<close>

text \<open>
  A slot is held by a goroutine past the test and not yet back, or by a connection that is
  not released. A sleeper is only there while the listener is open and every slot is taken or
  promised to a woken goroutine: no wake-up is lost.
\<close>

definition holds_slot :: "accept_pc \<Rightarrow> bool" where
  "holds_slot p \<longleftrightarrow> p \<in> {Admitted, Failed, Accepted}"

abbreviation unreleased :: "conn_state \<Rightarrow> bool" where
  "unreleased k \<equiv> k \<noteq> Released"

abbreviation at_pc :: "accept_pc \<Rightarrow> admission \<Rightarrow> int" where
  "at_pc p s \<equiv> tally (\<lambda>q. q = p) (pcs s)"

definition admission_inv :: "admission \<Rightarrow> bool" where
  "admission_inv s \<longleftrightarrow>
     active s = tally holds_slot (pcs s) + tally unreleased (conns s)
     \<and> active s + at_pc Rejecting s \<le> max_conns s
     \<and> (\<not> closed s \<longrightarrow> at_pc Rejecting s = 0)
     \<and> (0 < at_pc Asleep s \<longrightarrow> \<not> closed s \<and> max_conns s \<le> active s + at_pc Woken s)"

lemma admission_inv_init: "0 \<le> m \<Longrightarrow> admission_inv (newAdmissionListener m n)"
  by (auto simp: admission_inv_def newAdmissionListener_def holds_slot_def tally_def)

lemma may_signal_None: "may_signal s None \<longleftrightarrow> at_pc Asleep s = 0"
  by (auto simp: may_signal_def tally_zero)

lemma may_signal_Some: "may_signal s (Some j) \<longleftrightarrow> j < length (pcs s) \<and> pcs s ! j = Asleep"
  by (simp add: may_signal_def)

lemma tally_broadcast:
  "tally P (map (\<lambda>p. if p = Asleep then Woken else p) ps) =
     tally P ps + (of_bool (P Woken) - of_bool (P Asleep)) * tally (\<lambda>p. p = Asleep) ps"
  by (induction ps) (auto simp: algebra_simps)

lemma admission_step_inv: "admission_step s t \<Longrightarrow> admission_inv s \<Longrightarrow> admission_inv t"
proof (induction rule: admission_step.induct)
  case (accept i s)
  then have "pcs s ! i = Woken \<longrightarrow> 0 < at_pc Woken s" by (blast intro: tally_positive)
  with accept show ?case by (auto simp: admission_inv_def admission_ops holds_slot_def)
next
  case (after_error i s w)
  then show ?case
    by (cases w) (auto simp: admission_inv_def admission_ops holds_slot_def nth_list_update may_signal_None may_signal_Some)
next
  case (commit i s w)
  then show ?case
    by (cases w) (auto simp: admission_inv_def admission_ops holds_slot_def nth_list_update may_signal_None may_signal_Some)
next
  case (release_once c s w)
  then show ?case
    by (cases w) (auto simp: admission_inv_def admission_ops holds_slot_def may_signal_None may_signal_Some)
next
  case (reject i s)
  then have "0 < at_pc Rejecting s" by (blast intro: tally_positive)
  with reject show ?case by (auto simp: admission_inv_def admission_ops holds_slot_def)
next
  case (close_listener s)
  then show ?case
    by (auto simp: admission_inv_def admission_ops holds_slot_def tally_broadcast)
qed (auto simp: admission_inv_def admission_ops holds_slot_def)

interpretation admission: concurrent_machine admission_step admission_inv
  by unfold_locales (rule admission_step_inv)

lemma admission_step_max: "admission_step s t \<Longrightarrow> max_conns t = max_conns s"
  by (induction rule: admission_step.induct) (auto simp: admission_ops split: option.splits)

lemma admission_steps_max: "admission_step\<^sup>*\<^sup>* s t \<Longrightarrow> max_conns t = max_conns s"
  by (induction rule: rtranclp_induct) (auto dest: admission_step_max)

lemma reachable_inv:
  "admission_step\<^sup>*\<^sup>* (newAdmissionListener m n) s \<Longrightarrow> 0 \<le> m \<Longrightarrow> admission_inv s \<and> max_conns s = m"
  using admission.steps_inv [OF _ admission_inv_init] admission_steps_max
  by (fastforce simp: newAdmissionListener_def)

text \<open>A closed listener stays closed and hands out nothing more.\<close>

definition shut :: "nat \<Rightarrow> admission \<Rightarrow> bool" where
  "shut k s \<longleftrightarrow> closed s \<and> length (conns s) = k"

lemma shut_step: "admission_step s t \<Longrightarrow> shut k s \<Longrightarrow> shut k t"
  by (induction rule: admission_step.induct) (auto simp: shut_def admission_ops split: option.splits)

interpretation shut: concurrent_machine admission_step "shut k" for k
  by unfold_locales (rule shut_step)

subsection \<open>The contract\<close>

lemma admission_bounds:
  assumes "admission_step\<^sup>*\<^sup>* (newAdmissionListener m n) s" and "0 \<le> m"
  shows "active s = tally holds_slot (pcs s) + tally unreleased (conns s) \<and> 0 \<le> active s
       \<and> tally unreleased (conns s) + at_pc Accepted s + at_pc Rejecting s \<le> m"
proof -
  from reachable_inv [OF assms] have inv: "admission_inv s" and m: "max_conns s = m" by auto
  have "at_pc Accepted s \<le> tally holds_slot (pcs s)"
    by (rule tally_mono) (simp add: holds_slot_def)
  with inv m show ?thesis by (simp add: admission_inv_def)
qed

text \<open>
  C3 (invariant): in every reachable state of the listener, with any number of goroutines and
  any interleaving of accepts, errors, closes of connections (repeated or not) and the close of
  the listener, \<open>active\<close> is never negative and counts exactly the slots taken; the connections
  handed out and not yet closed, those accepted and not yet handed out, and those about to be
  refused are together at most \<open>max\<close>.
\<close>

theorem connections_bounded:
  assumes "admission_step\<^sup>*\<^sup>* (newAdmissionListener m n) s" and "0 \<le> m"
  shows "active s = tally holds_slot (pcs s) + tally unreleased (conns s) \<and> 0 \<le> active s
       \<and> tally unreleased (conns s) + at_pc Accepted s + at_pc Rejecting s \<le> m"
  by (rule admission_bounds [OF assms])

text \<open>
  C27 (liveness): no wake-up is lost. In every reachable state where a goroutine sleeps in
  \<open>Accept\<close>, the listener is open; and if fewer than \<open>max\<close> slots are taken, some goroutine has
  been woken and its next step admits it.
\<close>

theorem no_lost_wakeup:
  assumes "admission_step\<^sup>*\<^sup>* (newAdmissionListener m n) s" and "0 \<le> m"
    and "Asleep \<in> set (pcs s)"
  shows "\<not> closed s \<and> (active s < m \<longrightarrow>
           (\<exists>j < length (pcs s). pcs s ! j = Woken \<and> admission_step s (Accept_enter j s)
              \<and> pcs (Accept_enter j s) ! j = Admitted))"
proof -
  from reachable_inv [OF assms(1,2)] have inv: "admission_inv s" and m: "max_conns s = m" by auto
  from assms(3) have "0 < at_pc Asleep s" by (auto simp: in_set_conv_nth intro: tally_positive)
  with inv m have open_: "\<not> closed s" and w: "active s < m \<longrightarrow> 0 < at_pc Woken s"
    by (auto simp: admission_inv_def)
  have "\<exists>j < length (pcs s). pcs s ! j = Woken \<and> admission_step s (Accept_enter j s)
          \<and> pcs (Accept_enter j s) ! j = Admitted" if "active s < m"
  proof -
    from w that have "at_pc Woken s \<noteq> 0" by simp
    then obtain j where j: "j < length (pcs s)" "pcs s ! j = Woken"
      by (auto simp: tally_zero in_set_conv_nth)
    with that open_ m show ?thesis
      by (intro exI [of _ j] conjI admission_step.accept) (auto simp: Accept_enter_def set_pc_def)
  qed
  with open_ show ?thesis by blast
qed

text \<open>
  Closing the listener wakes every sleeper, and from then on, in any run, no
  connection is handed out.
\<close>

lemma Close_shuts:
  assumes "admission_step\<^sup>*\<^sup>* (newAdmissionListener m n) s" and "0 \<le> m"
    and "admission_step\<^sup>*\<^sup>* (Close s) t"
  shows "closed t \<and> Asleep \<notin> set (pcs t) \<and> length (conns t) = length (conns s)"
proof -
  from assms(1) have reach: "admission_step\<^sup>*\<^sup>* (newAdmissionListener m n) t"
    using assms(3) close_listener [of s] by (meson converse_rtranclp_into_rtranclp rtranclp_trans)
  have "shut (length (conns s)) (Close s)" by (simp add: shut_def Close_def broadcast_def)
  with assms(3) have t: "closed t" "length (conns t) = length (conns s)"
    using shut.steps_inv by (force simp: shut_def)+
  moreover have "Asleep \<notin> set (pcs t)"
    using reachable_inv [OF reach assms(2)] t(1) tally_positive [of _ "pcs t" "\<lambda>p. p = Asleep"]
    by (fastforce simp: admission_inv_def in_set_conv_nth)
  ultimately show ?thesis by simp
qed

subsection \<open>Witnesses\<close>

text \<open>
  One slot, three goroutines: the first is handed a connection, the other two fall asleep, and
  the connection is closed, which wakes the second.
\<close>

definition one_open :: admission where
  "one_open = \<lparr>max_conns = 1, active = 1, closed = False, pcs = [Idle, Asleep, Asleep], conns = [Open]\<rparr>"

definition one_woken :: admission where
  "one_woken = \<lparr>max_conns = 1, active = 0, closed = False, pcs = [Idle, Woken, Asleep], conns = [Released]\<rparr>"

lemma reach_one_open: "admission_step\<^sup>*\<^sup>* (newAdmissionListener 1 3) one_open"
proof -
  let ?s0 = "newAdmissionListener 1 3"
  let ?s1 = "Accept_enter 0 ?s0"
  let ?s2 = "set_pc 0 Accepted ?s1"
  let ?s3 = "Accept_commit 0 None ?s2"
  let ?s4 = "Accept_enter 1 ?s3"
  note eval = newAdmissionListener_def admission_ops numeral_3_eq_3
  have "admission_step ?s0 ?s1" by (rule admission_step.accept) (simp_all add: eval)
  moreover have "admission_step ?s1 ?s2" by (rule admission_step.inner_ok) (simp_all add: eval)
  moreover have "admission_step ?s2 ?s3"
    by (rule admission_step.commit) (simp_all add: eval may_signal_def)
  moreover have "admission_step ?s3 ?s4" by (rule admission_step.accept) (simp_all add: eval)
  moreover have "admission_step ?s4 (Accept_enter 2 ?s4)"
    by (rule admission_step.accept) (simp_all add: eval)
  moreover have "Accept_enter 2 ?s4 = one_open" by (simp add: eval one_open_def numeral_2_eq_2)
  ultimately show ?thesis by (metis (no_types, lifting) rtranclp.simps)
qed

lemma reach_one_woken: "admission_step\<^sup>*\<^sup>* (newAdmissionListener 1 3) one_woken"
proof -
  let ?s5 = "Conn_close_inner 0 one_open"
  have "admission_step one_open ?s5"
    by (rule admission_step.close_inner) (simp add: one_open_def)
  moreover have "admission_step ?s5 (Conn_release_once 0 (Some 1) ?s5)"
    by (rule admission_step.release_once) (simp_all add: one_open_def admission_ops may_signal_def)
  moreover have "Conn_release_once 0 (Some 1) ?s5 = one_woken"
    by (simp add: one_open_def one_woken_def admission_ops)
  ultimately show ?thesis
    using reach_one_open by (metis (no_types, lifting) rtranclp.rtrancl_into_rtrancl)
qed

theorem connections_bounded_witness:
  "admission_step\<^sup>*\<^sup>* (newAdmissionListener 1 3) one_open \<and> tally unreleased (conns one_open) = 1
   \<and> tally unreleased (conns one_open) + at_pc Accepted one_open + at_pc Rejecting one_open \<le> 1"
  using connections_bounded [OF reach_one_open] reach_one_open by (simp add: one_open_def)

theorem no_lost_wakeup_witness:
  "Asleep \<in> set (pcs one_woken)
   \<and> (\<exists>j < length (pcs one_woken). pcs one_woken ! j = Woken \<and> pcs (Accept_enter j one_woken) ! j = Admitted)"
proof -
  have asleep: "Asleep \<in> set (pcs one_woken)" and free: "active one_woken < 1" by (simp_all add: one_woken_def)
  with no_lost_wakeup [OF reach_one_woken _ asleep] show ?thesis by auto
qed

end
