(* ===== verification/HandlerGate.thy ===== *)
theory HandlerGate
  imports Prelude
begin

text \<open>
  The \<open>handlerGate\<close> of \<open>localgateway/gateway.go\<close>: request goroutines enter and leave around
  the application's handler (\<open>gatedHandler.ServeHTTP\<close>), \<open>Server.Stop\<close> closes the gate
  (\<open>stop\<close>) and then waits until the last one left (\<open>wait\<close>). One rule of the step relation is
  one critical section of the gate's mutex.
\<close>

subsection \<open>State\<close>

text \<open>A request: before the gate, in the application's handler, answered, refused with 503.\<close>

datatype request_pc = Arriving | Inside | Answered | Refused

text \<open>
  A call of \<open>wait\<close>: not made, asleep in \<open>cond.Wait\<close>, woken and about to test again, returned.
\<close>

datatype wait_pc = NotWaiting | Sleeping | Roused | Returned

record gate =
  stopping :: bool
  active :: int
  cond :: bool    \<comment> \<open>\<open>g.cond\<close> is not nil\<close>
  requests :: "request_pc list"
  waits :: "wait_pc list"

text \<open>The zero value, with \<open>n\<close> requests to come and no call of \<open>wait\<close> yet.\<close>

definition zero_gate :: "nat \<Rightarrow> gate" where
  "zero_gate n = \<lparr>stopping = False, active = 0, cond = False, requests = replicate n Arriving, waits = []\<rparr>"

subsection \<open>Operations\<close>

definition enter :: "gate \<Rightarrow> bool \<times> gate" where
  "enter g = (if stopping g then (False, g) else (True, g\<lparr>active := active g + 1\<rparr>))"

text \<open>\<open>cond.Broadcast\<close>.\<close>

definition rouse :: "gate \<Rightarrow> gate" where
  "rouse g = g\<lparr>waits := map (\<lambda>w. if w = Sleeping then Roused else w) (waits g)\<rparr>"

definition leave :: "gate \<Rightarrow> gate" where
  "leave g =
     (let g' = g\<lparr>active := active g - 1\<rparr>
      in if active g' = 0 \<and> cond g' then rouse g' else g')"

definition stop :: "gate \<Rightarrow> gate" where
  "stop g = g\<lparr>stopping := True\<rparr>"

text \<open>
  \<open>wait\<close>: the first critical section makes the condition variable if there is none; then, as
  after every wake-up, the test of the loop.
\<close>

definition wait_test :: "nat \<Rightarrow> gate \<Rightarrow> gate" where
  "wait_test k g = g\<lparr>cond := True, waits := (waits g)[k := (if active g \<noteq> 0 then Sleeping else Returned)]\<rparr>"

text \<open>\<open>ServeHTTP\<close> up to the call of the application's handler, and after it.\<close>

definition serve_enter :: "nat \<Rightarrow> gate \<Rightarrow> gate" where
  "serve_enter i g =
     (case enter g of (ok, g') \<Rightarrow> g'\<lparr>requests := (requests g')[i := (if ok then Inside else Refused)]\<rparr>)"

definition serve_leave :: "nat \<Rightarrow> gate \<Rightarrow> gate" where
  "serve_leave i g = leave (g\<lparr>requests := (requests g)[i := Answered]\<rparr>)"

text \<open>A further call of \<open>wait\<close>, before its first critical section.\<close>

definition call_wait :: "gate \<Rightarrow> gate" where
  "call_wait g = g\<lparr>waits := waits g @ [NotWaiting]\<rparr>"

lemmas gate_ops [step_defs] = enter_def rouse_def leave_def stop_def wait_test_def serve_enter_def
  serve_leave_def call_wait_def

subsection \<open>Steps\<close>

text \<open>\<open>Server.Stop\<close> calls \<open>wait\<close> after \<open>stop\<close>.\<close>

inductive gate_step :: "gate \<Rightarrow> gate \<Rightarrow> bool" where
  arrive: "i < length (requests g) \<Longrightarrow> requests g ! i = Arriving \<Longrightarrow> gate_step g (serve_enter i g)"
| depart: "i < length (requests g) \<Longrightarrow> requests g ! i = Inside \<Longrightarrow> gate_step g (serve_leave i g)"
| stop: "gate_step g (stop g)"
| call_wait: "gate_step g (call_wait g)"
| wait: "k < length (waits g) \<Longrightarrow> waits g ! k \<in> {NotWaiting, Roused} \<Longrightarrow> stopping g \<Longrightarrow>
     gate_step g (wait_test k g)"

subsection \<open>Invariant\<close>

abbreviation inside :: "gate \<Rightarrow> int" where
  "inside g \<equiv> tally (\<lambda>r. r = Inside) (requests g)"

abbreviation waiting :: "wait_pc \<Rightarrow> gate \<Rightarrow> int" where
  "waiting w g \<equiv> tally (\<lambda>x. x = w) (waits g)"

definition gate_inv :: "gate \<Rightarrow> bool" where
  "gate_inv g \<longleftrightarrow>
     active g = inside g
     \<and> (0 < waiting Sleeping g \<longrightarrow> cond g \<and> active g \<noteq> 0)
     \<and> (0 < waiting Returned g \<longrightarrow> stopping g \<and> active g = 0)"

lemma gate_inv_init: "gate_inv (zero_gate n)"
  by (auto simp: gate_inv_def zero_gate_def tally_def)

lemma tally_rouse:
  "tally P (map (\<lambda>w. if w = Sleeping then Roused else w) ws) =
     tally P ws + (of_bool (P Roused) - of_bool (P Sleeping)) * tally (\<lambda>w. w = Sleeping) ws"
  by (induction ws) (auto simp: algebra_simps)

lemma gate_step_inv: "gate_step g h \<Longrightarrow> gate_inv g \<Longrightarrow> gate_inv h"
proof (induction rule: gate_step.induct)
  case (depart i g)
  then have "0 < inside g" by (blast intro: tally_positive)
  with depart show ?case by (auto simp: gate_inv_def gate_ops Let_def tally_rouse)
next
  case (arrive i g)
  moreover have "inside g + 1 \<noteq> 0"
    using tally_nonneg [of "\<lambda>r. r = Inside" "requests g"] by linarith
  ultimately show ?case by (auto simp: gate_inv_def gate_ops)
qed (auto simp: gate_inv_def gate_ops)

interpretation gate: concurrent_machine gate_step gate_inv
  by unfold_locales (rule gate_step_inv)

text \<open>A closed gate that a call of \<open>wait\<close> saw empty.\<close>

definition drained :: "gate \<Rightarrow> bool" where
  "drained g \<longleftrightarrow> gate_inv g \<and> stopping g \<and> 0 < waiting Returned g"

lemma drained_step: "gate_step g h \<Longrightarrow> drained g \<Longrightarrow> drained h"
proof -
  assume step: "gate_step g h" and d: "drained g"
  then have "gate_inv h" by (auto simp: drained_def intro: gate_step_inv)
  moreover from step d have "stopping h \<and> 0 < waiting Returned h"
  proof (induction rule: gate_step.induct)
    case (depart i g)
    then have "0 < inside g" by (blast intro: tally_positive)
    with depart have False by (auto simp: drained_def gate_inv_def)
    then show ?case ..
  qed (auto simp: drained_def gate_inv_def gate_ops)
  ultimately show ?thesis by (simp add: drained_def)
qed

interpretation drained: concurrent_machine gate_step drained
  by unfold_locales (rule drained_step)

subsection \<open>The contract\<close>

text \<open>
  C4 (safety): once a call of \<open>wait\<close> has returned, no request is in the application's handler,
  then and in every later state, however requests keep arriving.
\<close>

theorem drained_forever:
  assumes "gate_step\<^sup>*\<^sup>* (zero_gate n) g" and "Returned \<in> set (waits g)" and "gate_step\<^sup>*\<^sup>* g h"
  shows "Inside \<notin> set (requests h) \<and> active h = 0"
proof -
  from assms(1) have "gate_inv g" by (rule gate.steps_inv) (rule gate_inv_init)
  moreover from assms(2) have "0 < waiting Returned g"
    by (auto simp: in_set_conv_nth intro: tally_positive)
  moreover from calculation have "stopping g" by (simp add: gate_inv_def)
  ultimately have "drained g" by (simp add: drained_def)
  with assms(3) have "drained h" by (rule drained.steps_inv)
  then have "inside h = 0" and "active h = 0" by (auto simp: drained_def gate_inv_def)
  then show ?thesis by (auto simp: tally_zero)
qed

text \<open>
  \<open>wait\<close> only sleeps while a handler runs. In every reachable state a sleeping
  call has a request inside to wait for, and the step in which the last one leaves wakes it.
\<close>

lemma wait_not_stuck:
  assumes "gate_step\<^sup>*\<^sup>* (zero_gate n) g" and "Sleeping \<in> set (waits g)"
  shows "(\<exists>i < length (requests g). requests g ! i = Inside)
       \<and> (\<forall>i. inside g = 1 \<longrightarrow> Sleeping \<notin> set (waits (serve_leave i g)))"
proof -
  from assms(1) have inv: "gate_inv g" by (rule gate.steps_inv) (rule gate_inv_init)
  moreover from assms(2) have "0 < waiting Sleeping g"
    by (auto simp: in_set_conv_nth intro: tally_positive)
  ultimately have "inside g \<noteq> 0" and c: "cond g" "active g = inside g" by (auto simp: gate_inv_def)
  then have "\<exists>i < length (requests g). requests g ! i = Inside"
    by (auto simp: tally_zero in_set_conv_nth)
  with c show ?thesis by (auto simp: gate_ops Let_def)
qed

subsection \<open>Witnesses\<close>

text \<open>One request inside when the gate is closed and a first call of \<open>wait\<close> sleeps.\<close>

definition one_inside :: gate where
  "one_inside = \<lparr>stopping = True, active = 1, cond = True, requests = [Inside, Arriving], waits = [Sleeping]\<rparr>"

definition all_out :: gate where
  "all_out = \<lparr>stopping = True, active = 0, cond = True, requests = [Answered, Refused], waits = [Returned]\<rparr>"

lemma reach_one_inside: "gate_step\<^sup>*\<^sup>* (zero_gate 2) one_inside"
proof -
  let ?g0 = "zero_gate 2"
  let ?g1 = "serve_enter 0 ?g0"
  let ?g2 = "stop ?g1"
  let ?g3 = "call_wait ?g2"
  note eval = zero_gate_def gate_ops numeral_2_eq_2
  have "gate_step ?g0 ?g1" by (rule gate_step.arrive) (simp_all add: eval)
  moreover have "gate_step ?g1 ?g2" by (rule gate_step.stop)
  moreover have "gate_step ?g2 ?g3" by (rule gate_step.call_wait)
  moreover have "gate_step ?g3 (wait_test 0 ?g3)" by (rule gate_step.wait) (simp_all add: eval)
  moreover have "wait_test 0 ?g3 = one_inside" by (simp add: eval one_inside_def)
  ultimately show ?thesis by (metis (no_types, lifting) rtranclp.simps)
qed

lemma reach_all_out: "gate_step\<^sup>*\<^sup>* (zero_gate 2) all_out"
proof -
  let ?g4 = "serve_leave 0 one_inside"
  let ?g5 = "wait_test 0 ?g4"
  note eval = one_inside_def gate_ops Let_def
  have "gate_step one_inside ?g4" by (rule gate_step.depart) (simp_all add: eval)
  moreover have "gate_step ?g4 ?g5" by (rule gate_step.wait) (simp_all add: eval)
  moreover have "gate_step ?g5 (serve_enter 1 ?g5)" by (rule gate_step.arrive) (simp_all add: eval)
  moreover have "serve_enter 1 ?g5 = all_out" by (simp add: eval all_out_def)
  ultimately show ?thesis
    using reach_one_inside by (metis (no_types, lifting) rtranclp.rtrancl_into_rtrancl)
qed

theorem drained_forever_witness: "Returned \<in> set (waits all_out) \<and> Inside \<notin> set (requests all_out)"
  using drained_forever [OF reach_all_out, of all_out] by (simp add: all_out_def)

end
