(* ===== verification/Gateway.thy ===== *)
theory Gateway
  imports HandlerGate
begin

text \<open>
  \<open>Server\<close> of \<open>localgateway/gateway.go\<close>: its configuration (\<open>New\<close> and the options), and its
  life cycle (\<open>Start\<close>, the goroutine around \<open>http.Server.Serve\<close>, \<open>Stop\<close>) composed with the
  handler gate. \<open>Start\<close> and \<open>Stop\<close> hold the server's mutex throughout, so calls of them do
  not overlap; \<open>Stop\<close> is cut where it calls into the environment or waits. What the platform
  listener, \<open>net/http\<close> and the endpoint's cleanup answer is an argument of each operation.
\<close>

subsection \<open>Configuration\<close>

definition DefaultPipeBufferBytes :: int where "DefaultPipeBufferBytes = 64 * 1024"
definition MaxPipeBufferBytes :: int where "MaxPipeBufferBytes = 16 * 1024 * 1024"
definition DefaultMaxConnections :: int where "DefaultMaxConnections = 64"
definition MaxConnections :: int where "MaxConnections = 4096"

text \<open>A \<open>time.Duration\<close> is its number of nanoseconds.\<close>

definition Second :: int where "Second = 1000000000"

record config =
  Endpoint :: string
  Name :: string
  ReadTimeout :: int
  ReadHeaderTimeout :: int
  WriteTimeout :: int
  IdleTimeout :: int
  MaxHeaderBytes :: int
  PipeInputBufferBytes :: int
  PipeOutputBufferBytes :: int

definition DefaultConfig :: "string \<Rightarrow> config" where
  "DefaultConfig endpoint =
     \<lparr>Endpoint = endpoint, Name = ''local HTTP gateway'', ReadTimeout = 10 * Second,
      ReadHeaderTimeout = 2 * Second, WriteTimeout = 0, IdleTimeout = 30 * Second,
      MaxHeaderBytes = 16 * 1024, PipeInputBufferBytes = DefaultPipeBufferBytes,
      PipeOutputBufferBytes = DefaultPipeBufferBytes\<rparr>"

definition normalizeMaxConnections :: "int \<Rightarrow> int" where
  "normalizeMaxConnections m = (if m \<le> 0 \<or> m > MaxConnections then DefaultMaxConnections else m)"

definition pipeBufferSize :: "int \<Rightarrow> int" where
  "pipeBufferSize v = (if v \<le> 0 \<or> v > MaxPipeBufferBytes then DefaultPipeBufferBytes else v)"

text \<open>The configuration part of \<open>New\<close>.\<close>

definition with_defaults :: "config \<Rightarrow> config" where
  "with_defaults c =
     (let d = DefaultConfig (Endpoint c) in
      c\<lparr>Name := (if Name c = [] then Name d else Name c),
        ReadTimeout := (if ReadTimeout c = 0 then ReadTimeout d else ReadTimeout c),
        ReadHeaderTimeout := (if ReadHeaderTimeout c = 0 then ReadHeaderTimeout d else ReadHeaderTimeout c),
        IdleTimeout := (if IdleTimeout c = 0 then IdleTimeout d else IdleTimeout c),
        MaxHeaderBytes := (if MaxHeaderBytes c \<le> 0 then MaxHeaderBytes d else MaxHeaderBytes c),
        PipeInputBufferBytes := pipeBufferSize (PipeInputBufferBytes c),
        PipeOutputBufferBytes := pipeBufferSize (PipeOutputBufferBytes c)\<rparr>)"

subsection \<open>State\<close>

text \<open>Application handlers and loggers are told apart by a number.\<close>

datatype handler = NotFoundHandler | Handler nat
datatype logger = DefaultLogger | Logger nat

text \<open>What the network reports, as far as \<open>errors.Is\<close> is asked about it.\<close>

datatype net_error = NetErrClosed | HttpErrServerClosed | NetError nat

datatype start_error = IsStopped string | AlreadyStarted string | EndpointRequired | ListenFailed string net_error

text \<open>\<open>serveDone\<close>: a nil channel, open while \<open>Serve\<close> runs, closed after it.\<close>

datatype serve_state = NotServed | Serving | ServeReturned

record gateway =
  cfg :: config
  handler :: handler
  logger :: logger
  maxConnections :: int
  listener :: bool    \<comment> \<open>not nil\<close>
  cleanup :: bool     \<comment> \<open>not nil\<close>
  http_server :: bool \<comment> \<open>\<open>s.server\<close> is not nil\<close>
  serveDone :: serve_state
  stopping :: bool
  stopped :: bool
  serveErr :: "net_error option"
  handlers :: gate

text \<open>An \<open>Option\<close> works on the server.\<close>

definition WithLogger :: "logger option \<Rightarrow> gateway \<Rightarrow> gateway" where
  "WithLogger l s = (case l of None \<Rightarrow> s | Some x \<Rightarrow> s\<lparr>logger := x\<rparr>)"

definition WithMaxConnections :: "int \<Rightarrow> gateway \<Rightarrow> gateway" where
  "WithMaxConnections m s = s\<lparr>maxConnections := normalizeMaxConnections m\<rparr>"

text \<open>\<open>New\<close>; \<open>n\<close> is how many requests will ever come.\<close>

definition New :: "config \<Rightarrow> handler option \<Rightarrow> (gateway \<Rightarrow> gateway) list \<Rightarrow> nat \<Rightarrow> gateway" where
  "New c h opts n =
     foldl (\<lambda>s opt. opt s)
       \<lparr>cfg = with_defaults c, handler = (case h of None \<Rightarrow> NotFoundHandler | Some x \<Rightarrow> x),
        logger = DefaultLogger, maxConnections = DefaultMaxConnections, listener = False,
        cleanup = False, http_server = False, serveDone = NotServed, stopping = False, stopped = False,
        serveErr = None, handlers = zero_gate n\<rparr> opts"

subsection \<open>Runs\<close>

text \<open>
  Where the call of \<open>Stop\<close> that holds the mutex is, if any; what it has joined so far; and what
  the server did to its environment, the newest first.
\<close>

datatype stop_pc = Outside | ShuttingDown | ClosingListener | AwaitingServe | AwaitingHandlers | CleaningUp | Finishing

datatype effect =
    Listened
  | RequestedShutdown
  | CleanedUp "net_error option"
  | StartReturned "start_error option"
  | StopReturned "net_error list"

record gateway_run = gateway +
  stop_at :: stop_pc
  joined :: "net_error list"
  trace :: "effect list"

definition begin_run :: "gateway \<Rightarrow> gateway_run" where
  "begin_run g = gateway.extend g (gateway_run.fields Outside [] [])"

subsection \<open>Start and the serving goroutine\<close>

text \<open>
  The settings of the \<open>http.Server\<close> that \<open>Start\<close> makes. Its handler is the one of \<open>New\<close> behind the
  gate (the requests of \<open>gateway_step\<close> all pass \<open>serve_enter\<close>).
\<close>

record http_settings =
  gated_handler :: handler
  read_timeout :: int
  read_header_timeout :: int
  write_timeout :: int
  idle_timeout :: int
  max_header_bytes :: int

definition server_settings :: "'a gateway_scheme \<Rightarrow> http_settings" where
  "server_settings s =
     \<lparr>gated_handler = handler s, read_timeout = ReadTimeout (cfg s), read_header_timeout = ReadHeaderTimeout (cfg s),
      write_timeout = WriteTimeout (cfg s), idle_timeout = IdleTimeout (cfg s), max_header_bytes = MaxHeaderBytes (cfg s)\<rparr>"

text \<open>
  \<open>listenLocal\<close> fails, or gives a listener and says whether there is a cleanup function.
\<close>

definition Start :: "(net_error, bool) result \<Rightarrow> gateway_run \<Rightarrow> gateway_run" where
  "Start listenLocal s =
     (let return = (\<lambda>e s. s\<lparr>trace := StartReturned e # trace s\<rparr>) in
      if stopping s \<or> stopped s then return (Some (IsStopped (Name (cfg s)))) s
      else if http_server s then return (Some (AlreadyStarted (Name (cfg s)))) s
      else if Endpoint (cfg s) = [] then return (Some EndpointRequired) s
      else case listenLocal of
        Inl e \<Rightarrow> return (Some (ListenFailed (Name (cfg s)) e)) s
      | Inr c \<Rightarrow> return None
          (s\<lparr>listener := True, cleanup := c, http_server := True, serveDone := Serving,
             trace := Listened # trace s\<rparr>))"

text \<open>The goroutine after \<open>server.Serve\<close> returned \<open>err\<close>.\<close>

definition serve_returns :: "net_error option \<Rightarrow> gateway_run \<Rightarrow> gateway_run" where
  "serve_returns err s =
     (case err of
        Some e \<Rightarrow>
          if e \<noteq> HttpErrServerClosed
          then s\<lparr>serveErr := Some e, serveDone := ServeReturned, trace := RequestedShutdown # trace s\<rparr>
          else s\<lparr>serveDone := ServeReturned\<rparr>
      | None \<Rightarrow> s\<lparr>serveDone := ServeReturned\<rparr>)"

subsection \<open>Stop\<close>

definition Stop_enter :: "gateway_run \<Rightarrow> gateway_run" where
  "Stop_enter s =
     (if stopped s then s\<lparr>trace := StopReturned [] # trace s\<rparr>
      else s\<lparr>stopping := True, handlers := stop (handlers s), joined := [], stop_at := ShuttingDown\<rparr>)"

text \<open>The answers of \<open>server.Shutdown\<close> and of \<open>server.Close\<close>.\<close>

definition Stop_shutdown :: "net_error option \<Rightarrow> net_error option \<Rightarrow> gateway_run \<Rightarrow> gateway_run" where
  "Stop_shutdown shutdown close s =
     (if http_server s
      then (case shutdown of
              None \<Rightarrow> s
            | Some e \<Rightarrow> s\<lparr>joined := joined s @ [e] @ leaves close\<rparr>)
      else s)\<lparr>stop_at := ClosingListener\<rparr>"

definition Stop_close_listener :: "net_error option \<Rightarrow> gateway_run \<Rightarrow> gateway_run" where
  "Stop_close_listener close s =
     (if listener s
      then (case close of
              None \<Rightarrow> s
            | Some e \<Rightarrow> if e \<noteq> NetErrClosed then s\<lparr>joined := joined s @ [e]\<rparr> else s)
      else s)\<lparr>stop_at := AwaitingServe\<rparr>"

text \<open>\<open><-s.serveDone\<close> returns, and \<open>s.handlers.wait()\<close> is called.\<close>

definition Stop_await_serve :: "gateway_run \<Rightarrow> gateway_run" where
  "Stop_await_serve s = s\<lparr>handlers := call_wait (handlers s), stop_at := AwaitingHandlers\<rparr>"

text \<open>One test of the loop in \<open>wait\<close>, by the newest call of it.\<close>

definition Stop_wait :: "gateway_run \<Rightarrow> gateway_run" where
  "Stop_wait s =
     s\<lparr>handlers := wait_test (length (waits (handlers s)) - 1) (handlers s),
       stop_at := (if active (handlers s) \<noteq> 0 then AwaitingHandlers else CleaningUp)\<rparr>"

definition Stop_cleanup :: "net_error option \<Rightarrow> gateway_run \<Rightarrow> gateway_run" where
  "Stop_cleanup err s =
     (if cleanup s
      then (case err of
              Some e \<Rightarrow> s\<lparr>joined := joined s @ [e], trace := CleanedUp (Some e) # trace s\<rparr>
            | None \<Rightarrow> s\<lparr>cleanup := False, trace := CleanedUp None # trace s\<rparr>)
      else s)\<lparr>stop_at := Finishing\<rparr>"

definition Stop_finish :: "gateway_run \<Rightarrow> gateway_run" where
  "Stop_finish s =
     (let result = joined s @ leaves (serveErr s) in
      (if result = [] then s\<lparr>stopped := True\<rparr> else s)
        \<lparr>stop_at := Outside, trace := StopReturned result # trace s\<rparr>)"

lemmas gateway_ops [step_defs] = Start_def serve_returns_def Stop_enter_def Stop_shutdown_def
  Stop_close_listener_def Stop_await_serve_def Stop_wait_def Stop_cleanup_def Stop_finish_def

subsection \<open>Steps\<close>

text \<open>
  The newest call of \<open>wait\<close> runs when it is new or was woken. Requests reach the gate once
  there is an HTTP server.
\<close>

inductive gateway_step :: "gateway_run \<Rightarrow> gateway_run \<Rightarrow> bool" where
  start: "stop_at s = Outside \<Longrightarrow> gateway_step s (Start l s)"
| serve: "serveDone s = Serving \<Longrightarrow> gateway_step s (serve_returns err s)"
| arrive: "http_server s \<Longrightarrow> i < length (requests (handlers s)) \<Longrightarrow> requests (handlers s) ! i = Arriving \<Longrightarrow>
     gateway_step s (s\<lparr>handlers := serve_enter i (handlers s)\<rparr>)"
| depart: "i < length (requests (handlers s)) \<Longrightarrow> requests (handlers s) ! i = Inside \<Longrightarrow>
     gateway_step s (s\<lparr>handlers := serve_leave i (handlers s)\<rparr>)"
| stop_enter: "stop_at s = Outside \<Longrightarrow> gateway_step s (Stop_enter s)"
| stop_shutdown: "stop_at s = ShuttingDown \<Longrightarrow> gateway_step s (Stop_shutdown e1 e2 s)"
| stop_close: "stop_at s = ClosingListener \<Longrightarrow> gateway_step s (Stop_close_listener err s)"
| stop_await: "stop_at s = AwaitingServe \<Longrightarrow> serveDone s \<noteq> Serving \<Longrightarrow> gateway_step s (Stop_await_serve s)"
| stop_wait: "stop_at s = AwaitingHandlers \<Longrightarrow> last (waits (handlers s)) \<in> {NotWaiting, Roused} \<Longrightarrow>
     gateway_step s (Stop_wait s)"
| stop_cleanup: "stop_at s = CleaningUp \<Longrightarrow> gateway_step s (Stop_cleanup err s)"
| stop_finish: "stop_at s = Finishing \<Longrightarrow> gateway_step s (Stop_finish s)"

inductive_cases gateway_stepE: "gateway_step s t"

text \<open>Seen from the gate, a step of the server is a step of the gate or nothing.\<close>

lemma wait_test_last:
  assumes "waits g \<noteq> []" and "last (waits g) \<in> {NotWaiting, Roused}" and "gate.stopping g"
  shows "gate_step g (wait_test (length (waits g) - 1) g)"
  using assms by (intro gate_step.wait) (auto simp: last_conv_nth)

lemma waits_serve_enter [simp]: "waits (serve_enter i g) = waits g"
  by (simp add: gate_ops split: prod.split)

lemma stopping_serve [simp]:
  "gate.stopping (serve_enter i g) = gate.stopping g"
  "gate.stopping (serve_leave i g) = gate.stopping g"
  "gate.stopping (wait_test k g) = gate.stopping g"
  "gate.stopping (call_wait g) = gate.stopping g"
  "gate.stopping (stop g)"
  by (simp_all add: gate_ops Let_def)

lemma waits_serve_leave:
  "waits (serve_leave i g) = waits g
   \<or> waits (serve_leave i g) = map (\<lambda>w. if w = Sleeping then Roused else w) (waits g)"
  by (simp add: gate_ops Let_def)

lemma last_waits_serve_leave:
  "waits g \<noteq> [] \<Longrightarrow> last (waits g) \<noteq> Returned \<Longrightarrow>
   waits (serve_leave i g) \<noteq> [] \<and> last (waits (serve_leave i g)) \<noteq> Returned"
  using waits_serve_leave [of i g] by (auto simp: last_map split: if_splits)

lemma wait_test_outcome:
  assumes "waits g \<noteq> []" and "gate_inv (wait_test (length (waits g) - 1) g)" and "gate.stopping g"
  shows "if active g \<noteq> 0
    then waits (wait_test (length (waits g) - 1) g) \<noteq> []
       \<and> last (waits (wait_test (length (waits g) - 1) g)) = Sleeping
    else drained (wait_test (length (waits g) - 1) g)"
proof -
  have "0 < waiting Returned (wait_test (length (waits g) - 1) g)" if "active g = 0"
    using assms(1) that by (intro tally_positive [of "length (waits g) - 1"]) (simp_all add: gate_ops)
  moreover have "last ((waits g)[length (waits g) - 1 := w]) = w" for w
    using assms(1) by (simp add: last_conv_nth)
  ultimately show ?thesis using assms by (auto simp: drained_def) (simp_all add: gate_ops)
qed

subsection \<open>Invariant\<close>

fun is_cleanup :: "effect \<Rightarrow> bool" where
  "is_cleanup (CleanedUp r) = True"
| "is_cleanup e = False"

abbreviation times :: "effect \<Rightarrow> gateway_run \<Rightarrow> int" where
  "times e s \<equiv> tally (\<lambda>x. x = e) (trace s)"

text \<open>The gate is in step with the server: closed when it stops, empty when it cleans up.\<close>

definition gate_follows :: "gateway_run \<Rightarrow> bool" where
  "gate_follows s \<longleftrightarrow>
     gate_inv (handlers s) \<and> gate.stopping (handlers s) = gateway.stopping s
     \<and> (stop_at s \<noteq> Outside \<longrightarrow> gateway.stopping s \<and> \<not> stopped s)
     \<and> (stopped s \<longrightarrow> gateway.stopping s)
     \<and> (stop_at s = AwaitingHandlers \<longrightarrow> waits (handlers s) \<noteq> [] \<and> last (waits (handlers s)) \<noteq> Returned)
     \<and> (stop_at s \<in> {CleaningUp, Finishing} \<or> stopped s \<or> 0 < tally is_cleanup (trace s) \<longrightarrow> drained (handlers s))"

text \<open>The endpoint: made once, given up once, and reported.\<close>

definition endpoint_ok :: "gateway_run \<Rightarrow> bool" where
  "endpoint_ok s \<longleftrightarrow>
     times Listened s = of_bool (http_server s)
     \<and> times (CleanedUp None) s + of_bool (cleanup s) \<le> times Listened s
     \<and> (stop_at s = Outside \<or> gateway.stopping s)
     \<and> (stop_at s \<in> {AwaitingHandlers, CleaningUp, Finishing} \<or> stopped s \<longrightarrow> serveDone s \<noteq> Serving)
     \<and> (stop_at s = Finishing \<and> joined s = [] \<longrightarrow> \<not> cleanup s)
     \<and> (stopped s \<longrightarrow> gateway.stopping s \<and> \<not> cleanup s \<and> serveErr s = None \<and> stop_at s = Outside)"

lemma gate_follows_step: "gateway_step s t \<Longrightarrow> gate_follows s \<Longrightarrow> gate_follows t"
proof (induction rule: gateway_step.induct)
  case (start s l)
  then show ?case by (auto simp: gate_follows_def Start_def Let_def split: sum.split)
next
  case (serve s err)
  then show ?case by (auto simp: gate_follows_def serve_returns_def split: option.split)
next
  case (arrive s i)
  then have step: "gate_step (handlers s) (serve_enter i (handlers s))" by (intro gate_step.arrive)
  from arrive show ?case
    using gate_step_inv [OF step] drained_step [OF step] by (auto simp: gate_follows_def)
next
  case (depart i s)
  then have step: "gate_step (handlers s) (serve_leave i (handlers s))" by (intro gate_step.depart)
  from depart show ?case
    using gate_step_inv [OF step] drained_step [OF step] last_waits_serve_leave [of "handlers s" i]
    by (auto simp: gate_follows_def)
next
  case (stop_enter s)
  have step: "gate_step (handlers s) (stop (handlers s))" by (rule gate_step.stop)
  from stop_enter show ?case
    using gate_step_inv [OF step] drained_step [OF step] by (auto simp: gate_follows_def Stop_enter_def)
next
  case (stop_shutdown s e1 e2)
  then show ?case by (auto simp: gate_follows_def Stop_shutdown_def split: option.split)
next
  case (stop_close s err)
  then show ?case by (auto simp: gate_follows_def Stop_close_listener_def split: option.split)
next
  case (stop_await s)
  have step: "gate_step (handlers s) (call_wait (handlers s))" by (rule gate_step.call_wait)
  from stop_await show ?case
    using gate_step_inv [OF step] drained_step [OF step]
    by (auto simp: gate_follows_def Stop_await_serve_def) (simp_all add: call_wait_def)
next
  case (stop_wait s)
  let ?g = "handlers s"
  have g: "gate.stopping ?g" "waits ?g \<noteq> []" using stop_wait by (auto simp: gate_follows_def)
  then have step: "gate_step ?g (wait_test (length (waits ?g) - 1) ?g)"
    using stop_wait by (intro wait_test_last) auto
  have "gate_inv ?g" using stop_wait by (simp add: gate_follows_def)
  from wait_test_outcome [OF g(2) gate_step_inv [OF step this] g(1)] show ?case
    using stop_wait g gate_step_inv [OF step] drained_step [OF step]
    by (auto simp: gate_follows_def Stop_wait_def split: if_splits)
next
  case (stop_cleanup s err)
  then show ?case by (auto simp: gate_follows_def Stop_cleanup_def split: option.split)
next
  case (stop_finish s)
  then show ?case by (auto simp: gate_follows_def Stop_finish_def Let_def)
qed

lemma endpoint_ok_step: "gateway_step s t \<Longrightarrow> endpoint_ok s \<Longrightarrow> endpoint_ok t"
proof (induction rule: gateway_step.induct)
  case (start s l)
  then show ?case
    by (cases "http_server s"; cases "cleanup s") (auto simp: endpoint_ok_def Start_def Let_def split: sum.splits)
qed (auto simp: endpoint_ok_def gateway_ops Let_def split: option.splits)

definition gateway_inv :: "gateway_run \<Rightarrow> bool" where
  "gateway_inv s \<longleftrightarrow> gate_follows s \<and> endpoint_ok s"

interpretation gateway: concurrent_machine gateway_step gateway_inv
  by unfold_locales (auto simp: gateway_inv_def intro: gate_follows_step endpoint_ok_step)

subsection \<open>What New gives\<close>

definition package_option :: "(gateway \<Rightarrow> gateway) \<Rightarrow> bool" where
  "package_option opt \<longleftrightarrow> (\<exists>l. opt = WithLogger l) \<or> (\<exists>m. opt = WithMaxConnections m)"

text \<open>A server that has not been started, as its options may leave it.\<close>

definition fresh :: "config \<Rightarrow> nat \<Rightarrow> gateway \<Rightarrow> bool" where
  "fresh c n s \<longleftrightarrow>
     cfg s = with_defaults c \<and> maxConnections s \<in> {1..MaxConnections}
     \<and> \<not> listener s \<and> \<not> cleanup s \<and> \<not> http_server s \<and> serveDone s = NotServed
     \<and> \<not> gateway.stopping s \<and> \<not> stopped s \<and> serveErr s = None \<and> handlers s = zero_gate n"

lemma fresh_option: "package_option opt \<Longrightarrow> fresh c n s \<Longrightarrow> fresh c n (opt s)"
  by (auto simp: package_option_def fresh_def WithLogger_def WithMaxConnections_def
      normalizeMaxConnections_def DefaultMaxConnections_def MaxConnections_def split: option.splits)

lemma fresh_New: "\<forall>opt \<in> set opts. package_option opt \<Longrightarrow> fresh c n (New c h opts n)"
proof -
  have "\<forall>opt \<in> set opts. package_option opt \<Longrightarrow> fresh c n s \<Longrightarrow> fresh c n (foldl (\<lambda>s opt. opt s) s opts)" for s
    by (induction opts arbitrary: s) (auto intro: fresh_option)
  moreover have "fresh c n
       \<lparr>cfg = with_defaults c, handler = (case h of None \<Rightarrow> NotFoundHandler | Some x \<Rightarrow> x),
        logger = DefaultLogger, maxConnections = DefaultMaxConnections, listener = False,
        cleanup = False, http_server = False, serveDone = NotServed, stopping = False, stopped = False,
        serveErr = None, handlers = zero_gate n\<rparr>"
    by (simp add: fresh_def DefaultMaxConnections_def MaxConnections_def)
  ultimately show "\<forall>opt \<in> set opts. package_option opt \<Longrightarrow> fresh c n (New c h opts n)"
    by (simp add: New_def)
qed

lemma gateway_inv_begin: "fresh c n g \<Longrightarrow> gateway_inv (begin_run g)"
  using gate_inv_init [of n]
  by (simp add: gateway_inv_def gate_follows_def endpoint_ok_def begin_run_def fresh_def gateway.defs
      gateway_run.defs) (simp add: zero_gate_def)

text \<open>The servers of the properties: built by \<open>New\<close> with the options of the package.\<close>

definition runs_to :: "config \<Rightarrow> handler option \<Rightarrow> (gateway \<Rightarrow> gateway) list \<Rightarrow> nat \<Rightarrow> gateway_run \<Rightarrow> bool" where
  "runs_to c h opts n s \<longleftrightarrow>
     (\<forall>opt \<in> set opts. package_option opt) \<and> gateway_step\<^sup>*\<^sup>* (begin_run (New c h opts n)) s"

lemma runs_to_inv: "runs_to c h opts n s \<Longrightarrow> gateway_inv s"
  unfolding runs_to_def by (metis gateway.steps_inv gateway_inv_begin fresh_New)

subsection \<open>The contract\<close>

text \<open>
  Whatever the caller configures, a server that \<open>New\<close> builds has a name, no
  time-out of zero for reads, headers and idle connections, a positive header limit, buffers of
  1 byte to 16 MiB and 1 to 4096 connections; values in range are kept.
\<close>

lemma New_normalizes:
  assumes "\<forall>opt \<in> set opts. package_option opt"
  shows "let g = New c h opts n in
     Name (cfg g) \<noteq> [] \<and> Endpoint (cfg g) = Endpoint c
   \<and> ReadTimeout (cfg g) \<noteq> 0 \<and> ReadHeaderTimeout (cfg g) \<noteq> 0 \<and> IdleTimeout (cfg g) \<noteq> 0
   \<and> 0 < MaxHeaderBytes (cfg g)
   \<and> PipeInputBufferBytes (cfg g) \<in> {1..MaxPipeBufferBytes} \<and> PipeOutputBufferBytes (cfg g) \<in> {1..MaxPipeBufferBytes}
   \<and> maxConnections g \<in> {1..MaxConnections}
   \<and> (0 < MaxHeaderBytes c \<longrightarrow> MaxHeaderBytes (cfg g) = MaxHeaderBytes c)
   \<and> (PipeInputBufferBytes c \<in> {1..MaxPipeBufferBytes} \<longrightarrow> PipeInputBufferBytes (cfg g) = PipeInputBufferBytes c)
   \<and> (ReadTimeout c \<noteq> 0 \<longrightarrow> ReadTimeout (cfg g) = ReadTimeout c)"
  using fresh_New [OF assms, of c n h]
  by (auto simp: fresh_def with_defaults_def DefaultConfig_def Second_def pipeBufferSize_def
      DefaultPipeBufferBytes_def MaxPipeBufferBytes_def Let_def)

text \<open>However the server is used, its settings stay those of \<open>New\<close>: every \<open>Start\<close> serves with them.\<close>

lemma settings_step: "gateway_step s t \<Longrightarrow> server_settings t = server_settings s \<and> cfg t = cfg s"
  by (induction rule: gateway_step.induct)
     (auto simp: server_settings_def gateway_ops Let_def split: sum.splits option.splits)

lemma settings_kept:
  assumes "runs_to c h opts n s"
  shows "server_settings s = server_settings (New c h opts n)" and "cfg s = with_defaults c"
proof -
  from assms have opts: "\<forall>opt \<in> set opts. package_option opt" and "gateway_step\<^sup>*\<^sup>* (begin_run (New c h opts n)) s"
    by (auto simp: runs_to_def)
  from this(2) have "server_settings s = server_settings (begin_run (New c h opts n)) \<and> cfg s = cfg (begin_run (New c h opts n))"
    by (induction rule: rtranclp_induct) (auto dest: settings_step)
  then show "server_settings s = server_settings (New c h opts n)" "cfg s = with_defaults c"
    using fresh_New [OF opts, of c n h] by (simp_all add: server_settings_def begin_run_def gateway.defs fresh_def)
qed

text \<open>
  C12 (safety): the endpoint is removed only after the last handler returned: once the
  cleanup function was called, no request is in the application's handler, then and in every
  later state.
\<close>

theorem cleanup_after_drain:
  assumes "runs_to c h opts n s" and "CleanedUp r \<in> set (trace s)" and "gateway_step\<^sup>*\<^sup>* s t"
  shows "Inside \<notin> set (requests (handlers t))"
proof -
  let ?inv = "\<lambda>s. gateway_inv s \<and> 0 < tally is_cleanup (trace s)"
  have grows: "tally is_cleanup (trace s) \<le> tally is_cleanup (trace t)" if "gateway_step s t" for s t
    using that
    by (induction rule: gateway_step.induct) (auto simp: gateway_ops Let_def split: sum.splits option.splits)
  from assms(2) have "0 < tally is_cleanup (trace s)"
    by (auto simp: in_set_conv_nth intro: tally_positive)
  with assms(1) have "?inv s" by (auto dest: runs_to_inv)
  with assms(3) have "?inv t"
    by (induction rule: rtranclp_induct) (auto dest: gateway.step_inv grows)
  then have "drained (handlers t)" by (simp add: gateway_inv_def gate_follows_def)
  then have "inside (handlers t) = 0" by (auto simp: drained_def gate_inv_def)
  then show ?thesis by (auto simp: tally_zero)
qed

text \<open>
  C28 (invariant): in every run a server listens at most once, its endpoint is given up at most
  once and only if it was made, and a server that \<open>Stop\<close> reported as stopped owes no cleanup,
  hides no serving error and has no request in a handler.
\<close>

theorem endpoint_made_and_removed_once:
  assumes "runs_to c h opts n s"
  shows "times Listened s \<le> 1 \<and> times (CleanedUp None) s \<le> times Listened s
     \<and> (stopped s \<longrightarrow> \<not> cleanup s \<and> serveErr s = None \<and> serveDone s \<noteq> Serving
           \<and> Inside \<notin> set (requests (handlers s)))"
proof -
  from assms have inv: "gate_follows s" "endpoint_ok s"
    by (auto dest: runs_to_inv simp: gateway_inv_def)
  have "Inside \<notin> set (requests (handlers s))" if "stopped s"
  proof -
    from that inv have "drained (handlers s)" by (simp add: gate_follows_def)
    then have "inside (handlers s) = 0" by (auto simp: drained_def gate_inv_def)
    then show ?thesis by (auto simp: tally_zero)
  qed
  with inv(2) show ?thesis by (cases "cleanup s"; cases "http_server s") (auto simp: endpoint_ok_def)
qed

text \<open>
  After the first call of \<open>Stop\<close> the server never listens again, and a stopped
  server stays stopped.
\<close>

lemma stop_is_final:
  assumes "gateway_step\<^sup>*\<^sup>* s t" and "gateway.stopping s"
  shows "gateway.stopping t \<and> times Listened t = times Listened s \<and> (stopped s \<longrightarrow> stopped t)"
  using assms(1)
proof (induction rule: rtranclp_induct)
  case base
  with assms(2) show ?case by simp
next
  case (step t u)
  have "gateway.stopping u \<and> times Listened u = times Listened t \<and> (stopped t \<longrightarrow> stopped u)"
    if "gateway.stopping t" using step.hyps(2) that
    by (induction rule: gateway_step.induct) (auto simp: gateway_ops Let_def split: option.splits)
  with step.IH show ?case by simp
qed

text \<open>
  The next step of the call of \<open>Stop\<close> that holds the mutex, with what the environment answers:
  \<open>Shutdown\<close>, \<open>http.Server.Close\<close>, the listener's \<open>Close\<close> and the cleanup function.
\<close>

record answers =
  to_shutdown :: "net_error option"
  to_close :: "net_error option"
  to_listener_close :: "net_error option"
  to_cleanup :: "net_error option"

fun Stop_next :: "answers \<Rightarrow> gateway_run \<Rightarrow> gateway_run" where
  "Stop_next a s =
     (case stop_at s of
        Outside \<Rightarrow> Stop_enter s
      | ShuttingDown \<Rightarrow> Stop_shutdown (to_shutdown a) (to_close a) s
      | ClosingListener \<Rightarrow> Stop_close_listener (to_listener_close a) s
      | AwaitingServe \<Rightarrow> Stop_await_serve s
      | AwaitingHandlers \<Rightarrow> Stop_wait s
      | CleaningUp \<Rightarrow> Stop_cleanup (to_cleanup a) s
      | Finishing \<Rightarrow> Stop_finish s)"

fun steps_left :: "stop_pc \<Rightarrow> nat" where
  "steps_left Outside = 0"
| "steps_left ShuttingDown = 6"
| "steps_left ClosingListener = 5"
| "steps_left AwaitingServe = 4"
| "steps_left AwaitingHandlers = 3"
| "steps_left CleaningUp = 2"
| "steps_left Finishing = 1"

text \<open>A state in which nothing that \<open>Stop\<close> waits for is left.\<close>

definition quiet :: "gateway_run \<Rightarrow> bool" where
  "quiet s \<longleftrightarrow> gateway_inv s \<and> serveDone s \<noteq> Serving \<and> Inside \<notin> set (requests (handlers s))"

lemma quiet_idle: "quiet s \<Longrightarrow> active (handlers s) = 0"
  by (auto simp: quiet_def gateway_inv_def gate_follows_def gate_inv_def tally_zero)

lemma quiet_waiter:
  assumes "quiet s" and "stop_at s = AwaitingHandlers"
  shows "last (waits (handlers s)) \<in> {NotWaiting, Roused}"
proof -
  let ?w = "waits (handlers s)"
  from assms have w: "?w \<noteq> []" "last ?w \<noteq> Returned" and "gate_inv (handlers s)"
    by (auto simp: quiet_def gateway_inv_def gate_follows_def)
  with quiet_idle [OF assms(1)] have "waiting Sleeping (handlers s) = 0"
    using tally_nonneg [of "\<lambda>x. x = Sleeping" ?w] by (auto simp: gate_inv_def)
  with w have "last ?w \<noteq> Sleeping" by (auto simp: tally_zero)
  with w show ?thesis by (cases "last ?w") auto
qed

lemma Stop_next_step:
  assumes "quiet s" and "stop_at s \<noteq> Outside"
  shows "gateway_step s (Stop_next a s)" and "quiet (Stop_next a s)"
    and "Suc (steps_left (stop_at (Stop_next a s))) = steps_left (stop_at s)"
proof -
  show step: "gateway_step s (Stop_next a s)"
    using assms quiet_waiter [OF assms(1)]
    by (cases "stop_at s") (auto simp: quiet_def intro: gateway_step.intros)
  have "serveDone (Stop_next a s) = serveDone s \<and> requests (handlers (Stop_next a s)) = requests (handlers s)"
    using assms(2) by (auto simp: gateway_ops gate_ops Let_def split: stop_pc.split option.split)
  with assms(1) gateway.step_inv [OF step] show "quiet (Stop_next a s)" by (simp add: quiet_def)
  show "Suc (steps_left (stop_at (Stop_next a s))) = steps_left (stop_at s)"
    using assms(2) quiet_idle [OF assms(1)]
    by (cases "stop_at s") (auto simp: gateway_ops Let_def split: option.split)
qed

lemma Stop_next_run:
  "quiet s \<Longrightarrow> steps_left (stop_at s) = k \<Longrightarrow>
   gateway_step\<^sup>*\<^sup>* s ((Stop_next a ^^ k) s) \<and> stop_at ((Stop_next a ^^ k) s) = Outside"
proof (induction k arbitrary: s)
  case 0
  then show ?case by (cases "stop_at s") auto
next
  case (Suc k)
  then have "stop_at s \<noteq> Outside" by auto
  note adv = Stop_next_step [OF Suc.prems(1) this, of a]
  from adv(3) Suc.prems(2) have "steps_left (stop_at (Stop_next a s)) = k" by simp
  from Suc.IH [OF adv(2) this] adv(1) show ?case
    by (simp add: funpow_Suc_right del: Stop_next.simps funpow.simps) (blast intro: converse_rtranclp_into_rtranclp)
qed

text \<open>
  \<open>Stop\<close> returns once its environment lets it: from every reachable state inside
  \<open>Stop\<close> in which the serving goroutine ended and no handler runs, at most six steps of \<open>Stop\<close>
  alone lead to its return, whatever the calls it makes answer.
\<close>

theorem Stop_returns:
  assumes "runs_to c h opts n s" and "stop_at s \<noteq> Outside" and "serveDone s \<noteq> Serving"
    and "Inside \<notin> set (requests (handlers s))"
  shows "\<exists>k \<le> 6. gateway_step\<^sup>*\<^sup>* s ((Stop_next a ^^ k) s) \<and> stop_at ((Stop_next a ^^ k) s) = Outside"
proof (intro exI conjI)
  have "quiet s" using assms by (auto simp: quiet_def dest: runs_to_inv)
  from Stop_next_run [OF this refl]
  show "gateway_step\<^sup>*\<^sup>* s ((Stop_next a ^^ steps_left (stop_at s)) s)"
    and "stop_at ((Stop_next a ^^ steps_left (stop_at s)) s) = Outside" by blast+
  show "steps_left (stop_at s) \<le> 6" by (cases "stop_at s") auto
qed

text \<open>
  One call of \<open>Stop\<close> on a started server whose goroutine ended and whose handlers
  are out returns, in this order, what \<open>Shutdown\<close> reported (and then what \<open>Close\<close> did), a failure
  of the listener other than that it was closed, a failure of the cleanup, and the serving error;
  it marks the server stopped exactly if there is none of them, and keeps the cleanup for a later
  call exactly if it failed.
\<close>

theorem Stop_outcome:
  assumes "gateway_inv s" and "stop_at s = Outside" and "\<not> stopped s" and "http_server s" and "listener s"
    and "serveDone s = ServeReturned" and "active (handlers s) = 0"
  shows "let t = (Stop_next a ^^ 7) s;
             result = (case to_shutdown a of None \<Rightarrow> [] | Some e \<Rightarrow> e # leaves (to_close a))
               @ filter (\<lambda>e. e \<noteq> NetErrClosed) (leaves (to_listener_close a))
               @ (if cleanup s then leaves (to_cleanup a) else []) @ leaves (serveErr s)
         in hd (trace t) = StopReturned result \<and> (stopped t \<longleftrightarrow> result = [])
          \<and> (cleanup t \<longleftrightarrow> cleanup s \<and> to_cleanup a \<noteq> None)"
proof -
  define s1 where "s1 = Stop_next a s"
  define s2 where "s2 = Stop_next a s1"
  define s3 where "s3 = Stop_next a s2"
  define s4 where "s4 = Stop_next a s3"
  define s5 where "s5 = Stop_next a s4"
  define s6 where "s6 = Stop_next a s5"
  define s7 where "s7 = Stop_next a s6"
  define shut where "shut = (case to_shutdown a of None \<Rightarrow> [] | Some e \<Rightarrow> e # leaves (to_close a))"
  define close where "close = filter (\<lambda>e. e \<noteq> NetErrClosed) (leaves (to_listener_close a))"
  have s1: "stop_at s1 = ShuttingDown" "joined s1 = []" "cleanup s1 = cleanup s" "serveErr s1 = serveErr s"
    "http_server s1" "listener s1" "active (handlers s1) = 0" "\<not> stopped s1"
    using assms by (simp_all add: s1_def Stop_enter_def stop_def)
  have s2: "stop_at s2 = ClosingListener" "joined s2 = shut" "cleanup s2 = cleanup s" "serveErr s2 = serveErr s"
    "listener s2" "active (handlers s2) = 0" "\<not> stopped s2"
    using s1 by (simp_all add: s2_def shut_def Stop_shutdown_def split: option.split)
  have s3: "stop_at s3 = AwaitingServe" "joined s3 = shut @ close" "cleanup s3 = cleanup s"
    "serveErr s3 = serveErr s" "active (handlers s3) = 0" "\<not> stopped s3"
    using s2 by (simp_all add: s3_def close_def Stop_close_listener_def split: option.split)
  have s4: "stop_at s4 = AwaitingHandlers" "joined s4 = shut @ close" "cleanup s4 = cleanup s"
    "serveErr s4 = serveErr s" "active (handlers s4) = 0" "\<not> stopped s4"
    using s3 by (simp_all add: s4_def Stop_await_serve_def call_wait_def)
  have s5: "stop_at s5 = CleaningUp" "joined s5 = shut @ close" "cleanup s5 = cleanup s"
    "serveErr s5 = serveErr s" "\<not> stopped s5"
    using s4 by (simp_all add: s5_def Stop_wait_def)
  have s6: "stop_at s6 = Finishing" "joined s6 = shut @ close @ (if cleanup s then leaves (to_cleanup a) else [])"
    "cleanup s6 = (cleanup s \<and> to_cleanup a \<noteq> None)" "serveErr s6 = serveErr s" "\<not> stopped s6"
    using s5 by (simp_all add: s6_def Stop_cleanup_def split: option.split)
  have "(Stop_next a ^^ 7) s = s7"
    by (simp add: numeral_eq_Suc s1_def s2_def s3_def s4_def s5_def s6_def s7_def del: Stop_next.simps)
  then show ?thesis
    using s6 unfolding s7_def shut_def [symmetric] close_def [symmetric] Let_def
    by (auto simp: Stop_finish_def Let_def)
qed

subsection \<open>Witnesses\<close>

text \<open>A server that was started and whose serving goroutine ended, before and in its \<open>Stop\<close>.\<close>

definition small_config :: config where
  "small_config = (DefaultConfig ''/run/g'')\<lparr>PipeInputBufferBytes := -1, Name := []\<rparr>"

definition served :: gateway_run where
  "served = serve_returns (Some HttpErrServerClosed) (Start (Inr True) (begin_run (New small_config None [] 1)))"

definition no_trouble :: answers where
  "no_trouble = \<lparr>to_shutdown = None, to_close = None, to_listener_close = Some NetErrClosed, to_cleanup = None\<rparr>"

lemmas served_eval = served_def small_config_def serve_returns_def Start_def begin_run_def New_def zero_gate_def
  with_defaults_def DefaultConfig_def gateway.defs gateway_run.defs Let_def

lemma served_fields:
  "stop_at served = Outside" "serveDone served = ServeReturned" "http_server served" "listener served"
  "\<not> gateway.stopping served" "\<not> stopped served" "cleanup served" "serveErr served = None"
  "requests (handlers served) = [Arriving]" "active (handlers served) = 0"
  by (simp_all add: served_eval)

lemma runs_to_step: "runs_to c h opts n s \<Longrightarrow> gateway_step s t \<Longrightarrow> runs_to c h opts n t"
  by (auto simp: runs_to_def)

lemma runs_to_served: "runs_to small_config None [] 1 served"
proof -
  let ?s0 = "begin_run (New small_config None [] 1)"
  have "runs_to small_config None [] 1 ?s0" by (simp add: runs_to_def)
  moreover have "gateway_step ?s0 (Start (Inr True) ?s0)"
    by (rule gateway_step.start) (simp add: served_eval)
  moreover have "gateway_step (Start (Inr True) ?s0) served"
    unfolding served_def by (rule gateway_step.serve) (simp add: served_eval)
  ultimately show ?thesis by (blast intro: runs_to_step)
qed

lemma served_inv: "gateway_inv served"
  using runs_to_served by (rule runs_to_inv)

definition stopping_served :: gateway_run where
  "stopping_served = Stop_enter served"

lemma runs_to_stopping: "runs_to small_config None [] 1 stopping_served"
  unfolding stopping_served_def
  using runs_to_served by (rule runs_to_step) (rule gateway_step.stop_enter, simp add: served_fields)

lemma stopping_fields:
  "stop_at stopping_served = ShuttingDown" "serveDone stopping_served = ServeReturned"
  "gateway.stopping stopping_served" "requests (handlers stopping_served) = [Arriving]"
  by (simp_all add: stopping_served_def Stop_enter_def stop_def served_fields)

definition stopped_served :: gateway_run where
  "stopped_served = (Stop_next no_trouble ^^ 6) stopping_served"

lemma steps_to_stopped: "gateway_step\<^sup>*\<^sup>* stopping_served stopped_served"
proof -
  have "quiet stopping_served"
    using runs_to_inv [OF runs_to_stopping] by (simp add: quiet_def stopping_fields)
  from Stop_next_run [OF this, of 6 no_trouble] show ?thesis
    by (simp add: stopped_served_def stopping_fields del: Stop_next.simps funpow.simps)
qed

lemma runs_to_stopped: "runs_to small_config None [] 1 stopped_served"
  using runs_to_stopping steps_to_stopped by (auto simp: runs_to_def)

lemma stopped_fields:
  "stopped stopped_served" "trace stopped_served = [StopReturned [], CleanedUp None, StartReturned None, Listened]"
  by (simp_all add: stopped_served_def stopping_served_def served_eval numeral_eq_Suc gateway_ops gate_ops
      no_trouble_def)

theorem cleanup_after_drain_witness:
  "CleanedUp None \<in> set (trace stopped_served) \<and> Inside \<notin> set (requests (handlers stopped_served))"
  using cleanup_after_drain [OF runs_to_stopped, of None stopped_served] by (simp add: stopped_fields)

theorem endpoint_made_and_removed_once_witness: "stopped stopped_served \<and> \<not> cleanup stopped_served"
  using endpoint_made_and_removed_once [OF runs_to_stopped] by (simp add: stopped_fields)

theorem Stop_returns_witness: "\<exists>k \<le> 6. stop_at ((Stop_next no_trouble ^^ k) stopping_served) = Outside"
  using Stop_returns [OF runs_to_stopping, of no_trouble] by (auto simp: stopping_fields simp del: Stop_next.simps)

theorem Stop_outcome_witness: "hd (trace ((Stop_next no_trouble ^^ 7) served)) = StopReturned []"
  using Stop_outcome [OF served_inv, of no_trouble]
  unfolding Let_def by (simp add: served_fields no_trouble_def del: Stop_next.simps funpow.simps)

end
