(* ===== verification/Process.thy ===== *)
theory Process
  imports Prelude
begin

text \<open>
  \<open>process/process.go\<close>: how a child's environment is put together, the order in which the
  sinks see the events of a process, and the two sinks of the package. \<open>os/exec\<close> and the
  operating system decide what the child writes and how it ends; the clock is left out.
\<close>

subsection \<open>Events\<close>

datatype stream = StreamStdout | StreamStderr

datatype event_type = EventStarted | EventChunk | EventCompleted | EventFailed | EventCanceled

text \<open>Errors of the context, of \<open>Cmd.Wait\<close> and of \<open>Cmd.Start\<close>.\<close>

datatype proc_error = ContextError nat | WaitError nat | StartError nat | PathRequired

text \<open>\<open>Stream\<close> is the empty string but for chunks; \<open>Err\<close> is a joined error.\<close>

record event =
  Type :: event_type
  Stream :: "stream option"
  Data :: string
  PID :: int
  ExitCode :: int
  Err :: "proc_error list"

definition other_event :: "event_type \<Rightarrow> int \<Rightarrow> int \<Rightarrow> proc_error list \<Rightarrow> event" where
  "other_event t pid code err = \<lparr>Type = t, Stream = None, Data = [], PID = pid, ExitCode = code, Err = err\<rparr>"

definition chunk_event :: "stream \<Rightarrow> string \<Rightarrow> int \<Rightarrow> event" where
  "chunk_event st data pid = \<lparr>Type = EventChunk, Stream = Some st, Data = data, PID = pid, ExitCode = 0, Err = []\<rparr>"

subsection \<open>The environment of the child\<close>

text \<open>\<open>splitEnv\<close>: at the first \<open>=\<close>, if there is one.\<close>

fun splitEnv :: "string \<Rightarrow> (string \<times> string) option" where
  "splitEnv [] = None"
| "splitEnv (c # cs) =
     (if c = CHR ''='' then Some ([], cs)
      else case splitEnv cs of None \<Rightarrow> None | Some (k, v) \<Rightarrow> Some (c # k, v))"

definition replaced :: "(string \<times> string) list \<Rightarrow> string \<Rightarrow> bool" where
  "replaced extra item = (case splitEnv item of None \<Rightarrow> False | Some (k, _) \<Rightarrow> k \<in> fst ` set extra)"

text \<open>\<open>extra\<close> is the Go map, as the list of its entries in the order the iteration takes them.\<close>

definition mergeEnv :: "string list \<Rightarrow> (string \<times> string) list \<Rightarrow> string list" where
  "mergeEnv base extra =
     (if extra = [] then base
      else filter (\<lambda>item. \<not> replaced extra item) base @ map (\<lambda>(k, v). k @ ''='' @ v) extra)"

text \<open>What a program sees of an environment: the last entry of a name counts (as for \<open>os/exec\<close>).\<close>

definition entries :: "string list \<Rightarrow> (string \<times> string) list" where
  "entries env = List.map_filter splitEnv env"

definition getenv :: "string list \<Rightarrow> string \<Rightarrow> string option" where
  "getenv env = map_of (rev (entries env))"

lemma splitEnv_join: "CHR ''='' \<notin> set k \<Longrightarrow> splitEnv (k @ ''='' @ v) = Some (k, v)"
  by (induction k) auto

lemma entries_simps [simp]:
  "entries [] = []"
  "entries (x # xs) = (case splitEnv x of None \<Rightarrow> entries xs | Some e \<Rightarrow> e # entries xs)"
  "entries (xs @ ys) = entries xs @ entries ys"
  by (simp_all add: entries_def List.map_filter_def split: option.split)

lemma entries_joined:
  "\<forall>(k, v) \<in> set extra. CHR ''='' \<notin> set k \<Longrightarrow> entries (map (\<lambda>(k, v). k @ ''='' @ v) extra) = extra"
proof (induction extra)
  case (Cons e extra)
  then show ?case using splitEnv_join [of "fst e" "snd e"] by (cases e) simp
qed simp

lemma entries_kept:
  "entries (filter (\<lambda>item. \<not> replaced extra item) base) = filter (\<lambda>(k, v). k \<notin> fst ` set extra) (entries base)"
  by (induction base) (auto simp: replaced_def split: option.splits)

lemma map_of_rev_distinct: "distinct (map fst xs) \<Longrightarrow> map_of (rev xs) = map_of xs"
  by (subst map_of_inject_set) (simp_all add: rev_map [symmetric])

lemma map_of_filter_fst: "map_of (filter (\<lambda>(k, v). P k) xs) k = (if P k then map_of xs k else None)"
  by (induction xs) auto

subsection \<open>Sinks\<close>

text \<open>\<open>emit\<close>: every sink that is not nil handles the event. A sink is its state and its handler.\<close>

definition emit :: "('s \<Rightarrow> event \<Rightarrow> 's) \<Rightarrow> 's option list \<Rightarrow> event \<Rightarrow> 's option list" where
  "emit handle sinks evt = map (map_option (\<lambda>s. handle s evt)) sinks"

text \<open>\<open>WriterSink\<close> on writers that take what they get: what each of them holds, if it is there.\<close>

record writer_sink =
  Stdout :: "string option"
  Stderr :: "string option"
  Merged :: "string option"

definition write_to :: "string option \<Rightarrow> string \<Rightarrow> string option" where
  "write_to w data = map_option (\<lambda>s. s @ data) w"

definition WriterSink_handle :: "writer_sink \<Rightarrow> event \<Rightarrow> writer_sink" where
  "WriterSink_handle s evt =
     (if Type evt \<noteq> EventChunk then s
      else let s' = s\<lparr>Merged := write_to (Merged s) (Data evt)\<rparr> in
        case Stream evt of
          Some StreamStdout \<Rightarrow> s'\<lparr>Stdout := write_to (Stdout s') (Data evt)\<rparr>
        | Some StreamStderr \<Rightarrow> s'\<lparr>Stderr := write_to (Stderr s') (Data evt)\<rparr>
        | None \<Rightarrow> s')"

record scrollback =
  limit :: int
  buf :: string

definition NewScrollback :: "int \<Rightarrow> scrollback" where
  "NewScrollback l = \<lparr>limit = l, buf = []\<rparr>"

definition Scrollback_handle :: "scrollback \<Rightarrow> event \<Rightarrow> scrollback" where
  "Scrollback_handle s evt =
     (if limit s \<le> 0 \<or> Type evt \<noteq> EventChunk \<or> Data evt = [] then s
      else let b = buf s @ Data evt in
        if int (length b) \<le> limit s then s\<lparr>buf := b\<rparr>
        else s\<lparr>buf := drop (length b - nat (limit s)) b\<rparr>)"

text \<open>\<open>Scrollback.String\<close>, also of a nil receiver.\<close>

definition Scrollback_String :: "scrollback option \<Rightarrow> string" where
  "Scrollback_String s = (case s of None \<Rightarrow> [] | Some sb \<Rightarrow> buf sb)"

text \<open>What the chunks of some events carry, on every stream or on those of a set.\<close>

definition all_output :: "event list \<Rightarrow> string" where
  "all_output evts = concat (map Data (filter (\<lambda>e. Type e = EventChunk) evts))"

definition output_on :: "stream \<Rightarrow> event list \<Rightarrow> string" where
  "output_on st evts = concat (map Data (filter (\<lambda>e. Type e = EventChunk \<and> Stream e = Some st) evts))"

lemma all_output_simps [simp]:
  "all_output [] = []" "all_output (e # es) = (if Type e = EventChunk then Data e @ all_output es else all_output es)"
  "all_output (es @ fs) = all_output es @ all_output fs"
  "output_on st [] = []"
  "output_on st (e # es) = (if Type e = EventChunk \<and> Stream e = Some st then Data e @ output_on st es else output_on st es)"
  "output_on st (es @ fs) = output_on st es @ output_on st fs"
  by (simp_all add: all_output_def output_on_def)

text \<open>A scrollback refines \<open>keep the last bytes\<close>.\<close>

definition keep_last :: "int \<Rightarrow> string \<Rightarrow> event \<Rightarrow> string" where
  "keep_last l b evt = (if Type evt = EventChunk then lastn (nat l) (b @ Data evt) else b)"

definition scrollback_inv :: "int \<Rightarrow> scrollback \<Rightarrow> bool" where
  "scrollback_inv l s \<longleftrightarrow> limit s = l \<and> length (buf s) \<le> nat l"

interpretation scrollback: refined_machine Scrollback_handle "scrollback_inv l" buf "keep_last l" for l
  by unfold_locales
     (auto simp: scrollback_inv_def Scrollback_handle_def keep_last_def lastn_def Let_def nat_le_iff)

lemma keep_last_run: "foldl (keep_last l) (lastn (nat l) b) es = lastn (nat l) (b @ all_output es)"
  by (induction es arbitrary: b) (simp_all add: keep_last_def lastn_lastn_append)

text \<open>The writers of a \<open>WriterSink\<close> refine the plain concatenation of what they are meant for.\<close>

definition appended :: "writer_sink \<Rightarrow> event \<Rightarrow> writer_sink" where
  "appended s evt =
     \<lparr>Stdout = write_to (Stdout s) (output_on StreamStdout [evt]),
      Stderr = write_to (Stderr s) (output_on StreamStderr [evt]),
      Merged = write_to (Merged s) (all_output [evt])\<rparr>"

lemma write_to_simps [simp]: "write_to w [] = w" "write_to (write_to w a) b = write_to w (a @ b)"
  by (cases w; simp add: write_to_def)+

interpretation writer_sink: refined_machine WriterSink_handle "\<lambda>_. True" id appended
  by unfold_locales
     (auto simp: WriterSink_handle_def appended_def Let_def split: option.split stream.split)

lemma appended_run:
  "foldl appended s es =
     \<lparr>Stdout = write_to (Stdout s) (output_on StreamStdout es),
      Stderr = write_to (Stderr s) (output_on StreamStderr es),
      Merged = write_to (Merged s) (all_output es)\<rparr>"
  by (induction es arbitrary: s) (simp_all add: appended_def)

lemma emit_run: "foldl (emit h) sinks es = map (map_option (\<lambda>s. foldl h s es)) sinks"
proof (induction es arbitrary: sinks)
  case Nil
  show ?case by (simp add: option.map_ident cong: map_cong)
qed (simp add: emit_def option.map_comp o_def)

subsection \<open>A process\<close>

text \<open>
  \<open>Start\<close> before \<open>cmd.Start\<close>, after it, after the started event with \<open>outputReady\<close> closed and
  the collecting goroutine begun, or refused. The goroutine waits in \<open>cmd.Wait\<close>, has sent the
  last event, or has closed \<open>done\<close>.
\<close>

datatype start_pc = Starting | Spawned | Running | Refused "proc_error"
datatype collect_pc = NotCollecting | InWait | Emitted | Done

record proc_result =
  result_PID :: int
  result_ExitCode :: int
  Canceled :: bool
  result_Err :: "proc_error list"

text \<open>\<open>to_write st\<close>: the writes of the child on a stream that have not reached \<open>Write\<close> yet.\<close>

record process =
  path :: string
  pid :: int
  start_at :: start_pc
  collect_at :: collect_pc
  to_write :: "stream \<Rightarrow> string list"
  events :: "event list"
  collected :: "proc_result option"
  proc_result :: "proc_result option"

definition new_process :: "string \<Rightarrow> (stream \<Rightarrow> string list) \<Rightarrow> process" where
  "new_process p out =
     \<lparr>path = p, pid = 0, start_at = Starting, collect_at = NotCollecting, to_write = out, events = [],
      collected = None, proc_result = None\<rparr>"

definition send :: "event \<Rightarrow> process \<Rightarrow> process" where
  "send evt s = s\<lparr>events := events s @ [evt]\<rparr>"

text \<open>\<open>Start\<close> up to \<open>cmd.Start\<close>, which fails or gives a process identifier.\<close>

definition Start_spawn :: "(nat, int) result \<Rightarrow> process \<Rightarrow> process" where
  "Start_spawn outcome s =
     (if path s = [] then s\<lparr>start_at := Refused PathRequired\<rparr>
      else case outcome of
        Inl e \<Rightarrow> s\<lparr>start_at := Refused (StartError e)\<rparr>
      | Inr i \<Rightarrow> s\<lparr>start_at := Spawned, pid := i\<rparr>)"

definition Start_announce :: "process \<Rightarrow> process" where
  "Start_announce s = send (other_event EventStarted (pid s) 0 []) s\<lparr>start_at := Running, collect_at := InWait\<rparr>"

text \<open>\<open>processWriter.Write\<close>, once \<open>outputReady\<close> is closed.\<close>

definition write_chunk :: "stream \<Rightarrow> process \<Rightarrow> process" where
  "write_chunk st s =
     (case to_write s st of
        [] \<Rightarrow> s
      | data # rest \<Rightarrow> send (chunk_event st data (pid s)) (s\<lparr>to_write := (to_write s)(st := rest)\<rparr>))"

text \<open>
  \<open>collect\<close> reads \<open>ctx.Err()\<close> twice; the context can end between the two. The exit code is
  \<open>ProcessState.ExitCode()\<close>.
\<close>

definition result_of :: "int \<Rightarrow> nat option \<Rightarrow> nat option \<Rightarrow> nat option \<Rightarrow> int \<Rightarrow> proc_result" where
  "result_of i err ctx1 ctx2 code =
     \<lparr>result_PID = i, result_ExitCode = code, Canceled = (ctx2 \<noteq> None),
      result_Err = (case ctx1 of None \<Rightarrow> [] | Some c \<Rightarrow> [ContextError c]) @ map WaitError (leaves err)\<rparr>"

definition last_type :: "proc_result \<Rightarrow> nat option \<Rightarrow> event_type" where
  "last_type r err =
     (if Canceled r then EventCanceled
      else if err \<noteq> None \<or> result_ExitCode r \<noteq> 0 then EventFailed
      else EventCompleted)"

definition collect_emit :: "nat option \<Rightarrow> nat option \<Rightarrow> nat option \<Rightarrow> int \<Rightarrow> process \<Rightarrow> process" where
  "collect_emit err ctx1 ctx2 code s =
     (let r = result_of (pid s) err ctx1 ctx2 code in
      send (other_event (last_type r err) (result_PID r) (result_ExitCode r) (result_Err r))
        (s\<lparr>collect_at := Emitted, collected := Some r\<rparr>))"

text \<open>\<open>p.result = result\<close> and \<open>close(p.done)\<close>.\<close>

definition collect_close :: "process \<Rightarrow> process" where
  "collect_close s = s\<lparr>collect_at := Done, proc_result := collected s\<rparr>"

text \<open>\<open>Run\<close> on a start that was refused.\<close>

definition Run_refused :: "proc_error \<Rightarrow> process \<Rightarrow> process" where
  "Run_refused e s =
     send (other_event EventFailed 0 (-1) [e])
       (s\<lparr>collect_at := Done,
          proc_result := Some \<lparr>result_PID = 0, result_ExitCode = -1, Canceled = False, result_Err = [e]\<rparr>\<rparr>)"

lemmas process_ops [step_defs] = send_def Start_spawn_def Start_announce_def write_chunk_def collect_emit_def
  collect_close_def Run_refused_def

text \<open>
  The steps of \<open>Run\<close>. \<open>Cmd.Wait\<close> returns after the copying of both streams, whether the child
  ended or its pipes were closed under it: a stream may be cut then, which is a child that
  writes less. A context that ended stays ended.
\<close>

inductive process_step :: "process \<Rightarrow> process \<Rightarrow> bool" where
  spawned: "start_at s = Starting \<Longrightarrow> process_step s (Start_spawn outcome s)"
| announced: "start_at s = Spawned \<Longrightarrow> process_step s (Start_announce s)"
| chunk: "start_at s = Running \<Longrightarrow> to_write s st \<noteq> [] \<Longrightarrow> process_step s (write_chunk st s)"
| last_event: "collect_at s = InWait \<Longrightarrow> \<forall>st. to_write s st = [] \<Longrightarrow> ctx1 = None \<or> ctx2 = ctx1 \<Longrightarrow>
     process_step s (collect_emit err ctx1 ctx2 code s)"
| finish: "collect_at s = Emitted \<Longrightarrow> process_step s (collect_close s)"
| run_refused: "start_at s = Refused e \<Longrightarrow> collect_at s = NotCollecting \<Longrightarrow> process_step s (Run_refused e s)"

subsection \<open>The order of events\<close>

definition is_last :: "event \<Rightarrow> bool" where
  "is_last e \<longleftrightarrow> Type e \<in> {EventCompleted, EventFailed, EventCanceled}"

text \<open>A started event, then chunks, then at most one last event, which goes with the result.\<close>

definition ordered :: "event list \<Rightarrow> event list \<Rightarrow> event list \<Rightarrow> bool" where
  "ordered es chunks fin \<longleftrightarrow>
     (\<exists>e. es = e # chunks @ fin \<and> Type e = EventStarted) \<and> (\<forall>c \<in> set chunks. Type c = EventChunk)
     \<and> length fin \<le> 1 \<and> (\<forall>e \<in> set fin. is_last e)"

definition goes_with :: "event \<Rightarrow> proc_result \<Rightarrow> bool" where
  "goes_with e r \<longleftrightarrow>
     is_last e \<and> PID e = result_PID r \<and> ExitCode e = result_ExitCode r \<and> Err e = result_Err r
     \<and> (Type e = EventCanceled \<longleftrightarrow> Canceled r)
     \<and> (Type e = EventCompleted \<longrightarrow> result_ExitCode r = 0 \<and> result_Err r = [])"

definition process_inv :: "(stream \<Rightarrow> string list) \<Rightarrow> process \<Rightarrow> bool" where
  "process_inv out s \<longleftrightarrow>
     (case start_at s of
        Running \<Rightarrow>
          collect_at s \<noteq> NotCollecting
          \<and> (\<exists>chunks fin. ordered (events s) chunks fin
               \<and> (\<forall>st. output_on st chunks @ concat (to_write s st) = concat (out st))
               \<and> (if collect_at s = InWait then fin = []
                  else \<exists>e r. fin = [e] \<and> collected s = Some r \<and> goes_with e r \<and> (\<forall>st. to_write s st = []))
               \<and> proc_result s = (if collect_at s = Done then collected s else None))
      | Refused e \<Rightarrow>
          collect_at s = NotCollecting \<and> events s = [] \<and> proc_result s = None
          \<or> collect_at s = Done \<and> (\<exists>f r. events s = [f] \<and> proc_result s = Some r \<and> goes_with f r \<and> result_Err r = [e])
      | _ \<Rightarrow> collect_at s = NotCollecting \<and> events s = [] \<and> to_write s = out \<and> proc_result s = None)"

lemma ordered_chunk:
  "ordered es chunks [] \<Longrightarrow> Type c = EventChunk \<Longrightarrow> ordered (es @ [c]) (chunks @ [c]) []"
  by (auto simp: ordered_def)

lemma ordered_last: "ordered es chunks [] \<Longrightarrow> is_last e \<Longrightarrow> ordered (es @ [e]) chunks [e]"
  by (auto simp: ordered_def)

lemma goes_with_result:
  "ctx1 = None \<or> ctx2 = ctx1 \<Longrightarrow>
   goes_with (other_event (last_type (result_of i err ctx1 ctx2 code) err) i code
     (result_Err (result_of i err ctx1 ctx2 code))) (result_of i err ctx1 ctx2 code)"
  by (auto simp: goes_with_def is_last_def other_event_def last_type_def result_of_def leaves_def split: option.splits)

lemma process_step_inv: "process_step s t \<Longrightarrow> process_inv out s \<Longrightarrow> process_inv out t"
proof (induction rule: process_step.induct)
  case (spawned s outcome)
  then show ?case by (auto simp: process_inv_def Start_spawn_def split: sum.split)
next
  case (announced s)
  then have "ordered (events (Start_announce s)) [] []"
    by (simp add: process_inv_def Start_announce_def send_def ordered_def other_event_def)
  with announced show ?case
    by (auto simp: process_inv_def Start_announce_def send_def intro!: exI [of _ "[]"])
next
  case (chunk s st)
  then obtain data rest where w: "to_write s st = data # rest" by (cases "to_write s st") auto
  with chunk obtain chunks where inv: "collect_at s = InWait" "ordered (events s) chunks []"
      "\<forall>st. output_on st chunks @ concat (to_write s st) = concat (out st)" "proc_result s = None"
    by (auto simp: process_inv_def split: if_splits)
  let ?c = "chunk_event st data (pid s)"
  have "ordered (events s @ [?c]) (chunks @ [?c]) []"
    by (rule ordered_chunk [OF inv(2)]) (simp add: chunk_event_def)
  moreover have "output_on st (chunks @ [?c]) @ concat rest = concat (out st)"
    using inv(3) [rule_format, of st] w by (simp add: chunk_event_def)
  moreover have "output_on st' (chunks @ [?c]) @ concat (to_write s st') = concat (out st')" if "st' \<noteq> st" for st'
    using inv(3) [rule_format, of st'] that by (simp add: chunk_event_def)
  ultimately show ?case
    using chunk(1) inv(1,4) w
    by (auto simp: process_inv_def write_chunk_def send_def simp del: all_output_simps
        intro!: exI [of _ "chunks @ [?c]"])
next
  case (last_event s ctx1 ctx2 err code)
  then have "start_at s = Running" by (auto simp: process_inv_def split: start_pc.splits)
  with last_event obtain chunks where inv: "ordered (events s) chunks []"
      "\<forall>st. output_on st chunks @ concat (to_write s st) = concat (out st)" "proc_result s = None"
    by (auto simp: process_inv_def)
  let ?r = "result_of (pid s) err ctx1 ctx2 code"
  let ?e = "other_event (last_type ?r err) (result_PID ?r) (result_ExitCode ?r) (result_Err ?r)"
  have g: "goes_with ?e ?r"
    using goes_with_result [OF last_event(3), of "pid s" err code] by (simp add: result_of_def)
  then have "is_last ?e" by (simp add: goes_with_def)
  with inv(1) have "ordered (events s @ [?e]) chunks [?e]" by (rule ordered_last)
  with g show ?case
    using \<open>start_at s = Running\<close> inv last_event(2)
    by (simp add: process_inv_def collect_emit_def send_def Let_def) blast
next
  case (finish s)
  then have "start_at s = Running" by (auto simp: process_inv_def split: start_pc.splits)
  with finish show ?case by (auto simp: process_inv_def collect_close_def)
next
  case (run_refused s e)
  then show ?case
    by (auto simp: process_inv_def Run_refused_def send_def goes_with_def is_last_def other_event_def)
qed

interpretation process: concurrent_machine process_step "process_inv out" for out
  by unfold_locales (rule process_step_inv)

lemma process_inv_reachable: "process_step\<^sup>*\<^sup>* (new_process p out) s \<Longrightarrow> process_inv out s"
  by (erule process.steps_inv) (simp add: process_inv_def new_process_def)

subsection \<open>The contract\<close>

text \<open>
  C29 (functional): with \<open>extra\<close> entries of distinct names without an equals sign, the child sees
  exactly the base environment updated by \<open>extra\<close>, in whatever order the map is iterated, and
  every other entry of the base is passed on as it was and in its order.
\<close>

theorem mergeEnv_updates:
  assumes "distinct (map fst extra)" and "\<forall>(k, v) \<in> set extra. CHR ''='' \<notin> set k"
  shows "getenv (mergeEnv base extra) = getenv base ++ map_of extra
       \<and> (\<exists>rest. mergeEnv base extra = filter (\<lambda>item. \<not> replaced extra item) base @ rest \<and> length rest = length extra)"
proof -
  have "getenv (mergeEnv base extra) k = (getenv base ++ map_of extra) k" for k
  proof (cases "extra = []")
    case False
    have "entries (mergeEnv base extra) = filter (\<lambda>(k, v). k \<notin> fst ` set extra) (entries base) @ extra"
      using False entries_joined [OF assms(2)] by (simp add: mergeEnv_def entries_kept del: entries_simps(2))
    moreover have "k \<in> fst ` set extra \<longleftrightarrow> map_of extra k \<noteq> None" by (simp add: map_of_eq_None_iff)
    ultimately show ?thesis using map_of_rev_distinct [OF assms(1)]
      by (simp add: getenv_def rev_filter map_of_filter_fst [of "\<lambda>k. k \<notin> fst ` set extra"] map_add_def
          split: option.split del: not_None_eq)
  qed (simp add: mergeEnv_def)
  moreover have "filter (\<lambda>item. \<not> replaced [] item) base = base"
    by (simp add: replaced_def split: option.split)
  ultimately show ?thesis by (auto simp: mergeEnv_def)
qed

text \<open>
  C20 (safety): the sinks see a started event, then the chunks, then at most one last event. What
  the chunks of a stream carry so far, with what is still to be written, is the child's output on
  that stream. A result is there only after a last event that agrees with it, and by then all
  output was seen.
\<close>

theorem events_ordered:
  assumes "process_step\<^sup>*\<^sup>* (new_process p out) s" and "start_at s = Running"
  shows "\<exists>chunks fin. ordered (events s) chunks fin
      \<and> (\<forall>st. output_on st chunks @ concat (to_write s st) = concat (out st))
      \<and> (\<forall>r. proc_result s = Some r \<longrightarrow>
            (\<forall>st. output_on st chunks = concat (out st)) \<and> (\<exists>e. fin = [e] \<and> goes_with e r))"
proof -
  from process_inv_reachable [OF assms(1)] assms(2) obtain chunks fin where
    inv: "ordered (events s) chunks fin"
      "\<forall>st. output_on st chunks @ concat (to_write s st) = concat (out st)"
      "if collect_at s = InWait then fin = []
       else \<exists>e r. fin = [e] \<and> collected s = Some r \<and> goes_with e r \<and> (\<forall>st. to_write s st = [])"
      "proc_result s = (if collect_at s = Done then collected s else None)"
    by (auto simp: process_inv_def)
  have "(\<forall>st. output_on st chunks = concat (out st)) \<and> (\<exists>e. fin = [e] \<and> goes_with e r)"
    if "proc_result s = Some r" for r
    using that inv(2-4) by (auto split: if_splits)
  with inv(1,2) show ?thesis by blast
qed

text \<open>
  C30 (refinement): after a run, a \<open>Scrollback\<close> holds exactly the last bytes of everything that
  was sent, at most its limit, and the writers of a \<open>WriterSink\<close> got the complete output of their
  stream, whatever other sinks there are.
\<close>

theorem sinks_complete:
  assumes "process_step\<^sup>*\<^sup>* (new_process p out) s" and "start_at s = Running" and "proc_result s = Some r"
  shows "buf (foldl Scrollback_handle (NewScrollback l) (events s)) = lastn (nat l) (all_output (events s))
    \<and> foldl (emit WriterSink_handle) [None, Some ws] (events s)
       = [None, Some \<lparr>Stdout = write_to (Stdout ws) (concat (out StreamStdout)),
                      Stderr = write_to (Stderr ws) (concat (out StreamStderr)),
                      Merged = write_to (Merged ws) (all_output (events s))\<rparr>]"
proof
  have "scrollback_inv l (NewScrollback l)" by (simp add: scrollback_inv_def NewScrollback_def)
  from scrollback.run_refines [OF this, of "events s"] keep_last_run [of l "[]" "events s"]
  show "buf (foldl Scrollback_handle (NewScrollback l) (events s)) = lastn (nat l) (all_output (events s))"
    by (simp add: NewScrollback_def)
  from process_inv_reachable [OF assms(1)] assms(2,3) obtain chunks fin where
    "ordered (events s) chunks fin" "\<forall>st. output_on st chunks = concat (out st)" "\<exists>e. fin = [e] \<and> is_last e"
    by (auto simp: process_inv_def goes_with_def split: if_splits)
  then have "output_on st (events s) = concat (out st)" for st
    by (auto simp: ordered_def is_last_def)
  then show "foldl (emit WriterSink_handle) [None, Some ws] (events s)
       = [None, Some \<lparr>Stdout = write_to (Stdout ws) (concat (out StreamStdout)),
                      Stderr = write_to (Stderr ws) (concat (out StreamStderr)),
                      Merged = write_to (Merged ws) (all_output (events s))\<rparr>]"
    using writer_sink.run_refines [of ws "events s"] by (simp add: emit_run appended_run)
qed

text \<open>
  The two readings of \<open>ctx.Err()\<close> in \<open>collect\<close> can differ: a process that ended well while its
  context ended between them is reported as canceled, with no error in its result.
\<close>

definition one_write :: "stream \<Rightarrow> string list" where
  "one_write st = (if st = StreamStdout then [''hello''] else [])"

definition written :: process where
  "written = write_chunk StreamStdout (Start_announce (Start_spawn (Inr 7) (new_process ''/bin/echo'' one_write)))"

definition ended :: "nat option \<Rightarrow> process" where
  "ended ctx2 = collect_close (collect_emit None None ctx2 0 written)"

lemmas written_eval = written_def new_process_def one_write_def process_ops other_event_def chunk_event_def
  result_of_def last_type_def Let_def

lemma reach_ended: "process_step\<^sup>*\<^sup>* (new_process ''/bin/echo'' one_write) (ended ctx2)"
proof -
  let ?s0 = "new_process ''/bin/echo'' one_write"
  let ?s1 = "Start_spawn (Inr 7) ?s0"
  let ?s2 = "Start_announce ?s1"
  let ?s4 = "collect_emit None None ctx2 0 written"
  have "process_step ?s0 ?s1" by (rule process_step.spawned) (simp add: written_eval)
  moreover have "process_step ?s1 ?s2" by (rule process_step.announced) (simp add: written_eval)
  moreover have "process_step ?s2 written"
    unfolding written_def by (rule process_step.chunk) (simp_all add: written_eval)
  moreover have "process_step written ?s4" by (rule process_step.last_event) (simp_all add: written_eval)
  moreover have "process_step ?s4 (ended ctx2)"
    unfolding ended_def by (rule process_step.finish) (simp add: written_eval)
  ultimately show ?thesis by (meson converse_rtranclp_into_rtranclp rtranclp.rtrancl_refl)
qed

lemma ended_fields:
  "start_at (ended None) = Running"
  "proc_result (ended ctx2) =
     Some \<lparr>result_PID = 7, result_ExitCode = 0, Canceled = (ctx2 \<noteq> None), result_Err = []\<rparr>"
  "events (ended None) =
     [other_event EventStarted 7 0 [], chunk_event StreamStdout ''hello'' 7, other_event EventCompleted 7 0 []]"
  by (simp_all add: ended_def written_eval Let_def)

lemma canceled_without_error:
  "\<exists>s r. process_step\<^sup>*\<^sup>* (new_process ''/bin/echo'' one_write) s
       \<and> proc_result s = Some r \<and> Canceled r \<and> result_Err r = []"
  using reach_ended [of "Some 1"] ended_fields(2) [of "Some 1"] by force

subsection \<open>Witnesses\<close>

theorem mergeEnv_updates_witness:
  "getenv (mergeEnv [''A=1'', ''PATH=/bin'', ''A=2''] [(''A'', ''3=4'')]) ''A'' = Some ''3=4''
   \<and> getenv (mergeEnv [''A=1'', ''PATH=/bin'', ''A=2''] [(''A'', ''3=4'')]) ''PATH'' = Some ''/bin''"
  using mergeEnv_updates [of "[(''A'', ''3=4'')]" "[''A=1'', ''PATH=/bin'', ''A=2'']"]
  by (simp add: getenv_def)

theorem events_ordered_witness:
  "\<exists>chunks e. ordered (events (ended None)) chunks [e] \<and> output_on StreamStdout chunks = ''hello''
     \<and> Type e \<noteq> EventCanceled"
proof -
  from events_ordered [OF reach_ended ended_fields(1)] ended_fields(2) [of None] obtain chunks e where
    "ordered (events (ended None)) chunks [e]" "\<forall>st. output_on st chunks = concat (one_write st)"
    "goes_with e \<lparr>result_PID = 7, result_ExitCode = 0, Canceled = False, result_Err = []\<rparr>"
    by auto
  then show ?thesis by (intro exI [of _ chunks] exI [of _ e]) (simp add: one_write_def goes_with_def)
qed

theorem sinks_complete_witness:
  "buf (foldl Scrollback_handle (NewScrollback 3) (events (ended None))) = ''llo''"
  using sinks_complete [OF reach_ended ended_fields(1,2), of 3 undefined]
  by (simp add: ended_fields(3) other_event_def chunk_event_def lastn_def)

end
