(* ===== verification/EventBus.thy ===== *)
theory EventBus
  imports Prelude "HOL-Library.Sublist"
begin

text \<open>
  \<open>Broker\<close> of \<open>eventbus/eventbus.go\<close>. \<open>Publish\<close> holds the read lock, so calls of it overlap with
  each other and with receivers, send by send; \<open>Subscribe\<close> and the unsubscribe function hold the
  write lock. A subscriber is the number of its channel. Sending on a closed channel and closing
  one twice panic in Go: here they set \<open>panicked\<close>.
\<close>

subsection \<open>State\<close>

definition defaultBufferSize :: int where "defaultBufferSize = 32"

text \<open>
  A channel, whether the \<open>sync.Once\<close> of its unsubscribe function was used, and its history: what
  was offered to it, what it took and what was received.
\<close>

record 'a channel =
  capacity :: nat
  queue :: "'a list"
  chan_closed :: bool
  once_done :: bool
  offered :: "'a list"
  taken :: "'a list"
  received :: "'a list"

text \<open>A call of \<open>Publish\<close>: its event and the subscribers its loop has not come to.\<close>

type_synonym 'a publishing = "'a \<times> nat list"

record 'a broker =
  channels :: "'a channel list"
  subscribers :: "nat set"
  publishing :: "'a publishing list"
  panicked :: bool

definition NewBroker :: "'a broker" where
  "NewBroker = \<lparr>channels = [], subscribers = {}, publishing = [], panicked = False\<rparr>"

subsection \<open>Operations\<close>

definition make_channel :: "int \<Rightarrow> 'a channel" where
  "make_channel n =
     \<lparr>capacity = nat (if n \<le> 0 then defaultBufferSize else n), queue = [], chan_closed = False,
      once_done = False, offered = [], taken = [], received = []\<rparr>"

definition Subscribe :: "int \<Rightarrow> 'a broker \<Rightarrow> 'a broker" where
  "Subscribe n b =
     b\<lparr>channels := channels b @ [make_channel n], subscribers := insert (length (channels b)) (subscribers b)\<rparr>"

text \<open>The \<open>select\<close> with a default: send if there is room, else drop.\<close>

definition offer :: "'a \<Rightarrow> 'a channel \<Rightarrow> 'a channel" where
  "offer evt c =
     (let c' = c\<lparr>offered := offered c @ [evt]\<rparr> in
      if length (queue c) < capacity c then c'\<lparr>queue := queue c @ [evt], taken := taken c @ [evt]\<rparr> else c')"

definition try_send :: "'a \<Rightarrow> nat \<Rightarrow> 'a broker \<Rightarrow> 'a broker" where
  "try_send evt ch b =
     (if chan_closed (channels b ! ch) then b\<lparr>panicked := True\<rparr>
      else b\<lparr>channels := (channels b)[ch := offer evt (channels b ! ch)]\<rparr>)"

definition Publish_begin :: "'a \<Rightarrow> nat list \<Rightarrow> 'a broker \<Rightarrow> 'a broker" where
  "Publish_begin evt order b = b\<lparr>publishing := publishing b @ [(evt, order)]\<rparr>"

text \<open>The next pass of the loop of call \<open>p\<close>, or its end.\<close>

definition Publish_next :: "nat \<Rightarrow> 'a broker \<Rightarrow> 'a broker" where
  "Publish_next p b =
     (case publishing b ! p of
        (evt, ch # rest) \<Rightarrow> try_send evt ch (b\<lparr>publishing := (publishing b)[p := (evt, rest)]\<rparr>)
      | (evt, []) \<Rightarrow> b\<lparr>publishing := take p (publishing b) @ drop (Suc p) (publishing b)\<rparr>)"

text \<open>The whole of \<open>Publish\<close> when nothing else runs.\<close>

definition Publish :: "'a \<Rightarrow> nat list \<Rightarrow> 'a broker \<Rightarrow> 'a broker" where
  "Publish evt order b = foldl (\<lambda>b ch. try_send evt ch b) b order"

definition unsubscribe :: "nat \<Rightarrow> 'a broker \<Rightarrow> 'a broker" where
  "unsubscribe ch b =
     (let c = channels b ! ch in
      if once_done c then b
      else b\<lparr>subscribers := subscribers b - {ch},
             channels := (channels b)[ch := c\<lparr>once_done := True, chan_closed := True\<rparr>],
             panicked := (panicked b \<or> chan_closed c)\<rparr>)"

definition receive :: "nat \<Rightarrow> 'a broker \<Rightarrow> 'a broker" where
  "receive ch b =
     (let c = channels b ! ch in
      case queue c of
        [] \<Rightarrow> b
      | x # q \<Rightarrow> b\<lparr>channels := (channels b)[ch := c\<lparr>queue := q, received := received c @ [x]\<rparr>]\<rparr>)"

lemmas broker_ops [step_defs] = Subscribe_def make_channel_def offer_def try_send_def Publish_begin_def
  Publish_next_def unsubscribe_def receive_def

subsection \<open>Steps\<close>

text \<open>The write lock is free when no call of \<open>Publish\<close> is in its loop.\<close>

inductive broker_step :: "'a broker \<Rightarrow> 'a broker \<Rightarrow> bool" where
  subscribe: "publishing b = [] \<Longrightarrow> broker_step b (Subscribe n b)"
| publish: "distinct order \<Longrightarrow> set order = subscribers b \<Longrightarrow> broker_step b (Publish_begin evt order b)"
| send: "p < length (publishing b) \<Longrightarrow> broker_step b (Publish_next p b)"
| unsubscribe: "publishing b = [] \<Longrightarrow> ch < length (channels b) \<Longrightarrow> broker_step b (unsubscribe ch b)"
| receive: "ch < length (channels b) \<Longrightarrow> broker_step b (receive ch b)"

subsection \<open>Invariant\<close>

definition channel_ok :: "'a channel \<Rightarrow> bool" where
  "channel_ok c \<longleftrightarrow>
     0 < capacity c \<and> length (queue c) \<le> capacity c \<and> (chan_closed c \<longleftrightarrow> once_done c)
     \<and> taken c = received c @ queue c \<and> subseq (taken c) (offered c)"

definition broker_inv :: "'a broker \<Rightarrow> bool" where
  "broker_inv b \<longleftrightarrow>
     \<not> panicked b \<and> (\<forall>c \<in> set (channels b). channel_ok c)
     \<and> (\<forall>ch \<in> subscribers b. ch < length (channels b) \<and> \<not> chan_closed (channels b ! ch))
     \<and> (\<forall>(evt, order) \<in> set (publishing b). set order \<subseteq> subscribers b)"

lemma channel_ok_make [simp]: "channel_ok (make_channel n)"
  by (simp add: channel_ok_def make_channel_def defaultBufferSize_def)

lemma channel_ok_offer [simp]: "channel_ok c \<Longrightarrow> channel_ok (offer evt c)"
  using subseq_append [of "received c @ queue c" "[evt]" "offered c"]
  by (auto simp: channel_ok_def offer_def Let_def)

lemma broker_update:
  assumes "broker_inv b" and "channel_ok c" and "ch < length (channels b)"
    and "ch \<in> subscribers b \<longrightarrow> \<not> chan_closed c"
  shows "broker_inv (b\<lparr>channels := (channels b)[ch := c]\<rparr>)"
  using assms
  by (auto simp: broker_inv_def nth_list_update dest!: set_update_subset_insert [THEN subsetD])

lemma broker_channel: "broker_inv b \<Longrightarrow> ch < length (channels b) \<Longrightarrow> channel_ok (channels b ! ch)"
  by (simp add: broker_inv_def)

lemma broker_subscriber:
  "broker_inv b \<Longrightarrow> ch \<in> subscribers b \<Longrightarrow> ch < length (channels b) \<and> \<not> chan_closed (channels b ! ch)"
  by (simp add: broker_inv_def)

lemma offer_fields [simp]:
  "chan_closed (offer evt c) = chan_closed c" "once_done (offer evt c) = once_done c" "capacity (offer evt c) = capacity c"
  by (simp_all add: offer_def Let_def)

lemma try_send_inv: "broker_inv b \<Longrightarrow> ch \<in> subscribers b \<Longrightarrow> broker_inv (try_send evt ch b)"
  using broker_subscriber [of b ch] broker_channel [of b ch] by (simp add: try_send_def broker_update)

lemma publishing_inv: "broker_inv b \<Longrightarrow> \<forall>(evt, order) \<in> set ps. set order \<subseteq> subscribers b \<Longrightarrow> broker_inv (b\<lparr>publishing := ps\<rparr>)"
  by (simp add: broker_inv_def)

lemma broker_step_inv: "broker_step b b' \<Longrightarrow> broker_inv b \<Longrightarrow> broker_inv b'"
proof (induction rule: broker_step.induct)
  case (subscribe b n)
  then show ?case by (auto simp: broker_inv_def Subscribe_def nth_append) (auto simp: make_channel_def)
next
  case (publish order b evt)
  then show ?case by (auto simp: broker_inv_def Publish_begin_def)
next
  case (send p b)
  obtain evt order where p: "publishing b ! p = (evt, order)" by (cases "publishing b ! p")
  with send have mem: "(evt, order) \<in> set (publishing b)" by (metis nth_mem)
  with send(2) have sub: "set order \<subseteq> subscribers b" by (auto simp: broker_inv_def)
  show ?case
  proof (cases order)
    case Nil
    have "set (take p (publishing b) @ drop (Suc p) (publishing b)) \<subseteq> set (publishing b)"
      by (auto dest: in_set_takeD in_set_dropD)
    with send(2) have "\<forall>(evt, order) \<in> set (take p (publishing b) @ drop (Suc p) (publishing b)). set order \<subseteq> subscribers b"
      unfolding broker_inv_def by blast
    with Nil p send(2) show ?thesis by (simp add: Publish_next_def publishing_inv)
  next
    case (Cons ch rest)
    have "\<forall>(evt, order) \<in> set ((publishing b)[p := (evt, rest)]). set order \<subseteq> subscribers b"
      using send(2) sub Cons
      by (auto simp: broker_inv_def dest!: set_update_subset_insert [THEN subsetD])
    with send(2) have "broker_inv (b\<lparr>publishing := (publishing b)[p := (evt, rest)]\<rparr>)" by (rule publishing_inv)
    from try_send_inv [OF this, of ch evt] Cons sub p show ?thesis by (simp add: Publish_next_def)
  qed
next
  case (unsubscribe b ch)
  note ok = broker_channel [OF unsubscribe(3,2)]
  let ?c = "(channels b ! ch)\<lparr>once_done := True, chan_closed := True\<rparr>"
  have "broker_inv (b\<lparr>subscribers := subscribers b - {ch}\<rparr>)"
    using unsubscribe(1,3) by (auto simp: broker_inv_def)
  moreover from ok have "channel_ok ?c" by (auto simp: channel_ok_def)
  ultimately have inv: "broker_inv (b\<lparr>subscribers := subscribers b - {ch}, channels := (channels b)[ch := ?c]\<rparr>)"
    using broker_update [of "b\<lparr>subscribers := subscribers b - {ch}\<rparr>" ?c ch] unsubscribe(2) by simp
  have "unsubscribe ch b = b\<lparr>subscribers := subscribers b - {ch}, channels := (channels b)[ch := ?c]\<rparr>"
    if "\<not> once_done (channels b ! ch)"
    using that ok by (intro broker.equality) (simp_all add: unsubscribe_def Let_def channel_ok_def)
  with inv unsubscribe(3) show ?case
    by (cases "once_done (channels b ! ch)") (simp_all add: unsubscribe_def Let_def)
next
  case (receive ch b)
  note ok = broker_channel [OF receive(2,1)]
  show ?case
  proof (cases "queue (channels b ! ch)")
    case (Cons x q)
    with ok have "channel_ok ((channels b ! ch)\<lparr>queue := q, received := received (channels b ! ch) @ [x]\<rparr>)"
      by (simp add: channel_ok_def) metis
    with broker_update [OF receive(2) this receive(1)] broker_subscriber [OF receive(2), of ch] Cons
    show ?thesis by (simp add: receive_def Let_def)
  qed (use receive in \<open>simp add: receive_def Let_def\<close>)
qed

interpretation broker: concurrent_machine broker_step broker_inv
  by unfold_locales (rule broker_step_inv)

lemma broker_reachable: "broker_step\<^sup>*\<^sup>* NewBroker b \<Longrightarrow> broker_inv b"
  by (erule broker.steps_inv) (simp add: broker_inv_def NewBroker_def)

subsection \<open>The contract\<close>

text \<open>
  C21 (safety): however publishers, subscribers and receivers interleave, nothing is sent on a
  closed channel and no channel is closed twice; no buffer grows beyond its size; and what a
  subscriber has received, followed by what is buffered for it, is a subsequence of the events
  offered to it, in their order.
\<close>

theorem broker_safe:
  assumes "broker_step\<^sup>*\<^sup>* NewBroker b"
  shows "\<not> panicked b
    \<and> list_all (\<lambda>c. length (queue c) \<le> capacity c \<and> subseq (received c @ queue c) (offered c)) (channels b)"
  using broker_reachable [OF assms] by (auto simp: broker_inv_def channel_ok_def list_all_iff)

lemma Publish_frame:
  assumes "broker_inv b" and "distinct order" and "set order \<subseteq> subscribers b"
  shows "broker_inv (Publish evt order b) \<and> subscribers (Publish evt order b) = subscribers b
    \<and> length (channels (Publish evt order b)) = length (channels b)
    \<and> (\<forall>ch < length (channels b). channels (Publish evt order b) ! ch =
          (if ch \<in> set order then offer evt (channels b ! ch) else channels b ! ch))"
  using assms
proof (induction order arbitrary: b)
  case (Cons c order)
  let ?b = "try_send evt c b"
  have c: "c < length (channels b)" "\<not> chan_closed (channels b ! c)"
    using broker_subscriber [OF Cons.prems(1), of c] Cons.prems(3) by auto
  have "subscribers ?b = subscribers b" "length (channels ?b) = length (channels b)"
    "channels ?b = (channels b)[c := offer evt (channels b ! c)]"
    using c by (simp_all add: try_send_def)
  with Cons.IH [of ?b] try_send_inv [OF Cons.prems(1), of c evt] Cons.prems c(1) show ?case
    by (auto simp: Publish_def nth_list_update)
qed (simp add: Publish_def)

text \<open>
  A call of \<open>Publish\<close> appends the event for every subscriber whose buffer has
  room and changes nothing else that a receiver can see, whatever order the map gives the
  subscribers in: slow subscribers drop the event, and never hold up the call.
\<close>

lemma Publish_best_effort:
  assumes "broker_step\<^sup>*\<^sup>* NewBroker b" and "distinct order" and "set order = subscribers b"
    and "ch < length (channels b)"
  shows "queue (channels (Publish evt order b) ! ch) =
           (if ch \<in> subscribers b \<and> length (queue (channels b ! ch)) < capacity (channels b ! ch)
            then queue (channels b ! ch) @ [evt] else queue (channels b ! ch))
       \<and> subscribers (Publish evt order b) = subscribers b
       \<and> (distinct order' \<and> set order' = subscribers b \<longrightarrow>
            channels (Publish evt order' b) = channels (Publish evt order b))"
proof -
  note inv = broker_reachable [OF assms(1)]
  from Publish_frame [OF inv assms(2), of evt] assms(3,4)
  have "queue (channels (Publish evt order b) ! ch) =
           (if ch \<in> subscribers b \<and> length (queue (channels b ! ch)) < capacity (channels b ! ch)
            then queue (channels b ! ch) @ [evt] else queue (channels b ! ch))
       \<and> subscribers (Publish evt order b) = subscribers b"
    by (auto simp: offer_def Let_def)
  moreover have "channels (Publish evt order' b) = channels (Publish evt order b)"
    if "distinct order'" "set order' = subscribers b"
    using Publish_frame [OF inv assms(2), of evt] Publish_frame [OF inv that(1), of evt] that(2) assms(3)
    by (auto intro: nth_equalityI)
  ultimately show ?thesis by blast
qed

subsection \<open>Publishers\<close>

text \<open>
  What the publishers of the package do with one event. \<open>marshal\<close> is \<open>json.Marshal\<close> of the event
  type, \<open>None\<close> when it fails; a writer is its state and what a write makes of it, with whether it
  failed. An encoder that failed to write once never writes again.
\<close>

definition NoopPublisher :: "'a \<Rightarrow> 's \<Rightarrow> 's" where
  "NoopPublisher evt s = s"

definition BrokerPublisher :: "'a \<Rightarrow> nat list \<Rightarrow> 'a broker option \<Rightarrow> 'a broker option" where
  "BrokerPublisher evt order b = (case b of None \<Rightarrow> NoopPublisher evt None | Some b' \<Rightarrow> Some (Publish evt order b'))"

record 'w json_encoder =
  writer :: "'w option"
  enc_failed :: bool

definition new_encoder :: "'w option \<Rightarrow> 'w json_encoder" where
  "new_encoder w = \<lparr>writer = w, enc_failed = False\<rparr>"

definition newline :: char where "newline = CHR 0x0A"

definition JSONPublisher ::
  "('a \<Rightarrow> string option) \<Rightarrow> ('w \<Rightarrow> string \<Rightarrow> bool \<times> 'w) \<Rightarrow> 'a \<Rightarrow> 'w json_encoder \<Rightarrow> 'w json_encoder"
where
  "JSONPublisher marshal write evt enc =
     (case writer enc of
        None \<Rightarrow> NoopPublisher evt enc
      | Some w \<Rightarrow>
          if enc_failed enc then enc
          else case marshal evt of
            None \<Rightarrow> enc
          | Some bs \<Rightarrow>
              (case write w (bs @ [newline]) of (failed, w') \<Rightarrow> enc\<lparr>writer := Some w', enc_failed := failed\<rparr>))"

text \<open>The lines of a text that ends every line, and the encodings that there are.\<close>

fun text_lines :: "string \<Rightarrow> string list" where
  "text_lines [] = []"
| "text_lines (c # cs) =
     (if c = newline then [] # text_lines cs
      else case text_lines cs of [] \<Rightarrow> [[c]] | l # ls \<Rightarrow> (c # l) # ls)"

lemma text_lines_append: "newline \<notin> set l \<Longrightarrow> text_lines (l @ newline # cs) = l # text_lines cs"
  by (induction l) auto

lemma text_lines_join: "\<forall>l \<in> set ls. newline \<notin> set l \<Longrightarrow> text_lines (concat (map (\<lambda>l. l @ [newline]) ls)) = ls"
  by (induction ls) (auto simp: text_lines_append)

text \<open>
  To a writer that takes everything, \<open>JSONPublisher\<close> writes one line per event that has an
  encoding, in the order of the calls: reading the lines gives the encodings back.
\<close>

lemma JSONPublisher_lines:
  assumes "\<And>w bs. write w bs = (False, w @ bs)" and "\<And>e bs. marshal e = Some bs \<Longrightarrow> newline \<notin> set bs"
  shows "\<exists>w. foldl (\<lambda>enc e. JSONPublisher marshal write e enc) (new_encoder (Some [])) evts
             = \<lparr>writer = Some w, enc_failed = False\<rparr>
           \<and> text_lines w = List.map_filter marshal evts"
proof -
  have run: "foldl (\<lambda>enc e. JSONPublisher marshal write e enc) \<lparr>writer = Some w, enc_failed = False\<rparr> evts
      = \<lparr>writer = Some (w @ concat (map (\<lambda>l. l @ [newline]) (List.map_filter marshal evts))), enc_failed = False\<rparr>" for w
    by (induction evts arbitrary: w)
       (simp_all add: JSONPublisher_def assms(1) List.map_filter_def split: option.split)
  have "\<forall>l \<in> set (List.map_filter marshal evts). newline \<notin> set l"
    using assms(2) by (auto simp: List.map_filter_def)
  with run [of "[]"] text_lines_join show ?thesis by (simp add: new_encoder_def)
qed

subsection \<open>Witnesses\<close>

text \<open>A subscriber with a buffer of one event, and another that unsubscribed.\<close>

definition two_channels :: "nat broker" where
  "two_channels = unsubscribe 1 (Subscribe 0 (Subscribe 1 NewBroker))"

lemma reach_two_channels: "broker_step\<^sup>*\<^sup>* NewBroker two_channels"
proof -
  let ?b1 = "Subscribe 1 NewBroker" and ?b2 = "Subscribe 0 (Subscribe 1 NewBroker)"
  note eval = NewBroker_def Subscribe_def
  have "broker_step NewBroker ?b1" by (rule broker_step.subscribe) (simp add: eval)
  moreover have "broker_step ?b1 ?b2" by (rule broker_step.subscribe) (simp add: eval)
  moreover have "broker_step ?b2 two_channels"
    unfolding two_channels_def by (rule broker_step.unsubscribe) (simp_all add: eval)
  ultimately show ?thesis by (meson converse_rtranclp_into_rtranclp rtranclp.rtrancl_refl)
qed

lemma two_channels_fields:
  "subscribers two_channels = {0}" "length (channels two_channels) = 2"
  "channels two_channels ! 0 = make_channel 1"
  by (auto simp: two_channels_def NewBroker_def broker_ops Let_def)

theorem broker_safe_witness: "\<not> panicked two_channels"
  using broker_safe [OF reach_two_channels] by blast

end
