(* ===== verification/SqlStore.thy ===== *)
theory SqlStore
  imports Prelude
begin

text \<open>
  The database stores of \<open>sqlite/sqlite.go\<close> and \<open>postgres/postgres.go\<close>: \<open>runMigrations\<close>, and
  the life cycle of the database handle through \<open>Start\<close>, \<open>Stop\<close> and the goroutine that closes
  it. Calls overlap: one rule of the step relation is one critical section of the mutex, or one
  call into \<open>database/sql\<close> between two of them, whose answer is the environment's.
\<close>

subsection \<open>Configuration\<close>

datatype driver = Sqlite | Postgres

record store_config =
  driver :: driver
  DSN :: string
  Migrations :: "string list"
  MaxOpenConns :: int
  MaxIdleConns :: int
  MaxIdleTime :: int

definition memory_DSN :: string where "memory_DSN = '':memory:''"

text \<open>\<open>New\<close>: SQLite fills in an in-memory database with one connection.\<close>

definition New_config :: "store_config \<Rightarrow> store_config" where
  "New_config c =
     (case driver c of
        Sqlite \<Rightarrow> c\<lparr>DSN := (if DSN c = [] then memory_DSN else DSN c),
                    MaxOpenConns := (if MaxOpenConns c = 0 then 1 else MaxOpenConns c)\<rparr>
      | Postgres \<Rightarrow> c)"

datatype db_error = DBError nat

datatype store_error =
    MemoryNeedsOneConnection | DSNRequired | AlreadyStarted | ShutdownInProgress
  | PreviousShutdown db_error | OpenFailed db_error | PrepareFailed db_error | CloseAfterStart db_error
  | CloseFailed db_error | ContextEnded

text \<open>The test of the configuration at the head of \<open>Start\<close>.\<close>

definition precheck :: "store_config \<Rightarrow> store_error option" where
  "precheck c =
     (case driver c of
        Sqlite \<Rightarrow> if DSN c = memory_DSN \<and> (MaxOpenConns c \<noteq> 1 \<or> MaxIdleTime c > 0)
                  then Some MemoryNeedsOneConnection else None
      | Postgres \<Rightarrow> if DSN c = [] then Some DSNRequired else None)"

subsection \<open>The pool\<close>

text \<open>
  The limits that \<open>Start\<close> passes on, and the pool of \<open>database/sql\<close> they configure: it keeps two
  idle connections at first, never more than it may have open, and 0 means no limit for the open
  connections and for the time a connection may be idle.
\<close>

datatype pool_setting = SetMaxOpenConns int | SetMaxIdleConns int | SetConnMaxIdleTime int

definition pool_settings :: "store_config \<Rightarrow> pool_setting list" where
  "pool_settings c =
     (if MaxOpenConns c > 0 then [SetMaxOpenConns (MaxOpenConns c)] else [])
     @ (if MaxIdleConns c > 0 then [SetMaxIdleConns (MaxIdleConns c)] else [])
     @ (if MaxIdleTime c > 0 then [SetConnMaxIdleTime (MaxIdleTime c)] else [])"

record pool =
  max_open :: int
  max_idle :: int
  max_idle_time :: int

definition cap_idle :: "pool \<Rightarrow> pool" where
  "cap_idle p = (if 0 < max_open p \<and> max_open p < max_idle p then p\<lparr>max_idle := max_open p\<rparr> else p)"

definition apply_setting :: "pool \<Rightarrow> pool_setting \<Rightarrow> pool" where
  "apply_setting p st =
     (case st of
        SetMaxOpenConns n \<Rightarrow> cap_idle (p\<lparr>max_open := max 0 n\<rparr>)
      | SetMaxIdleConns n \<Rightarrow> cap_idle (p\<lparr>max_idle := max 0 n\<rparr>)
      | SetConnMaxIdleTime d \<Rightarrow> p\<lparr>max_idle_time := max 0 d\<rparr>)"

definition configured_pool :: "store_config \<Rightarrow> pool" where
  "configured_pool c = foldl apply_setting \<lparr>max_open = 0, max_idle = 2, max_idle_time = 0\<rparr> (pool_settings c)"

text \<open>
  A SQLite database in memory lives as long as its connection, and every connection has its own.
  If \<open>Start\<close> lets the configuration pass, the pool has exactly one connection and never drops it.
\<close>

lemma memory_database_kept:
  assumes "driver c = Sqlite" and "DSN c \<in> {[], memory_DSN}" and "precheck (New_config c) = None"
  shows "configured_pool (New_config c) = \<lparr>max_open = 1, max_idle = 1, max_idle_time = 0\<rparr>"
proof -
  have "MaxOpenConns (New_config c) = 1" "MaxIdleTime (New_config c) \<le> 0"
    using assms by (auto simp: precheck_def New_config_def memory_DSN_def split: if_splits)
  then show ?thesis
    by (auto simp: configured_pool_def pool_settings_def apply_setting_def cap_idle_def)
qed

subsection \<open>Migrations\<close>

text \<open>
  A transaction works on a copy of the data \<open>'d\<close>: each statement yields an error or the next
  copy, and only a commit that succeeds makes the copy the data.
\<close>

record 'd database =
  begin_tx :: "db_error option"
  exec_tx :: "string \<Rightarrow> 'd \<Rightarrow> (db_error, 'd) result"
  commit_tx :: "db_error option"
  rollback_tx :: "db_error option"

fun exec_all :: "(string \<Rightarrow> 'd \<Rightarrow> (db_error, 'd) result) \<Rightarrow> string list \<Rightarrow> 'd \<Rightarrow> (db_error, 'd) result" where
  "exec_all ex [] d = Inr d"
| "exec_all ex (m # ms) d = (case ex m d of Inl e \<Rightarrow> Inl e | Inr d' \<Rightarrow> exec_all ex ms d')"

text \<open>The joined error (\<open>[]\<close> for \<open>nil\<close>) and the data afterwards.\<close>

definition runMigrations :: "'d database \<Rightarrow> string list \<Rightarrow> 'd \<Rightarrow> db_error list \<times> 'd" where
  "runMigrations dbase migrations d =
     (if migrations = [] then ([], d)
      else case begin_tx dbase of
        Some e \<Rightarrow> ([e], d)
      | None \<Rightarrow>
          (case exec_all (exec_tx dbase) migrations d of
             Inl e \<Rightarrow> ([e] @ leaves (rollback_tx dbase), d)
           | Inr d' \<Rightarrow>
               (case commit_tx dbase of
                  Some e \<Rightarrow> ([e], d)
                | None \<Rightarrow> ([], d'))))"

text \<open>
  What \<open>Start\<close> does with the handle it has opened: the ping, the migrations, and then the migrator of
  the configuration if there is one, which works on the data by itself.
\<close>

definition prepare ::
  "db_error option \<Rightarrow> 'd database \<Rightarrow> string list \<Rightarrow> ('d \<Rightarrow> db_error option \<times> 'd) option \<Rightarrow> 'd \<Rightarrow> db_error list \<times> 'd"
where
  "prepare ping dbase migrations migrate d =
     (case ping of
        Some e \<Rightarrow> ([e], d)
      | None \<Rightarrow>
          (case runMigrations dbase migrations d of
             (errs, d1) \<Rightarrow>
               if errs \<noteq> [] then (errs, d1)
               else case migrate of
                 None \<Rightarrow> ([], d1)
               | Some f \<Rightarrow> (case f d1 of (err, d2) \<Rightarrow> (leaves err, d2))))"

lemma runMigrations_cases:
  "runMigrations dbase migrations d = (errs, d') \<Longrightarrow>
     errs = [] \<and> exec_all (exec_tx dbase) migrations d = Inr d' \<or> errs \<noteq> [] \<and> d' = d"
  by (auto simp: runMigrations_def split: if_splits option.splits sum.splits)

text \<open>
  The migrator only ever works on data that all migrations have been applied to; without it, a
  \<open>Start\<close> that fails leaves the data as it was.
\<close>

lemma prepare_outcome:
  assumes "prepare ping dbase migrations migrate d = (errs, d')"
  shows "errs = [] \<Longrightarrow> ping = None \<and> (\<exists>d1. exec_all (exec_tx dbase) migrations d = Inr d1
            \<and> (case migrate of None \<Rightarrow> d' = d1 | Some f \<Rightarrow> f d1 = (None, d')))"
    and "d' \<noteq> d \<Longrightarrow> errs = [] \<or> (\<exists>f d1 err. migrate = Some f \<and> exec_all (exec_tx dbase) migrations d = Inr d1
            \<and> f d1 = (err, d'))"
proof -
  obtain errs1 d1 where run: "runMigrations dbase migrations d = (errs1, d1)" by fastforce
  note cases = runMigrations_cases [OF run]
  show "ping = None \<and> (\<exists>d1. exec_all (exec_tx dbase) migrations d = Inr d1
            \<and> (case migrate of None \<Rightarrow> d' = d1 | Some f \<Rightarrow> f d1 = (None, d')))" if "errs = []"
    using assms run cases that by (auto simp: prepare_def split: option.splits prod.splits if_splits)
  show "errs = [] \<or> (\<exists>f d1 err. migrate = Some f \<and> exec_all (exec_tx dbase) migrations d = Inr d1
            \<and> f d1 = (err, d'))" if "d' \<noteq> d"
    using assms run cases that by (auto simp: prepare_def split: option.splits prod.splits if_splits)
qed

lemma exec_all_append:
  "exec_all ex (ms @ ns) d = bind_result (exec_all ex ms d) (exec_all ex ns)"
  by (induction ms arbitrary: d) (auto split: sum.split)

subsection \<open>State\<close>

text \<open>
  A handle is its number in \<open>handles\<close>, which tells whether it is open. A \<open>closeState\<close> is its
  number in \<open>closes\<close>. A call of \<open>Start\<close> that passed its checks: before \<open>open\<close>; with a handle,
  before the ping and the migrations; after them, before it stores the handle; returned.
\<close>

record close_state =
  target :: nat
  close_done :: bool
  close_err :: "db_error option"

datatype start_pc = Checked | Opened nat | Prepared nat | StartDone "store_error list"

datatype stop_pc = AwaitingClose nat | StopDone "store_error list"

record store =
  cfg :: store_config
  db :: "nat option"
  closing :: "nat option"
  handles :: "bool list"
  closes :: "close_state list"
  starts :: "start_pc list"
  stops :: "stop_pc list"

definition New :: "store_config \<Rightarrow> store" where
  "New c = \<lparr>cfg = New_config c, db = None, closing = None, handles = [], closes = [], starts = [], stops = []\<rparr>"

subsection \<open>Start\<close>

definition DB :: "store \<Rightarrow> nat option" where
  "DB s = db s"

definition Start_check :: "store \<Rightarrow> store_error option \<times> store" where
  "Start_check s =
     (case precheck (cfg s) of
        Some e \<Rightarrow> (Some e, s)
      | None \<Rightarrow>
          if db s \<noteq> None then (Some AlreadyStarted, s)
          else case closing s of
            None \<Rightarrow> (None, s)
          | Some c \<Rightarrow>
              if close_done (closes s ! c)
              then (map_option PreviousShutdown (close_err (closes s ! c)), s\<lparr>closing := None\<rparr>)
              else (Some ShutdownInProgress, s))"

definition Start_call :: "store \<Rightarrow> store" where
  "Start_call s =
     (case Start_check s of
        (Some e, s') \<Rightarrow> s'\<lparr>starts := starts s' @ [StartDone [e]]\<rparr>
      | (None, s') \<Rightarrow> s'\<lparr>starts := starts s' @ [Checked]\<rparr>)"

definition set_start :: "nat \<Rightarrow> start_pc \<Rightarrow> store \<Rightarrow> store" where
  "set_start i p s = s\<lparr>starts := (starts s)[i := p]\<rparr>"

definition Start_open :: "nat \<Rightarrow> db_error option \<Rightarrow> store \<Rightarrow> store" where
  "Start_open i outcome s =
     (case outcome of
        Some e \<Rightarrow> set_start i (StartDone [OpenFailed e]) s
      | None \<Rightarrow> set_start i (Opened (length (handles s))) (s\<lparr>handles := handles s @ [True]\<rparr>))"

text \<open>The errors of \<open>prepare\<close>, whatever the database answers; on one, \<open>closeAfterStartError\<close>.\<close>

definition closeAfterStartError :: "nat \<Rightarrow> store_error list \<Rightarrow> db_error option \<Rightarrow> store \<Rightarrow> store_error list \<times> store" where
  "closeAfterStartError h startErr closeErr s =
     (startErr @ map CloseAfterStart (leaves closeErr), s\<lparr>handles := (handles s)[h := False]\<rparr>)"

definition Start_prepare :: "nat \<Rightarrow> nat \<Rightarrow> db_error list \<Rightarrow> db_error option \<Rightarrow> store \<Rightarrow> store" where
  "Start_prepare i h errs closeErr s =
     (if errs = [] then set_start i (Prepared h) s
      else case closeAfterStartError h (map PrepareFailed errs) closeErr s of
        (es, s') \<Rightarrow> set_start i (StartDone es) s')"

definition Start_install :: "nat \<Rightarrow> nat \<Rightarrow> store \<Rightarrow> store" where
  "Start_install i h s = set_start i (StartDone []) (s\<lparr>db := Some h\<rparr>)"

subsection \<open>Stop\<close>

text \<open>The first critical section, which also starts the goroutine when there is a handle.\<close>

definition Stop_call :: "store \<Rightarrow> store" where
  "Stop_call s =
     (case closing s of
        None \<Rightarrow>
          (case db s of
             None \<Rightarrow> s\<lparr>stops := stops s @ [StopDone []]\<rparr>
           | Some h \<Rightarrow>
               s\<lparr>db := None, closing := Some (length (closes s)),
                 closes := closes s @ [\<lparr>target = h, close_done = False, close_err = None\<rparr>],
                 stops := stops s @ [AwaitingClose (length (closes s))]\<rparr>)
      | Some c \<Rightarrow> s\<lparr>stops := stops s @ [AwaitingClose c]\<rparr>)"

text \<open>The goroutine: \<open>db.Close\<close>, then \<open>close(closing.done)\<close>.\<close>

definition closer :: "nat \<Rightarrow> db_error option \<Rightarrow> store \<Rightarrow> store" where
  "closer c err s =
     s\<lparr>handles := (handles s)[target (closes s ! c) := False],
       closes := (closes s)[c := (closes s ! c)\<lparr>close_done := True, close_err := err\<rparr>]\<rparr>"

definition Stop_closed :: "nat \<Rightarrow> nat \<Rightarrow> bool \<Rightarrow> store \<Rightarrow> store" where
  "Stop_closed k c ended s =
     s\<lparr>closing := (if closing s = Some c then None else closing s),
       stops := (stops s)[k := StopDone (map CloseFailed (leaves (close_err (closes s ! c)))
                                         @ (if ended then [ContextEnded] else []))]\<rparr>"

definition Stop_canceled :: "nat \<Rightarrow> store \<Rightarrow> store" where
  "Stop_canceled k s = s\<lparr>stops := (stops s)[k := StopDone [ContextEnded]]\<rparr>"

lemmas store_ops [step_defs] = Start_check_def Start_call_def set_start_def Start_open_def closeAfterStartError_def
  Start_prepare_def Start_install_def Stop_call_def closer_def Stop_closed_def Stop_canceled_def

subsection \<open>Steps\<close>

inductive store_step :: "store \<Rightarrow> store \<Rightarrow> bool" where
  start_call: "store_step s (Start_call s)"
| start_open: "i < length (starts s) \<Longrightarrow> starts s ! i = Checked \<Longrightarrow> store_step s (Start_open i outcome s)"
| start_prepare: "i < length (starts s) \<Longrightarrow> starts s ! i = Opened h \<Longrightarrow>
     store_step s (Start_prepare i h errs closeErr s)"
| start_install: "i < length (starts s) \<Longrightarrow> starts s ! i = Prepared h \<Longrightarrow> store_step s (Start_install i h s)"
| stop_call: "store_step s (Stop_call s)"
| closer: "c < length (closes s) \<Longrightarrow> \<not> close_done (closes s ! c) \<Longrightarrow> store_step s (closer c err s)"
| stop_closed: "k < length (stops s) \<Longrightarrow> stops s ! k = AwaitingClose c \<Longrightarrow> close_done (closes s ! c) \<Longrightarrow>
     store_step s (Stop_closed k c ended s)"
| stop_canceled: "k < length (stops s) \<Longrightarrow> stops s ! k = AwaitingClose c \<Longrightarrow> store_step s (Stop_canceled k s)"

text \<open>A life cycle manager runs one \<open>Start\<close> of a component at a time; \<open>Stop\<close> may come any time.\<close>

definition in_flight :: "start_pc \<Rightarrow> bool" where
  "in_flight p \<longleftrightarrow> (case p of StartDone _ \<Rightarrow> False | _ \<Rightarrow> True)"

fun has_handle :: "start_pc \<Rightarrow> nat option" where
  "has_handle (Opened h) = Some h"
| "has_handle (Prepared h) = Some h"
| "has_handle _ = None"

definition serial_step :: "store \<Rightarrow> store \<Rightarrow> bool" where
  "serial_step s t \<longleftrightarrow> store_step s t \<and> tally in_flight (starts t) \<le> 1"

subsection \<open>Invariant\<close>

definition pending :: "close_state \<Rightarrow> bool" where
  "pending c \<longleftrightarrow> \<not> close_done c"

abbreviation open_handle :: "store \<Rightarrow> nat \<Rightarrow> bool" where
  "open_handle s h \<equiv> h < length (handles s) \<and> handles s ! h"

text \<open>Every open handle has one owner, and there is at most one.\<close>

definition owned :: "store \<Rightarrow> bool" where
  "owned s \<longleftrightarrow>
     of_bool (db s \<noteq> None) + tally pending (closes s) + tally in_flight (starts s) \<le> 1
     \<and> tally (\<lambda>h. h) (handles s)
       = of_bool (db s \<noteq> None) + tally pending (closes s) + tally (\<lambda>p. has_handle p \<noteq> None) (starts s)
     \<and> (\<forall>h. db s = Some h \<longrightarrow> open_handle s h)
     \<and> (\<forall>c \<in> set (closes s). pending c \<longrightarrow> open_handle s (target c))
     \<and> (\<forall>p \<in> set (starts s). \<forall>h. has_handle p = Some h \<longrightarrow> open_handle s h)"

definition closing_ok :: "store \<Rightarrow> bool" where
  "closing_ok s \<longleftrightarrow>
     (\<forall>c. closing s = Some c \<longrightarrow> c < length (closes s) \<and> db s = None \<and> tally in_flight (starts s) = 0)
     \<and> (\<forall>c < length (closes s). pending (closes s ! c) \<longrightarrow> closing s = Some c)
     \<and> (\<forall>c. AwaitingClose c \<in> set (stops s) \<longrightarrow> c < length (closes s))"

lemma closing_okD:
  assumes "closing_ok s"
  shows "closing s = Some c \<Longrightarrow> c < length (closes s) \<and> db s = None \<and> tally in_flight (starts s) = 0"
    and "c < length (closes s) \<Longrightarrow> pending (closes s ! c) \<Longrightarrow> closing s = Some c"
    and "AwaitingClose c \<in> set (stops s) \<Longrightarrow> c < length (closes s)"
  using assms unfolding closing_ok_def by blast+

lemma closing_ok_transfer:
  assumes "closing_ok s" and "closing t = closing s" and "db t = db s" and "closes t = closes s"
    and "closing s = None \<or> tally in_flight (starts t) = 0"
    and "\<And>c. AwaitingClose c \<in> set (stops t) \<Longrightarrow> c < length (closes s)"
  shows "closing_ok t"
  using assms unfolding closing_ok_def by (metis option.distinct(1))

definition store_inv :: "store \<Rightarrow> bool" where
  "store_inv s \<longleftrightarrow> owned s \<and> closing_ok s"

lemma set_updateE: "x \<in> set (xs[i := y]) \<Longrightarrow> x = y \<or> x \<in> set xs"
  by (auto dest: set_update_subset_insert [THEN subsetD])

text \<open>A call of \<open>Start\<close> either returns or goes on, and may clear a close that is over.\<close>

lemma Start_call_eq:
  obtains p cl where "Start_call s = s\<lparr>closing := cl, starts := starts s @ [p]\<rparr>" and "has_handle p = None"
    and "in_flight p \<longrightarrow> db s = None \<and> cl = None"
    and "cl = closing s \<or> cl = None \<and> (\<exists>c. closing s = Some c \<and> close_done (closes s ! c))"
proof -
  obtain r s' where r: "Start_check s = (r, s')" by fastforce
  let ?p = "case r of None \<Rightarrow> Checked | Some e \<Rightarrow> StartDone [e]"
  have "Start_call s = s\<lparr>closing := closing s', starts := starts s @ [?p]\<rparr>"
    using r by (intro store.equality)
      (auto simp: Start_call_def Start_check_def split: option.splits if_splits)
  moreover have "has_handle ?p = None" by (simp split: option.split)
  moreover have "db s = None \<and> closing s' = None" if "in_flight ?p"
    using r that by (auto simp: in_flight_def Start_check_def split: option.splits if_splits)
  moreover have "closing s' = closing s \<or> closing s' = None \<and> (\<exists>c. closing s = Some c \<and> close_done (closes s ! c))"
    using r by (auto simp: Start_check_def split: option.splits if_splits)
  ultimately show ?thesis using that by blast
qed

text \<open>A close that is over is the only one there was to wait for.\<close>

lemma closing_over:
  "closing_ok s \<Longrightarrow> closing s = Some c \<Longrightarrow> close_done (closes s ! c) \<Longrightarrow> tally pending (closes s) = 0"
  by (auto simp: closing_ok_def tally_zero in_set_conv_nth pending_def)

lemma closing_ok_start_call: assumes ok: "closing_ok s" shows "closing_ok (Start_call s)"
proof -
  obtain p cl where p: "Start_call s = s\<lparr>closing := cl, starts := starts s @ [p]\<rparr>"
    "in_flight p \<longrightarrow> db s = None \<and> cl = None"
    "cl = closing s \<or> cl = None \<and> (\<exists>c. closing s = Some c \<and> close_done (closes s ! c))"
    by (rule Start_call_eq [of s])
  from p(3) show ?thesis
  proof
    assume "cl = closing s"
    have "closing s = None \<or> tally in_flight (starts s) = 0"
      using ok unfolding closing_ok_def by (metis not_None_eq)
    then have "tally in_flight (starts s @ [p]) = 0 \<or> closing s = None"
      using p(2) \<open>cl = closing s\<close> by (cases "in_flight p") auto
    then show ?thesis unfolding p(1) \<open>cl = closing s\<close>
      using closing_okD(3) [OF ok] by (intro closing_ok_transfer [OF ok]) auto
  next
    assume cl: "cl = None \<and> (\<exists>c. closing s = Some c \<and> close_done (closes s ! c))"
    with ok have "tally pending (closes s) = 0" by (auto dest: closing_over)
    then have "\<forall>c < length (closes s). \<not> pending (closes s ! c)" by (simp add: tally_zero)
    moreover have "\<forall>c. AwaitingClose c \<in> set (stops s) \<longrightarrow> c < length (closes s)"
      using ok unfolding closing_ok_def by blast
    ultimately show ?thesis using cl unfolding p(1) by (simp add: closing_ok_def)
  qed
qed

text \<open>While a \<open>Start\<close> is in flight nothing is being closed, whatever that call does next.\<close>

lemma closing_ok_in_flight:
  assumes "closing_ok s" and "i < length (starts s)" and "in_flight (starts s ! i)"
    and "closing t = closing s" and "closes t = closes s" and "stops t = stops s"
  shows "closing_ok t"
proof -
  have "0 < tally in_flight (starts s)" using assms(2,3) by (rule tally_positive)
  with assms show ?thesis by (auto simp: closing_ok_def)
qed

lemma closing_ok_stop_call: assumes ok: "closing_ok s" and own: "owned s" shows "closing_ok (Stop_call s)"
proof -
  note await = closing_okD(3) [OF ok]
  have none: "tally pending (closes s) = 0 \<and> tally in_flight (starts s) = 0" if "db s = Some h" for h
    using own that by (intro tally_none) (simp add: owned_def)
  show ?thesis
  proof (cases "closing s")
    case (Some c)
    then have "Stop_call s = s\<lparr>stops := stops s @ [AwaitingClose c]\<rparr>" by (simp add: Stop_call_def)
    with closing_okD(1) [OF ok Some] await show ?thesis
      by (intro closing_ok_transfer [OF ok]) auto
  next
    case None
    then have over: "\<not> pending (closes s ! c)" if "c < length (closes s)" for c
      using closing_okD(2) [OF ok that] by auto
    show ?thesis
    proof (cases "db s")
      case nothing: None
      with None over await show ?thesis by (simp add: closing_ok_def Stop_call_def)
    next
      case (Some h)
      with None over await none [OF Some] show ?thesis
        by (auto simp: closing_ok_def Stop_call_def nth_append less_Suc_eq)
    qed
  qed
qed

lemma closing_ok_closer:
  assumes ok: "closing_ok s" and c: "c < length (closes s)" "\<not> close_done (closes s ! c)"
  shows "closing_ok (closer c err s)"
proof -
  from c ok have cl: "closing s = Some c" by (intro closing_okD(2)) (simp_all add: pending_def)
  have others: "\<not> pending (closes s ! d)" if "d < length (closes s)" "d \<noteq> c" for d
    using closing_okD(2) [OF ok that(1)] cl that(2) by auto
  note facts = closing_okD(1) [OF ok cl] closing_okD(3) [OF ok]
  have "\<not> pending ((closes s ! c)\<lparr>close_done := True, close_err := err\<rparr>)" by (simp add: pending_def)
  with facts cl others show ?thesis by (auto simp: closing_ok_def closer_def nth_list_update)
qed

lemma closing_ok_stop_closed:
  assumes ok: "closing_ok s" and over: "close_done (closes s ! c)"
  shows "closing_ok (Stop_closed k c ended s)"
proof -
  have stops: "d < length (closes s)" if "AwaitingClose d \<in> set ((stops s)[k := StopDone es])" for d es
    using that closing_okD(3) [OF ok] by (auto dest!: set_updateE)
  show ?thesis
  proof (cases "closing s = Some c")
    case True
    then have "tally pending (closes s) = 0" using closing_over [OF ok _ over] by simp
    then have "\<forall>d < length (closes s). \<not> pending (closes s ! d)" by (simp add: tally_zero)
    with True stops show ?thesis by (simp add: closing_ok_def Stop_closed_def)
  next
    case False
    have "closing s = None \<or> tally in_flight (starts s) = 0" using closing_okD(1) [OF ok] by (cases "closing s") auto
    with False stops show ?thesis by (intro closing_ok_transfer [OF ok]) (auto simp: Stop_closed_def)
  qed
qed

lemma closing_ok_stop_canceled: assumes ok: "closing_ok s" shows "closing_ok (Stop_canceled k s)"
proof -
  have "closing s = None \<or> tally in_flight (starts s) = 0" using closing_okD(1) [OF ok] by (cases "closing s") auto
  then show ?thesis
    using closing_okD(3) [OF ok]
    by (intro closing_ok_transfer [OF ok]) (auto simp: Stop_canceled_def dest!: set_updateE)
qed

lemma closing_ok_step:
  assumes "store_step s t" and "store_inv s"
  shows "closing_ok t"
proof -
  have ok: "closing_ok s" and own: "owned s" using assms(2) by (simp_all add: store_inv_def)
  note flying = closing_ok_in_flight [OF ok, unfolded in_flight_def]
  from assms(1) show ?thesis
    using ok own closing_ok_start_call closing_ok_stop_call closing_ok_closer closing_ok_stop_closed
      closing_ok_stop_canceled
    by (cases rule: store_step.cases)
      (auto intro!: flying simp: Start_open_def Start_prepare_def Start_install_def closeAfterStartError_def
        set_start_def split: option.split)
qed

lemma open_append: "open_handle s h \<Longrightarrow> (handles s @ [True]) ! h"
  by (simp add: nth_append)

lemma no_others:
  assumes "owned s" and "i < length (starts s)" and "in_flight (starts s ! i)"
  shows "db s = None" and "tally pending (closes s) = 0" and "tally in_flight (starts s) = 1"
proof -
  have pos: "0 < tally in_flight (starts s)" using assms(2,3) by (rule tally_positive)
  note nonneg = tally_nonneg [of pending "closes s"]
  have one: "of_bool (db s \<noteq> None) + tally pending (closes s) + tally in_flight (starts s) \<le> 1"
    using assms(1) by (simp add: owned_def)
  show "db s = None" using pos nonneg one by (cases "db s") (simp, simp del: tally_nonneg)
  with one have "tally pending (closes s) + tally in_flight (starts s) \<le> 1" by simp
  with pos nonneg show "tally pending (closes s) = 0" and "tally in_flight (starts s) = 1" by linarith+
qed

text \<open>With one \<open>Start\<close> in flight, no other call of \<open>Start\<close> holds a handle.\<close>

lemma only_start:
  assumes "tally in_flight ps = 1" and "i < length ps" and "in_flight (ps ! i)" and "\<not> in_flight q"
  shows "tally in_flight (ps[i := q]) = 0" and "p \<in> set (ps[i := q]) \<Longrightarrow> has_handle p = None"
    and "tally (\<lambda>p. has_handle p \<noteq> None) (ps[i := q]) = 0"
proof -
  show 0: "tally in_flight (ps[i := q]) = 0" using assms by simp
  have "has_handle p = None" if "\<not> in_flight p" for p using that by (cases p) (auto simp: in_flight_def)
  with 0 show "p \<in> set (ps[i := q]) \<Longrightarrow> has_handle p = None" for p by (auto simp: tally_zero)
  then show "tally (\<lambda>p. has_handle p \<noteq> None) (ps[i := q]) = 0" by (auto simp: tally_zero simp del: not_None_eq)
qed

lemma owned_start_call:
  assumes inv: "store_inv s" and one: "tally in_flight (starts (Start_call s)) \<le> 1"
  shows "owned (Start_call s)"
proof -
  obtain p cl where p: "Start_call s = s\<lparr>closing := cl, starts := starts s @ [p]\<rparr>" "has_handle p = None"
    "in_flight p \<longrightarrow> db s = None \<and> cl = None"
    "cl = closing s \<or> cl = None \<and> (\<exists>c. closing s = Some c \<and> close_done (closes s ! c))"
    by (rule Start_call_eq [of s])
  have "tally pending (closes s) = 0" if "in_flight p"
  proof (cases "closing s")
    case None
    with inv show ?thesis by (auto simp: store_inv_def closing_ok_def tally_zero in_set_conv_nth)
  next
    case (Some c)
    with p(3,4) that inv show ?thesis by (auto simp: store_inv_def dest: closing_over)
  qed
  with inv one p show ?thesis
    by (cases "in_flight p") (auto simp: store_inv_def owned_def)
qed

lemma owned_start_open:
  assumes own: "owned s" and i: "i < length (starts s)" "starts s ! i = Checked"
  shows "owned (Start_open i outcome s)"
proof -
  from i have "in_flight (starts s ! i)" by (simp add: in_flight_def)
  note others = no_others [OF own i(1) this]
  show ?thesis
  proof (cases outcome)
    case None
    with own i others show ?thesis
      by (auto simp: owned_def Start_open_def set_start_def in_flight_def nth_append dest!: set_updateE)
  next
    case (Some e)
    with own i others show ?thesis
      by (auto simp: owned_def Start_open_def set_start_def in_flight_def dest!: set_updateE)
  qed
qed

text \<open>The handle a \<open>Start\<close> works on is open until that call gives it up.\<close>

lemma held_open: "owned s \<Longrightarrow> i < length (starts s) \<Longrightarrow> has_handle (starts s ! i) = Some h \<Longrightarrow> open_handle s h"
  unfolding owned_def by (metis nth_mem)

lemma owned_start_prepare:
  assumes own: "owned s" and i: "i < length (starts s)" "starts s ! i = Opened h"
  shows "owned (Start_prepare i h errs closeErr s)"
proof -
  from i have flight: "in_flight (starts s ! i)" by (simp add: in_flight_def)
  note others = no_others [OF own i(1) flight]
  have h: "open_handle s h" using own i by (simp add: held_open)
  show ?thesis
  proof (cases "errs = []")
    case True
    with own i others h show ?thesis
      by (auto simp: owned_def Start_prepare_def set_start_def in_flight_def dest!: set_updateE)
  next
    case False
    from others(2) have "\<not> pending c" if "c \<in> set (closes s)" for c using that by (auto simp: tally_zero)
    with False own i others h show ?thesis
      using only_start [OF others(3) i(1) flight, of "StartDone q" for q]
      by (auto simp: owned_def Start_prepare_def set_start_def closeAfterStartError_def in_flight_def)
  qed
qed

lemma owned_start_install:
  assumes own: "owned s" and i: "i < length (starts s)" "starts s ! i = Prepared h"
  shows "owned (Start_install i h s)"
proof -
  from i have "in_flight (starts s ! i)" by (simp add: in_flight_def)
  note others = no_others [OF own i(1) this]
  have "open_handle s h" using own i by (simp add: held_open)
  with own i others show ?thesis
    by (auto simp: owned_def Start_install_def set_start_def in_flight_def dest!: set_updateE)
qed

lemma owned_closer:
  assumes own: "owned s" and c: "c < length (closes s)" "\<not> close_done (closes s ! c)"
  shows "owned (closer c err s)"
proof -
  let ?c = "closes s ! c" and ?d = "(closes s ! c)\<lparr>close_done := True, close_err := err\<rparr>"
  from c have p: "pending ?c" "?c \<in> set (closes s)" by (simp_all add: pending_def)
  have h: "open_handle s (target ?c)" using own p by (auto simp: owned_def)
  have "0 < tally pending (closes s)" using c(1) p(1) by (rule tally_positive)
  then have others: "db s = None" "tally in_flight (starts s) = 0" "tally pending (closes s) = 1"
    using own tally_nonneg [of in_flight "starts s"]
    by (cases "db s"; simp add: owned_def del: tally_nonneg; linarith)+
  have flight: "has_handle q = None" if "q \<in> set (starts s)" for q
    using others(2) that by (cases q) (auto simp: tally_zero in_flight_def)
  have zero: "tally pending ((closes s)[c := ?d]) = 0"
    using c(1) p(1) others(3) by (simp add: pending_def)
  then have "\<not> pending d" if "d \<in> set ((closes s)[c := ?d])" for d
    using that by (auto simp: tally_zero)
  with zero own others flight h show ?thesis by (auto simp: owned_def closer_def)
qed

lemma owned_step:
  assumes "store_step s t" and "tally in_flight (starts t) \<le> 1" and "store_inv s"
  shows "owned t"
proof -
  have own: "owned s" using assms(3) by (simp add: store_inv_def)
  from assms(1,2) own show ?thesis
    using assms(3) owned_start_call owned_start_open owned_start_prepare owned_start_install owned_closer
    by (cases rule: store_step.cases)
      (auto simp: owned_def Stop_call_def Stop_closed_def Stop_canceled_def pending_def split: option.split)
qed

interpretation store: concurrent_machine serial_step store_inv
  by unfold_locales (auto simp: serial_step_def store_inv_def[of t for t] intro: owned_step closing_ok_step)

lemma store_inv_New: "store_inv (New c)"
  by (simp add: store_inv_def owned_def closing_ok_def New_def)

lemma store_reachable: "serial_step\<^sup>*\<^sup>* (New c) s \<Longrightarrow> store_inv s"
  by (rule store.steps_inv [OF _ store_inv_New])

subsection \<open>The contract\<close>

text \<open>
  C22 (invariant): with one \<open>Start\<close> at a time and calls of \<open>Stop\<close> at any time, at most one
  database handle is open, the handle of a started store is open, and a store that is neither
  started, starting nor closing has closed every handle it ever opened, also after starts that
  failed half-way.
\<close>

theorem handles_accounted:
  assumes "serial_step\<^sup>*\<^sup>* (New c) s"
  shows "tally (\<lambda>h. h) (handles s) \<le> 1
     \<and> (\<forall>h. db s = Some h \<longrightarrow> open_handle s h)
     \<and> (db s = None \<and> closing s = None \<and> tally in_flight (starts s) = 0 \<longrightarrow> True \<notin> set (handles s))"
proof -
  from store_reachable [OF assms] have own: "owned s" and cl: "closing_ok s" by (simp_all add: store_inv_def)
  have sub: "tally (\<lambda>p. has_handle p \<noteq> None) (starts s) \<le> tally in_flight (starts s)"
  proof (rule tally_mono)
    show "in_flight p" if "has_handle p \<noteq> None" for p using that by (cases p) (auto simp: in_flight_def)
  qed
  have sum: "of_bool (db s \<noteq> None) + tally pending (closes s) + tally in_flight (starts s) \<le> 1"
    and count: "tally (\<lambda>h. h) (handles s)
       = of_bool (db s \<noteq> None) + tally pending (closes s) + tally (\<lambda>p. has_handle p \<noteq> None) (starts s)"
    using own by (simp_all only: owned_def)
  have "True \<notin> set (handles s)" if "db s = None" "closing s = None" "tally in_flight (starts s) = 0"
  proof -
    have "tally pending (closes s) = 0" using cl that(2) by (auto simp: closing_ok_def tally_zero in_set_conv_nth)
    with count sub that have "tally (\<lambda>h. h) (handles s) \<le> 0" by simp
    then have "tally (\<lambda>h. h) (handles s) = 0" using tally_nonneg [of "\<lambda>h. h" "handles s"] by linarith
    then show ?thesis by (auto simp: tally_zero)
  qed
  moreover have "tally (\<lambda>h. h) (handles s) \<le> 1" using sum count sub by linarith
  moreover have "\<forall>h. db s = Some h \<longrightarrow> open_handle s h" using own by (simp add: owned_def)
  ultimately show ?thesis by blast
qed


text \<open>
  Without the rule of one \<open>Start\<close> at a time a handle can be lost: two overlapping calls both
  pass the test for a running database, both open one, and the second overwrites the first.
\<close>

definition some_store :: store_config where
  "some_store = \<lparr>driver = Sqlite, DSN = [], Migrations = [], MaxOpenConns = 0, MaxIdleConns = 0, MaxIdleTime = 0\<rparr>"

definition overlapped :: store where
  "overlapped =
     Start_install 1 1 (Start_install 0 0 (Start_prepare 1 1 [] None (Start_prepare 0 0 [] None
       (Start_open 1 None (Start_open 0 None (Start_call (Start_call (New some_store))))))))"

lemmas store_eval = New_def New_config_def some_store_def precheck_def memory_DSN_def store_ops

lemma overlapping_starts_leak:
  "store_step\<^sup>*\<^sup>* (New some_store) overlapped
   \<and> db overlapped = Some 1 \<and> closes overlapped = [] \<and> tally in_flight (starts overlapped) = 0
   \<and> handles overlapped = [True, True]"
proof -
  let ?s0 = "New some_store"
  let ?s1 = "Start_call ?s0"
  let ?s2 = "Start_call ?s1"
  let ?s3 = "Start_open 0 None ?s2"
  let ?s4 = "Start_open 1 None ?s3"
  let ?s5 = "Start_prepare 0 0 [] None ?s4"
  let ?s6 = "Start_prepare 1 1 [] None ?s5"
  let ?s7 = "Start_install 0 0 ?s6"
  have "store_step ?s0 ?s1" "store_step ?s1 ?s2" by (rule store_step.start_call)+
  moreover have "store_step ?s2 ?s3" by (rule store_step.start_open) (simp_all add: store_eval)
  moreover have "store_step ?s3 ?s4" by (rule store_step.start_open) (simp_all add: store_eval)
  moreover have "store_step ?s4 ?s5" by (rule store_step.start_prepare) (simp_all add: store_eval)
  moreover have "store_step ?s5 ?s6" by (rule store_step.start_prepare) (simp_all add: store_eval)
  moreover have "store_step ?s6 ?s7" by (rule store_step.start_install) (simp_all add: store_eval)
  moreover have "store_step ?s7 overlapped"
    unfolding overlapped_def by (rule store_step.start_install) (simp_all add: store_eval)
  ultimately have "store_step\<^sup>*\<^sup>* ?s0 overlapped"
    by (meson converse_rtranclp_into_rtranclp rtranclp.rtrancl_refl)
  then show ?thesis by (simp add: overlapped_def store_eval in_flight_def)
qed

subsection \<open>Witnesses\<close>

text \<open>A store that was started and stopped.\<close>

definition running :: store where
  "running = Start_install 0 0 (Start_prepare 0 0 [] None (Start_open 0 None (Start_call (New some_store))))"

definition stopped :: store where
  "stopped = Stop_closed 0 0 False (closer 0 None (Stop_call running))"

lemma reach_stopped: "serial_step\<^sup>*\<^sup>* (New some_store) stopped"
proof -
  let ?s0 = "New some_store"
  let ?s1 = "Start_call ?s0"
  let ?s2 = "Start_open 0 None ?s1"
  let ?s3 = "Start_prepare 0 0 [] None ?s2"
  let ?s5 = "Stop_call running"
  let ?s6 = "closer 0 None ?s5"
  have "serial_step ?s0 ?s1" unfolding serial_step_def
    by (intro conjI store_step.start_call) (simp add: store_eval in_flight_def)
  moreover have "serial_step ?s1 ?s2" unfolding serial_step_def
    by (intro conjI store_step.start_open) (simp_all add: store_eval in_flight_def)
  moreover have "serial_step ?s2 ?s3" unfolding serial_step_def
    by (intro conjI store_step.start_prepare) (simp_all add: store_eval in_flight_def)
  moreover have "serial_step ?s3 running" unfolding serial_step_def running_def
    by (intro conjI store_step.start_install) (simp_all add: store_eval in_flight_def)
  moreover have "serial_step running ?s5" unfolding serial_step_def
    by (intro conjI store_step.stop_call) (simp add: running_def store_eval in_flight_def)
  moreover have "serial_step ?s5 ?s6" unfolding serial_step_def
    by (intro conjI store_step.closer) (simp_all add: running_def store_eval in_flight_def)
  moreover have "serial_step ?s6 stopped" unfolding serial_step_def stopped_def
    by (intro conjI store_step.stop_closed) (simp_all add: running_def store_eval in_flight_def)
  ultimately show ?thesis by (meson converse_rtranclp_into_rtranclp rtranclp.rtrancl_refl)
qed

lemma store_stopped_fields:
  "db stopped = None" "closing stopped = None" "tally in_flight (starts stopped) = 0" "length (handles stopped) = 1"
  by (simp_all add: stopped_def running_def store_eval in_flight_def)

theorem handles_accounted_witness: "length (handles stopped) = 1 \<and> True \<notin> set (handles stopped)"
  using handles_accounted [OF reach_stopped] by (simp add: store_stopped_fields)



end
