(* ===== verification/WindowsAcl.thy ===== *)
theory WindowsAcl
  imports Prelude "HOL-Library.Word"
begin

unbundle bit_operations_syntax

text \<open>
  The Windows policies on security descriptors: \<open>validatePrivateSecurity\<close> and
  \<open>validateCreationSecurity\<close> of \<open>privatedir/privatedir_windows.go\<close>, and
  \<open>validateCurrentUserSecurity\<close> of \<open>processlock/lock_windows.go\<close>. A descriptor is what the
  accessors of \<open>x/sys/windows\<close> report of it; access masks are words of 32 bits.
\<close>

subsection \<open>Descriptors\<close>

text \<open>
  A security identifier: of the local system, the built-in administrators, or anybody else
  (users and groups, by number). It may be malformed, and a pointer to one may be nil.
\<close>

datatype principal = LocalSystem | Administrators | Other nat

datatype sid = Malformed | SID principal

datatype ace_type = AccessAllowed | AccessDenied | OtherType

record ace =
  AceType :: ace_type
  AceFlags :: "8 word"
  Mask :: "32 word"
  SidStart :: sid

datatype win_error = WinError nat

text \<open>Each accessor may fail; \<open>DACL\<close> may be nil, and reading an entry of it may fail.\<close>

record descriptor =
  IsValid :: bool
  Owner :: "(win_error, sid option \<times> bool) result"
  DACL :: "(win_error, (win_error, ace) result list option) result"

datatype acl_error =
    SystemError win_error | SecurityUnavailable | WrongOwner | ControlUnavailable
  | InvalidEntry | GrantsAccess | UnsupportedControls

subsection \<open>Rights\<close>

definition INHERIT_ONLY_ACE :: "8 word" where "INHERIT_ONLY_ACE = 0x08"
definition GENERIC_WRITE :: "32 word" where "GENERIC_WRITE = 0x40000000"
definition GENERIC_ALL :: "32 word" where "GENERIC_ALL = 0x10000000"
definition FILE_WRITE_DATA :: "32 word" where "FILE_WRITE_DATA = 0x00000002"
definition FILE_APPEND_DATA :: "32 word" where "FILE_APPEND_DATA = 0x00000004"
definition FILE_WRITE_EA :: "32 word" where "FILE_WRITE_EA = 0x00000010"
definition fileDeleteChild :: "32 word" where "fileDeleteChild = 0x00000040"
definition FILE_WRITE_ATTRIBUTES :: "32 word" where "FILE_WRITE_ATTRIBUTES = 0x00000100"
definition DELETE :: "32 word" where "DELETE = 0x00010000"
definition WRITE_DAC :: "32 word" where "WRITE_DAC = 0x00040000"
definition WRITE_OWNER :: "32 word" where "WRITE_OWNER = 0x00080000"

definition mutationRights :: "32 word" where
  "mutationRights =
     GENERIC_WRITE OR GENERIC_ALL OR FILE_WRITE_DATA OR fileDeleteChild OR FILE_APPEND_DATA OR
     FILE_WRITE_EA OR FILE_WRITE_ATTRIBUTES OR DELETE OR WRITE_DAC OR WRITE_OWNER"

subsection \<open>privatedir\<close>

definition trusted :: "principal \<Rightarrow> principal \<Rightarrow> bool" where
  "trusted user p \<longleftrightarrow> p = user \<or> p = LocalSystem \<or> p = Administrators"

fun trustedSID :: "sid option \<Rightarrow> principal \<Rightarrow> bool" where
  "trustedSID (Some (SID p)) user = trusted user p"
| "trustedSID _ user = False"

text \<open>The loop over the entries of the list; \<open>None\<close> is \<open>nil\<close>.\<close>

fun private_aces :: "principal \<Rightarrow> (win_error, ace) result list \<Rightarrow> acl_error option" where
  "private_aces user [] = None"
| "private_aces user (Inl e # as) = Some (SystemError e)"
| "private_aces user (Inr a # as) =
     (case AceType a of
        AccessAllowed \<Rightarrow>
          if SidStart a = Malformed then Some InvalidEntry
          else if trustedSID (Some (SidStart a)) user then private_aces user as
          else Some GrantsAccess
      | AccessDenied \<Rightarrow> private_aces user as
      | OtherType \<Rightarrow> Some UnsupportedControls)"

fun creation_aces :: "principal \<Rightarrow> (win_error, ace) result list \<Rightarrow> acl_error option" where
  "creation_aces user [] = None"
| "creation_aces user (Inl e # as) = Some (SystemError e)"
| "creation_aces user (Inr a # as) =
     (case AceType a of
        AccessAllowed \<Rightarrow>
          if SidStart a = Malformed then Some InvalidEntry
          else if trustedSID (Some (SidStart a)) user then creation_aces user as
          else if AceFlags a AND INHERIT_ONLY_ACE = 0 \<and> Mask a AND mutationRights \<noteq> 0 then Some GrantsAccess
          else creation_aces user as
      | AccessDenied \<Rightarrow> creation_aces user as
      | OtherType \<Rightarrow> Some UnsupportedControls)"

text \<open>What both functions do before the loop. The second argument is \<open>currentUserSID()\<close>.\<close>

definition with_dacl ::
  "descriptor option \<Rightarrow> (win_error, principal) result
     \<Rightarrow> (principal \<Rightarrow> (win_error, ace) result list \<Rightarrow> acl_error option) \<Rightarrow> acl_error option"
where
  "with_dacl desc current loop =
     (case desc of
        None \<Rightarrow> Some SecurityUnavailable
      | Some d \<Rightarrow>
          if \<not> IsValid d then Some SecurityUnavailable
          else case current of
            Inl e \<Rightarrow> Some (SystemError e)
          | Inr user \<Rightarrow>
              (case Owner d of
                 Inl e \<Rightarrow> Some WrongOwner
               | Inr (owner, defaulted) \<Rightarrow>
                   if owner = None \<or> defaulted \<or> \<not> trustedSID owner user then Some WrongOwner
                   else case DACL d of
                     Inl e \<Rightarrow> Some ControlUnavailable
                   | Inr None \<Rightarrow> Some ControlUnavailable
                   | Inr (Some aces) \<Rightarrow> loop user aces))"

definition validatePrivateSecurity :: "descriptor option \<Rightarrow> (win_error, principal) result \<Rightarrow> acl_error option" where
  "validatePrivateSecurity desc current = with_dacl desc current private_aces"

definition validateCreationSecurity :: "descriptor option \<Rightarrow> (win_error, principal) result \<Rightarrow> acl_error option" where
  "validateCreationSecurity desc current = with_dacl desc current creation_aces"

subsection \<open>processlock\<close>

text \<open>\<open>sid.Equals\<close> and \<open>sid.IsWellKnown\<close>, false of a malformed identifier.\<close>

fun isTrustedWindowsPrincipal :: "sid \<Rightarrow> principal \<Rightarrow> bool" where
  "isTrustedWindowsPrincipal (SID p) user \<longleftrightarrow> p = user \<or> p = LocalSystem \<or> p = Administrators"
| "isTrustedWindowsPrincipal Malformed user \<longleftrightarrow> False"

fun lock_aces :: "principal \<Rightarrow> (win_error, ace) result list \<Rightarrow> acl_error option" where
  "lock_aces user [] = None"
| "lock_aces user (Inl e # as) = Some (SystemError e)"
| "lock_aces user (Inr a # as) =
     (case AceType a of
        AccessAllowed \<Rightarrow>
          if SidStart a = Malformed then Some InvalidEntry
          else if isTrustedWindowsPrincipal (SidStart a) user then lock_aces user as
          else if AceFlags a AND INHERIT_ONLY_ACE \<noteq> 0 \<or> Mask a AND mutationRights = 0 then lock_aces user as
          else if SidStart a \<noteq> SID user then Some GrantsAccess
          else lock_aces user as
      | AccessDenied \<Rightarrow> lock_aces user as
      | OtherType \<Rightarrow> Some UnsupportedControls)"

definition validateCurrentUserSecurity :: "descriptor option \<Rightarrow> (win_error, principal) result \<Rightarrow> acl_error option" where
  "validateCurrentUserSecurity desc current =
     (case desc of
        None \<Rightarrow> Some SecurityUnavailable
      | Some d \<Rightarrow>
          if \<not> IsValid d then Some SecurityUnavailable
          else case current of
            Inl e \<Rightarrow> Some (SystemError e)
          | Inr user \<Rightarrow>
              (case Owner d of
                 Inl e \<Rightarrow> Some WrongOwner
               | Inr (None, defaulted) \<Rightarrow> Some WrongOwner
               | Inr (Some owner, defaulted) \<Rightarrow>
                   if defaulted \<or> owner = Malformed \<or> \<not> isTrustedWindowsPrincipal owner user then Some WrongOwner
                   else case DACL d of
                     Inl e \<Rightarrow> Some ControlUnavailable
                   | Inr None \<Rightarrow> Some ControlUnavailable
                   | Inr (Some aces) \<Rightarrow> lock_aces user aces))"

subsection \<open>What a list of entries grants\<close>

text \<open>
  The rights that the entries give a principal on the object itself: those of its allowing
  entries that are not only inherited by children. Denying entries can only take rights away.
\<close>

definition grants :: "principal \<Rightarrow> (win_error, ace) result \<Rightarrow> 32 word" where
  "grants p entry =
     (case entry of
        Inl _ \<Rightarrow> 0
      | Inr a \<Rightarrow>
          if AceType a = AccessAllowed \<and> SidStart a = SID p \<and> AceFlags a AND INHERIT_ONLY_ACE = 0
          then Mask a else 0)"

definition rights :: "principal \<Rightarrow> (win_error, ace) result list \<Rightarrow> 32 word" where
  "rights p aces = foldr (\<lambda>a r. grants p a OR r) aces 0"

lemma rights_simps [simp]: "rights p [] = 0" "rights p (a # as) = grants p a OR rights p as"
  by (simp_all add: rights_def)

lemma or_and_zero: "(a OR b) AND m = 0 \<longleftrightarrow> a AND m = 0 \<and> b AND m = (0 :: 32 word)"
proof -
  have "x OR y = 0 \<longleftrightarrow> x = 0 \<and> y = 0" for x y :: "32 word" by (metis or.right_neutral word_ao_absorbs(1,4))
  then show ?thesis by (simp add: word_ao_dist)
qed

lemma lock_aces_creation: "lock_aces user as = None \<longleftrightarrow> creation_aces user as = None"
proof (induction as)
  case (Cons e as)
  show ?case
  proof (cases e)
    case (Inr a)
    with Cons show ?thesis
      by (cases "SidStart a") (auto simp: trusted_def split: ace_type.split)
  qed simp
qed simp

lemma creation_aces_grants:
  "creation_aces user as = None \<Longrightarrow> \<not> trusted user p \<Longrightarrow> rights p as AND mutationRights = 0"
proof (induction as)
  case (Cons e as)
  then show ?case
    by (cases e) (auto simp: or_and_zero grants_def split: ace_type.splits if_splits)
qed simp

lemma private_aces_grants: "private_aces user as = None \<Longrightarrow> \<not> trusted user p \<Longrightarrow> rights p as = 0"
proof (induction as)
  case (Cons e as)
  then show ?case
    by (cases e) (auto simp: grants_def split: ace_type.splits if_splits)
qed simp

lemma private_aces_denied:
  "private_aces user as = None \<Longrightarrow> Inr a \<in> set as \<Longrightarrow> SidStart a = SID p \<Longrightarrow> trusted user p \<or> AceType a = AccessDenied"
proof (induction as)
  case (Cons e as)
  then show ?case
    by (cases e) (auto split: ace_type.splits if_splits)
qed simp

lemma with_dacl_accepts [inversion]:
  assumes "with_dacl desc current loop = None"
  obtains d user p aces where "desc = Some d" "current = Inr user" "Owner d = Inr (Some (SID p), False)"
    "trusted user p" "DACL d = Inr (Some aces)" "loop user aces = None"
  using assms
  by (auto simp: with_dacl_def split: option.splits if_splits sum.splits prod.splits elim!: trustedSID.elims)

lemma private_aces_creation: "private_aces user as = None \<Longrightarrow> creation_aces user as = None"
proof (induction as)
  case (Cons e as)
  then show ?case by (cases e) (auto split: ace_type.splits if_splits)
qed simp

lemma lock_security_creation:
  "validateCurrentUserSecurity desc current = None \<longleftrightarrow> validateCreationSecurity desc current = None"
proof (cases "\<exists>d user sd. desc = Some d \<and> IsValid d \<and> current = Inr user \<and> Owner d = Inr (Some sd, False)")
  case True
  then obtain d user sd where d: "desc = Some d" "IsValid d" "current = Inr user" "Owner d = Inr (Some sd, False)"
    by blast
  then show ?thesis
    by (cases sd; cases "DACL d"; cases "projr (DACL d)")
       (auto simp: validateCurrentUserSecurity_def validateCreationSecurity_def with_dacl_def trusted_def lock_aces_creation)
next
  case False
  then show ?thesis
    by (auto simp: validateCurrentUserSecurity_def validateCreationSecurity_def with_dacl_def
        split: option.splits if_splits sum.splits prod.splits)
qed

subsection \<open>What a descriptor lets a principal do\<close>

text \<open>
  The bits of an access mask that let their holder change an object, by their numbers in
  \<open>winnt.h\<close>: of a file or directory, writing data or adding a file (1), appending or adding a
  directory (2), writing extended attributes (4), deleting a child (6), writing attributes (8); of
  any object, \<open>DELETE\<close> (16), \<open>WRITE_DAC\<close> (18), \<open>WRITE_OWNER\<close> (19), \<open>GENERIC_ALL\<close> (28) and
  \<open>GENERIC_WRITE\<close> (30).
\<close>

definition changing :: "nat set" where
  "changing = {1, 2, 4, 6, 8, 16, 18, 19, 28, 30}"

text \<open>
  Windows gives the owner \<open>WRITE_DAC\<close> without an entry, and everybody every right on an object
  without a list. A list or an owner that cannot be read may be anything.
\<close>

definition powers :: "principal \<Rightarrow> descriptor \<Rightarrow> nat set" where
  "powers p d =
     (case Owner d of
        Inr (Some (SID q), _) \<Rightarrow> if q = p then {18} else {}
      | _ \<Rightarrow> UNIV)
     \<union> (case DACL d of Inr (Some aces) \<Rightarrow> {n. bit (rights p aces) n} | _ \<Rightarrow> UNIV)"

lemma mutationRights_bits: "n \<in> changing \<Longrightarrow> bit mutationRights n"
  by (auto simp: changing_def mutationRights_def GENERIC_WRITE_def GENERIC_ALL_def FILE_WRITE_DATA_def fileDeleteChild_def
      FILE_APPEND_DATA_def FILE_WRITE_EA_def FILE_WRITE_ATTRIBUTES_def DELETE_def WRITE_DAC_def WRITE_OWNER_def bit_simps)

lemma no_changing_bits:
  assumes "r AND mutationRights = 0"
  shows "{n. bit r n} \<inter> changing = {}"
proof -
  have "\<not> bit (r AND mutationRights) n" for n using assms by simp
  with mutationRights_bits show ?thesis by (auto simp: bit_and_iff)
qed

lemma accepted_powers:
  assumes "with_dacl desc current loop = None"
    and "\<And>p user aces. loop user aces = None \<Longrightarrow> \<not> trusted user p \<Longrightarrow> {n. bit (rights p aces) n} \<inter> R = {}"
  obtains d user aces where "desc = Some d" "current = Inr user" "IsValid d" "DACL d = Inr (Some aces)"
    "loop user aces = None" "\<And>p. trusted user p \<or> powers p d \<inter> R = {}"
proof -
  from assms(1) obtain d user q aces where d: "desc = Some d" "current = Inr user" "Owner d = Inr (Some (SID q), False)"
    "trusted user q" "DACL d = Inr (Some aces)" "loop user aces = None" by (rule with_dacl_accepts)
  from assms(1) d(1) have "IsValid d" by (auto simp: with_dacl_def split: if_splits)
  moreover have "trusted user p \<or> powers p d \<inter> R = {}" for p
    using d(3-5) assms(2) [OF d(6), of p] by (auto simp: powers_def)
  ultimately show ?thesis using d that by blast
qed

subsection \<open>The contract\<close>

text \<open>
  C13 (safety): whatever descriptor is accepted, and whoever the current user is, nobody but that
  user, the system and the administrators can change the object: neither as its owner, nor by an
  entry of its list, nor because it has no list. Accepted as a private directory, it gives nobody
  else any right at all, and has no allowing entry for anybody else, for children to inherit
  neither.
\<close>

theorem accepted_security:
  shows "(validatePrivateSecurity desc current = None \<longrightarrow>
            (\<exists>d user aces. desc = Some d \<and> current = Inr user \<and> IsValid d \<and> DACL d = Inr (Some aces)
               \<and> (\<forall>p. trusted user p
                     \<or> powers p d = {} \<and> (\<forall>a. Inr a \<in> set aces \<and> SidStart a = SID p \<longrightarrow> AceType a = AccessDenied))))
       \<and> (validateCreationSecurity desc current = None \<or> validateCurrentUserSecurity desc current = None \<longrightarrow>
            (\<exists>d user. desc = Some d \<and> current = Inr user \<and> IsValid d
               \<and> (\<forall>p. trusted user p \<or> powers p d \<inter> changing = {})))"
proof -
  have "\<exists>d user. desc = Some d \<and> current = Inr user \<and> IsValid d \<and> (\<forall>p. trusted user p \<or> powers p d \<inter> changing = {})"
    if "validateCreationSecurity desc current = None"
  proof -
    from that have "with_dacl desc current creation_aces = None" by (simp add: validateCreationSecurity_def)
    then show ?thesis
      by (rule accepted_powers [where R = changing]) (auto dest: creation_aces_grants no_changing_bits)
  qed
  moreover have "\<exists>d user aces. desc = Some d \<and> current = Inr user \<and> IsValid d \<and> DACL d = Inr (Some aces)
      \<and> (\<forall>p. trusted user p
            \<or> powers p d = {} \<and> (\<forall>a. Inr a \<in> set aces \<and> SidStart a = SID p \<longrightarrow> AceType a = AccessDenied))"
    if "validatePrivateSecurity desc current = None"
  proof -
    from that have "with_dacl desc current private_aces = None" by (simp add: validatePrivateSecurity_def)
    then show ?thesis
    proof (rule accepted_powers [where R = UNIV])
      fix d user aces
      assume "desc = Some d" "current = Inr user" "IsValid d" "DACL d = Inr (Some aces)" "private_aces user aces = None"
        "\<And>p. trusted user p \<or> powers p d \<inter> UNIV = {}"
      then show ?thesis by (auto dest: private_aces_denied)
    qed (auto dest: private_aces_grants)
  qed
  ultimately show ?thesis unfolding lock_security_creation by blast
qed

text \<open>
  C32 (equivalence): the two packages implement one policy: \<open>processlock\<close> accepts exactly the
  descriptors that \<open>privatedir\<close> accepts for the parent of a new directory, and every private
  directory is accepted by both.
\<close>

theorem one_policy:
  shows "(validateCurrentUserSecurity desc current = None \<longleftrightarrow> validateCreationSecurity desc current = None)
       \<and> (validatePrivateSecurity desc current = None \<longrightarrow> validateCurrentUserSecurity desc current = None)"
proof -
  have "validateCreationSecurity desc current = None" if "validatePrivateSecurity desc current = None"
  proof -
    from that have "with_dacl desc current private_aces = None" by (simp add: validatePrivateSecurity_def)
    then show ?thesis
    proof (rule with_dacl_accepts)
      fix d user p aces
      assume "desc = Some d" "current = Inr user" "Owner d = Inr (Some (SID p), False)" "trusted user p"
        "DACL d = Inr (Some aces)" "private_aces user aces = None"
      moreover have "IsValid d"
        using that \<open>desc = Some d\<close> by (auto simp: validatePrivateSecurity_def with_dacl_def split: if_splits)
      ultimately show ?thesis
        by (simp add: validateCreationSecurity_def with_dacl_def private_aces_creation)
    qed
  qed
  then show ?thesis by (simp add: lock_security_creation)
qed

subsection \<open>Witnesses\<close>

text \<open>Full control for the user, reading for everybody (principal 1).\<close>

definition readable_aces :: "(win_error, ace) result list" where
  "readable_aces =
        [Inr \<lparr>AceType = AccessAllowed, AceFlags = 0, Mask = GENERIC_ALL, SidStart = SID (Other 7)\<rparr>,
         Inr \<lparr>AceType = AccessAllowed, AceFlags = 3, Mask = 0x80000000, SidStart = SID (Other 1)\<rparr>,
         Inr \<lparr>AceType = AccessDenied, AceFlags = 0, Mask = 1, SidStart = Malformed\<rparr>]"

definition readable :: descriptor where
  "readable =
     \<lparr>IsValid = True, Owner = Inr (Some (SID (Other 7)), False), DACL = Inr (Some readable_aces)\<rparr>"

lemmas rights_eval = mutationRights_def GENERIC_WRITE_def GENERIC_ALL_def FILE_WRITE_DATA_def fileDeleteChild_def
  FILE_APPEND_DATA_def FILE_WRITE_EA_def FILE_WRITE_ATTRIBUTES_def DELETE_def WRITE_DAC_def WRITE_OWNER_def
  INHERIT_ONLY_ACE_def

lemma readable_accepted:
  "validateCurrentUserSecurity (Some readable) (Inr (Other 7)) = None"
  "validatePrivateSecurity (Some readable) (Inr (Other 7)) = Some GrantsAccess"
  by (simp_all add: validateCurrentUserSecurity_def validatePrivateSecurity_def with_dacl_def readable_def
      readable_aces_def trusted_def rights_eval)

theorem accepted_security_witness:
  "validateCurrentUserSecurity (Some readable) (Inr (Other 7)) = None \<and> powers (Other 1) readable \<inter> changing = {}
   \<and> 31 \<in> powers (Other 1) readable"
proof -
  from accepted_security [of "Some readable" "Inr (Other 7)"] readable_accepted(1)
  have "trusted (Other 7) (Other 1) \<or> powers (Other 1) readable \<inter> changing = {}" by auto
  moreover have "31 \<in> powers (Other 1) readable"
    by (simp add: powers_def readable_def readable_aces_def grants_def INHERIT_ONLY_ACE_def bit_simps)
  ultimately show ?thesis using readable_accepted(1) by (simp add: trusted_def)
qed

theorem one_policy_witness:
  "validateCreationSecurity (Some readable) (Inr (Other 7)) = None"
  using one_policy [of "Some readable" "Inr (Other 7)"] readable_accepted by simp

end
