(* ===== verification/Paths.thy ===== *)
theory Paths
  imports Prelude
begin

text \<open>
  What the packages use of \<open>path/filepath\<close> on Unix: \<open>Clean\<close> and \<open>Dir\<close>, as the documentation of
  \<open>Clean\<close> gives its rules, on the components between separators.
\<close>

abbreviation slash :: char where "slash \<equiv> CHR ''/''"

text \<open>The strings between the separators of a string, and back.\<close>

fun segments :: "string \<Rightarrow> string list" where
  "segments [] = [[]]"
| "segments (c # cs) =
     (if c = slash then [] # segments cs
      else case segments cs of [] \<Rightarrow> [[c]] | s # ss \<Rightarrow> (c # s) # ss)"

fun join :: "string list \<Rightarrow> string" where
  "join [] = []"
| "join [s] = s"
| "join (s # ss) = s @ slash # join ss"

text \<open>
  Empty components and \<open>.\<close> go; \<open>..\<close> goes with the component before it, stays at the head of a
  relative path, and goes at the head of a rooted one.
\<close>

fun clean_segments :: "bool \<Rightarrow> string list \<Rightarrow> string list \<Rightarrow> string list" where
  "clean_segments rooted out [] = rev out"
| "clean_segments rooted out (s # ss) =
     (if s = [] \<or> s = ''.'' then clean_segments rooted out ss
      else if s = ''..'' then
        (if out \<noteq> [] \<and> hd out \<noteq> ''..'' then clean_segments rooted (tl out) ss
         else if rooted then clean_segments rooted out ss
         else clean_segments rooted (s # out) ss)
      else clean_segments rooted (s # out) ss)"

definition rooted :: "string \<Rightarrow> bool" where
  "rooted path \<longleftrightarrow> path \<noteq> [] \<and> hd path = slash"

definition Clean :: "string \<Rightarrow> string" where
  "Clean path =
     (let out = (if rooted path then [slash] else []) @ join (clean_segments (rooted path) [] (segments path))
      in if out = [] then ''.'' else out)"

text \<open>\<open>Dir\<close>: \<open>Clean\<close> of everything up to the last separator.\<close>

definition Dir :: "string \<Rightarrow> string" where
  "Dir path = Clean (rev (dropWhile (\<lambda>c. c \<noteq> slash) (rev path)))"

text \<open>\<open>Base\<close>: the last element, without the separators at the end.\<close>

definition Base :: "string \<Rightarrow> string" where
  "Base p =
     (if p = [] then ''.''
      else let s = rev (dropWhile (\<lambda>c. c = slash) (rev p)) in
        if s = [] then [slash] else last (segments s))"

definition IsAbs :: "string \<Rightarrow> bool" where
  "IsAbs path = rooted path"

subsection \<open>Segments\<close>

lemma segments_not_Nil [simp]: "segments s \<noteq> []"
  by (cases s) (auto split: list.split)

lemma join_Cons: "ss \<noteq> [] \<Longrightarrow> join (s # ss) = s @ slash # join ss"
  by (cases ss) auto

lemma join_segments [simp]: "join (segments s) = s"
proof (induction s)
  case (Cons c s)
  show ?case
  proof (cases "c = slash")
    case False
    obtain t ts where "segments s = t # ts" by (cases "segments s") auto
    with Cons False show ?thesis by (cases ts) auto
  qed (use Cons in \<open>simp add: join_Cons\<close>)
qed simp

lemma segments_append_slash: "slash \<notin> set s \<Longrightarrow> segments (s @ slash # t) = s # segments t"
  by (induction s) auto

lemma segments_single: "slash \<notin> set s \<Longrightarrow> segments s = [s]"
  by (induction s) auto

lemma segments_join: "ss \<noteq> [] \<Longrightarrow> \<forall>s \<in> set ss. slash \<notin> set s \<Longrightarrow> segments (join ss) = ss"
  by (induction ss rule: join.induct) (auto simp: segments_append_slash segments_single)

lemma slash_notin_segments: "s \<in> set (segments t) \<Longrightarrow> slash \<notin> set s"
proof (induction t arbitrary: s)
  case (Cons c t)
  then show ?case by (cases "segments t") (auto split: if_splits)
qed simp

definition dot_free :: "string \<Rightarrow> bool" where
  "dot_free s \<longleftrightarrow> (\<forall>x \<in> set (segments s). x \<noteq> ''.'' \<and> x \<noteq> ''..'')"

lemma clean_dot_free:
  "\<forall>x \<in> set ss. x \<noteq> ''.'' \<and> x \<noteq> ''..'' \<Longrightarrow> clean_segments r out ss = rev out @ filter (\<lambda>x. x \<noteq> []) ss"
  by (induction ss arbitrary: out) auto

text \<open>A path without dot components is clean exactly if it is the root or has no empty component.\<close>

definition plain :: "string \<Rightarrow> bool" where
  "plain s \<longleftrightarrow> s = [slash] \<or> (\<forall>x \<in> set (segments (if rooted s then tl s else s)). x \<noteq> [])"

lemma join_filter_eq: "join (filter (\<lambda>x. x \<noteq> []) (segments u)) = u \<longleftrightarrow> u = [] \<or> (\<forall>x \<in> set (segments u). x \<noteq> [])"
proof
  assume *: "join (filter (\<lambda>x. x \<noteq> []) (segments u)) = u"
  show "u = [] \<or> (\<forall>x \<in> set (segments u). x \<noteq> [])"
  proof (cases "filter (\<lambda>x. x \<noteq> []) (segments u) = []")
    case False
    then have "segments (join (filter (\<lambda>x. x \<noteq> []) (segments u))) = filter (\<lambda>x. x \<noteq> []) (segments u)"
      by (intro segments_join) (auto dest: slash_notin_segments)
    with * have "filter (\<lambda>x. x \<noteq> []) (segments u) = segments u" by simp
    then show ?thesis by (metis (mono_tags, lifting) filter_id_conv)
  qed (use * in simp)
next
  assume "u = [] \<or> (\<forall>x \<in> set (segments u). x \<noteq> [])"
  then show "join (filter (\<lambda>x. x \<noteq> []) (segments u)) = u"
  proof
    assume "\<forall>x \<in> set (segments u). x \<noteq> []"
    then have "filter (\<lambda>x. x \<noteq> []) (segments u) = segments u" by (simp add: filter_id_conv)
    then show ?thesis by simp
  qed simp
qed

lemma Clean_fixpoint: "dot_free s \<Longrightarrow> Clean s = s \<longleftrightarrow> plain s"
proof -
  assume df: "dot_free s"
  show ?thesis
  proof (cases "rooted s")
    case True
    then obtain u where u: "s = slash # u" by (cases s) (auto simp: rooted_def)
    from df have "clean_segments True [] (segments s) = filter (\<lambda>x. x \<noteq> []) (segments u)"
      by (simp add: dot_free_def clean_dot_free u)
    with True u join_filter_eq [of u] show ?thesis by (auto simp: Clean_def plain_def)
  next
    case False
    from df have "clean_segments False [] (segments s) = filter (\<lambda>x. x \<noteq> []) (segments s)"
      by (simp add: dot_free_def clean_dot_free)
    moreover have "s \<noteq> ''.''" using df by (auto simp: dot_free_def)
    moreover have "s \<noteq> [slash]" using False by (auto simp: rooted_def)
    ultimately show ?thesis
      using False join_filter_eq [of s] by (cases "s = []") (auto simp: Clean_def plain_def Let_def split: if_splits)
  qed
qed

end
