(* ===== verification/PrivateDir.thy ===== *)
theory PrivateDir
  imports Paths "HOL-Library.Word"
begin

unbundle bit_operations_syntax

text \<open>
  \<open>privatedir\<close> on Unix: \<open>normalize\<close> of \<open>privatedir.go\<close>, and \<open>ensure\<close>, \<open>validateCreationParent\<close>
  and \<open>validate\<close> of \<open>privatedir_unix.go\<close> on a file system that maps paths to what \<open>lstat\<close> says
  of them. What other processes do between two system calls of \<open>ensure\<close> is an argument.
\<close>

subsection \<open>Paths\<close>

datatype path_error = EmptyPath | DotComponents

text \<open>The loop over the bytes finds the segments; the second takes separators off the end.\<close>

fun trim_end :: "string \<Rightarrow> string" where
  "trim_end path = (if length path > 1 \<and> last path = slash then trim_end (butlast path) else path)"

declare trim_end.simps [simp del]

definition normalize :: "string \<Rightarrow> (path_error, string) result" where
  "normalize path =
     (if list_ex (\<lambda>segment. segment = ''.'' \<or> segment = ''..'') (segments path) then Inl DotComponents
      else if Clean (trim_end path) \<noteq> trim_end path then Inl DotComponents
      else Inr (trim_end path))"







subsection \<open>Permissions\<close>

definition S_IFMT :: "32 word" where "S_IFMT = 0xF000"
definition S_IFDIR :: "32 word" where "S_IFDIR = 0x4000"
definition S_IFREG :: "32 word" where "S_IFREG = 0x8000"
definition S_IFSOCK :: "32 word" where "S_IFSOCK = 0xC000"
definition S_ISVTX :: "32 word" where "S_ISVTX = 0x0200"

text \<open>The octal modes 0700, 0077 and 0022.\<close>

definition owner_all :: "32 word" where "owner_all = 0x1C0"
definition others_any :: "32 word" where "others_any = 0x3F"
definition others_write :: "32 word" where "others_write = 0x12"

record stat =
  Mode :: "32 word"
  Uid :: "32 word"

type_synonym filesystem = "string \<Rightarrow> stat option"

datatype dir_error =
    InvalidPath path_error | NotExist | MkdirFailed nat | ChmodFailed nat
  | ParentNotDirectory | ParentUnsafe | ChangedIdentity | NotDirectory | WrongUser | NotPrivate

text \<open>Of the caller: its effective user, its file mode creation mask.\<close>

record caller =
  Geteuid :: "32 word"
  umask :: "32 word"

definition validateCreationParent :: "caller \<Rightarrow> filesystem \<Rightarrow> string \<Rightarrow> dir_error option" where
  "validateCreationParent me fs path =
     (case fs path of
        None \<Rightarrow> Some NotExist
      | Some st \<Rightarrow>
          if Mode st AND S_IFMT \<noteq> S_IFDIR then Some ParentNotDirectory
          else let stickyTrusted = Mode st AND S_ISVTX \<noteq> 0 \<and> (Uid st = 0 \<or> Uid st = Geteuid me) in
            if Mode st AND others_write = 0 \<or> stickyTrusted then None else Some ParentUnsafe)"

definition validate :: "caller \<Rightarrow> filesystem \<Rightarrow> string \<Rightarrow> dir_error option" where
  "validate me fs path =
     (case fs path of
        None \<Rightarrow> Some NotExist
      | Some st \<Rightarrow>
          if Mode st AND S_IFMT \<noteq> S_IFDIR then Some NotDirectory
          else if Uid st \<noteq> Geteuid me then Some WrongUser
          else if Mode st AND others_any \<noteq> 0 then Some NotPrivate
          else None)"

text \<open>
  \<open>os.Mkdir\<close> makes a directory of the caller with the permissions the mask leaves, or may fail
  for reasons of its own; \<open>os.Chmod\<close> sets the permissions and keeps the type.
\<close>

definition Mkdir :: "caller \<Rightarrow> filesystem \<Rightarrow> string \<Rightarrow> filesystem" where
  "Mkdir me fs path = fs(path \<mapsto> \<lparr>Mode = S_IFDIR OR (owner_all AND NOT (umask me)), Uid = Geteuid me\<rparr>)"

definition Chmod :: "filesystem \<Rightarrow> string \<Rightarrow> filesystem" where
  "Chmod fs path =
     (case fs path of None \<Rightarrow> fs | Some st \<Rightarrow> fs(path \<mapsto> st\<lparr>Mode := (Mode st AND S_IFMT) OR owner_all\<rparr>))"

text \<open>
  \<open>env1\<close>: what others do after \<open>Mkdir\<close>; \<open>env2\<close>: after the second \<open>Lstat\<close>. \<open>mkdir\<close> and \<open>chmod\<close>
  are failures of the calls other than that the path exists.
\<close>

definition ensure ::
  "caller \<Rightarrow> (filesystem \<Rightarrow> filesystem) \<Rightarrow> (filesystem \<Rightarrow> filesystem) \<Rightarrow> nat option \<Rightarrow> nat option
     \<Rightarrow> filesystem \<Rightarrow> string \<Rightarrow> dir_error option \<times> filesystem"
where
  "ensure me env1 env2 mkdir chmod fs path =
     (case validateCreationParent me fs (Dir path) of
        Some e \<Rightarrow> (Some e, fs)
      | None \<Rightarrow>
          if fs path \<noteq> None then (validate me fs path, fs)
          else case mkdir of
            Some e \<Rightarrow> (Some (MkdirFailed e), fs)
          | None \<Rightarrow>
              let fs1 = env1 (Mkdir me fs path) in
              (case fs1 path of
                 None \<Rightarrow> (Some NotExist, fs1)
               | Some st \<Rightarrow>
                   if Mode st AND S_IFMT \<noteq> S_IFDIR \<or> Uid st \<noteq> Geteuid me then (Some ChangedIdentity, fs1)
                   else case chmod of
                     Some e \<Rightarrow> (Some (ChmodFailed e), fs1)
                   | None \<Rightarrow>
                       let fs2 = Chmod (env2 fs1) path in (validate me fs2 path, fs2)))"

definition Ensure ::
  "caller \<Rightarrow> (filesystem \<Rightarrow> filesystem) \<Rightarrow> (filesystem \<Rightarrow> filesystem) \<Rightarrow> nat option \<Rightarrow> nat option
     \<Rightarrow> filesystem \<Rightarrow> string \<Rightarrow> dir_error option \<times> filesystem"
where
  "Ensure me env1 env2 mkdir chmod fs path =
     (if path = [] then (Some (InvalidPath EmptyPath), fs)
      else case normalize path of
        Inl e \<Rightarrow> (Some (InvalidPath e), fs)
      | Inr p \<Rightarrow> ensure me env1 env2 mkdir chmod fs p)"

definition Validate :: "caller \<Rightarrow> filesystem \<Rightarrow> string \<Rightarrow> dir_error option" where
  "Validate me fs path =
     (if path = [] then Some (InvalidPath EmptyPath)
      else case normalize path of
        Inl e \<Rightarrow> Some (InvalidPath e)
      | Inr p \<Rightarrow> validate me fs p)"

definition private_to :: "caller \<Rightarrow> stat \<Rightarrow> bool" where
  "private_to me st \<longleftrightarrow> Mode st AND S_IFMT = S_IFDIR \<and> Uid st = Geteuid me \<and> Mode st AND others_any = 0"

lemma validate_private [inversion]: "validate me fs path = None \<longleftrightarrow> (\<exists>st. fs path = Some st \<and> private_to me st)"
  by (auto simp: validate_def private_to_def split: option.split)

lemmas mode_bits = S_IFMT_def S_IFDIR_def owner_all_def others_any_def

lemma mkdir_type: "(S_IFDIR OR (owner_all AND u)) AND S_IFMT = S_IFDIR"
proof -
  have "owner_all AND u AND S_IFMT = u AND (owner_all AND S_IFMT)" by (simp only: and.assoc and.left_commute)
  also have "owner_all AND S_IFMT = 0" by (simp add: mode_bits)
  finally have "(owner_all AND u) AND S_IFMT = 0" by (simp only: and.assoc and_zero_eq)
  moreover have "S_IFDIR AND S_IFMT = S_IFDIR" by (simp add: mode_bits)
  ultimately show ?thesis by (simp add: word_ao_dist)
qed

lemma chmod_bits:
  "((m AND S_IFMT) OR owner_all) AND S_IFMT = m AND S_IFMT"
  "((m AND S_IFMT) OR owner_all) AND others_any = 0"
proof -
  have "owner_all AND S_IFMT = 0" "S_IFMT AND others_any = 0" "owner_all AND others_any = 0" by (simp_all add: mode_bits)
  then show "((m AND S_IFMT) OR owner_all) AND S_IFMT = m AND S_IFMT"
    and "((m AND S_IFMT) OR owner_all) AND others_any = 0"
    by (simp_all add: word_ao_dist and.assoc)
qed

subsection \<open>The contract\<close>


text \<open>
  C34 (safety): a call of \<open>Ensure\<close> that succeeds leaves, whatever others did meanwhile, a private
  directory of the caller at the normalized path. When nobody interferes, a path that existed is
  never modified, and of one that did not, only the new directory with mode 0700 is added.
\<close>

theorem Ensure_private:
  assumes "Ensure me env1 env2 mkdir chmod fs path = (e, fs')"
  shows "(e = None \<longrightarrow> (\<exists>p st. normalize path = Inr p \<and> fs' p = Some st \<and> private_to me st))
       \<and> (env1 = id \<and> env2 = id \<longrightarrow>
            (\<forall>p. normalize path = Inr p \<and> fs p \<noteq> None \<longrightarrow> fs' = fs)
            \<and> (\<forall>p. normalize path = Inr p \<and> fs p = None \<and> e = None \<longrightarrow>
                  fs' = fs(p \<mapsto> \<lparr>Mode = S_IFDIR OR owner_all, Uid = Geteuid me\<rparr>)))"
proof (cases "path = [] \<or> (\<exists>e. normalize path = Inl e)")
  case True
  with assms show ?thesis by (auto simp: Ensure_def split: if_splits)
next
  case False
  then obtain p where p: "normalize path = Inr p" by (cases "normalize path") auto
  with False assms have run: "ensure me env1 env2 mkdir chmod fs p = (e, fs')" by (simp add: Ensure_def)
  have "\<exists>st. fs' p = Some st \<and> private_to me st" if "e = None"
    using run that
    by (auto simp: ensure_def validate_private [symmetric] Let_def split: option.splits if_splits)
  moreover have "fs' = fs" if "fs p \<noteq> None"
    using run that by (auto simp: ensure_def split: option.splits)
  moreover have "fs' = fs(p \<mapsto> \<lparr>Mode = S_IFDIR OR owner_all, Uid = Geteuid me\<rparr>)"
    if "env1 = id" "env2 = id" "fs p = None" "e = None"
    using run that
    by (auto simp: ensure_def Mkdir_def Chmod_def Let_def mkdir_type split: option.splits if_splits)
  ultimately show ?thesis using p by auto
qed

subsection \<open>Witnesses\<close>

definition alice :: caller where
  "alice = \<lparr>Geteuid = 1000, umask = 0x12\<rparr>"

text \<open>\<open>/tmp\<close>, writable by all, sticky, of the superuser; and a directory open to others in it.\<close>

definition tmp_only :: filesystem where
  "tmp_only = [''/tmp'' \<mapsto> \<lparr>Mode = 0x43FF, Uid = 0\<rparr>, ''/tmp/open'' \<mapsto> \<lparr>Mode = 0x41ED, Uid = 1000\<rparr>]"

lemmas path_eval = normalize_def Clean_def rooted_def trim_end.simps Let_def Dir_def

lemma normalize_run: "normalize ''/tmp/run/'' = Inr ''/tmp/run''"
  by (simp add: path_eval)


lemma Ensure_run: "fst (Ensure alice id id None None tmp_only ''/tmp/run/'') = None"
  by (simp add: Ensure_def normalize_run ensure_def Dir_def path_eval tmp_only_def validateCreationParent_def
      S_ISVTX_def others_write_def alice_def Mkdir_def Chmod_def validate_def mode_bits)

theorem Ensure_private_witness:
  "\<exists>st. snd (Ensure alice id id None None tmp_only ''/tmp/run/'') ''/tmp/run'' = Some st \<and> private_to alice st"
  using Ensure_private [of alice id id None None tmp_only "''/tmp/run/''" None
      "snd (Ensure alice id id None None tmp_only ''/tmp/run/'')"] Ensure_run
  by (simp add: prod_eq_iff normalize_run)

text \<open>The reported reason is not always the real one: two separators in a row are no dot components.\<close>

lemma doubled_separator: "normalize ''a//b'' = Inl DotComponents \<and> dot_free ''a//b''"
  by (simp add: normalize_def Clean_def rooted_def dot_free_def trim_end.simps Let_def)

end
