(* ===== verification/LockLife.thy ===== *)
theory LockLife
  imports Prelude
begin

text \<open>
  \<open>processlock/processlock.go\<close>: the life cycle of \<open>Lock\<close>, for any number of processes with one lock
  each, on whatever the platform offers. \<open>acquire\<close> and the \<open>release\<close> of a \<open>lockHandle\<close> are arguments
  here; the locale says what the platforms promise of them, and that one lock is held by one
  process at a time is proved from that alone. ProcessLock and WindowsFiles keep the promises.
\<close>

subsection \<open>Lock\<close>

datatype 'e lock_error = ContextError nat | InvalidConfig | ErrStarted | AcquireFailed 'e

record 'h lock =
  Path :: string
  handle :: "'h option"

text \<open>
  The kernel's part of the state is \<open>'k\<close>. Ghost \<open>unsure\<close>: the processes whose last \<open>Stop\<close> could not
  tell whether the lock went.
\<close>

record ('k, 'h) lock_world =
  kernel :: 'k
  locks :: "'h lock list"
  unsure :: "nat set"

text \<open>\<open>New\<close>: the configuration with the default name, and the lock.\<close>

record lock_config =
  config_Path :: string
  config_Name :: string

definition New_lock :: "lock_config \<Rightarrow> lock_config \<times> 'h lock" where
  "New_lock c =
     (let c' = (if config_Name c = [] then c\<lparr>config_Name := ''process lock''\<rparr> else c)
      in (c', \<lparr>Path = config_Path c', handle = None\<rparr>))"

definition set_handle :: "nat \<Rightarrow> 'h option \<Rightarrow> ('k, 'h) lock_world \<Rightarrow> ('k, 'h) lock_world" where
  "set_handle i h w = w\<lparr>locks := (locks w)[i := (locks w ! i)\<lparr>handle := h\<rparr>]\<rparr>"

text \<open>\<open>Start\<close> and \<open>Stop\<close> hold the mutex of the lock throughout; \<open>ctx\<close> is the error of the context.\<close>

definition Start ::
  "(nat \<Rightarrow> string \<Rightarrow> 'k \<Rightarrow> ('e, 'h) result \<times> 'k) \<Rightarrow> nat option \<Rightarrow> nat \<Rightarrow> ('k, 'h) lock_world
     \<Rightarrow> 'e lock_error option \<times> ('k, 'h) lock_world"
where
  "Start acq ctx i w =
     (case ctx of
        Some e \<Rightarrow> (Some (ContextError e), w)
      | None \<Rightarrow>
          if Path (locks w ! i) = [] then (Some InvalidConfig, w)
          else if handle (locks w ! i) \<noteq> None then (Some ErrStarted, w)
          else case acq i (Path (locks w ! i)) (kernel w) of
            (Inl e, k) \<Rightarrow> (Some (AcquireFailed e), w\<lparr>kernel := k\<rparr>)
          | (Inr h, k) \<Rightarrow> (None, (set_handle i (Some h) (w\<lparr>kernel := k\<rparr>))\<lparr>unsure := unsure w - {i}\<rparr>))"

text \<open>A release tells whether the lock is gone for certain, and its errors.\<close>

definition Stop ::
  "(nat \<Rightarrow> 'h \<Rightarrow> 'k \<Rightarrow> bool \<times> 'x list \<times> 'k) \<Rightarrow> nat \<Rightarrow> ('k, 'h) lock_world \<Rightarrow> 'x list \<times> ('k, 'h) lock_world"
where
  "Stop rel i w =
     (case handle (locks w ! i) of
        None \<Rightarrow> ([], w)
      | Some h \<Rightarrow>
          (case rel i h (kernel w) of
             (released, errs, k) \<Rightarrow>
               (errs, if released then (set_handle i None (w\<lparr>kernel := k\<rparr>))\<lparr>unsure := unsure w - {i}\<rparr>
                      else w\<lparr>kernel := k, unsure := insert i (unsure w)\<rparr>)))"

text \<open>The end of a process: the kernel takes back what it held, and a new process may take its place.\<close>

definition crash :: "(nat \<Rightarrow> 'k \<Rightarrow> 'k) \<Rightarrow> nat \<Rightarrow> ('k, 'h) lock_world \<Rightarrow> ('k, 'h) lock_world" where
  "crash quit i w = (set_handle i None (w\<lparr>kernel := quit i (kernel w)\<rparr>))\<lparr>unsure := unsure w - {i}\<rparr>"

text \<open>A process starts, stops or ends; \<open>f\<close> and \<open>g\<close> are what the system calls of one call report.\<close>

inductive lock_step ::
  "('f \<Rightarrow> nat \<Rightarrow> string \<Rightarrow> 'k \<Rightarrow> ('e, 'h) result \<times> 'k) \<Rightarrow> ('g \<Rightarrow> nat \<Rightarrow> 'h \<Rightarrow> 'k \<Rightarrow> bool \<times> 'x list \<times> 'k) \<Rightarrow>
     (nat \<Rightarrow> 'k \<Rightarrow> 'k) \<Rightarrow> ('k, 'h) lock_world \<Rightarrow> ('k, 'h) lock_world \<Rightarrow> bool"
  for acq rel quit
where
  start: "i < length (locks w) \<Longrightarrow> lock_step acq rel quit w (snd (Start (acq f) ctx i w))"
| stop: "i < length (locks w) \<Longrightarrow> lock_step acq rel quit w (snd (Stop (rel g) i w))"
| crash: "i < length (locks w) \<Longrightarrow> lock_step acq rel quit w (crash quit i w)"

lemma set_handle_simps [simp]:
  "kernel (set_handle i h w) = kernel w" "unsure (set_handle i h w) = unsure w"
  "length (locks (set_handle i h w)) = length (locks w)"
  by (simp_all add: set_handle_def)

lemma set_handle_nth:
  "i < length (locks w) \<Longrightarrow>
   locks (set_handle i h w) ! j = (if j = i then (locks w ! i)\<lparr>handle := h\<rparr> else locks w ! j)"
  by (simp add: set_handle_def nth_list_update)

text \<open>Processes that have not started their locks, in a world where nobody holds one.\<close>

definition fresh_world :: "('k, 'h) lock_world \<Rightarrow> bool" where
  "fresh_world w \<longleftrightarrow> (\<forall>l \<in> set (locks w). handle l = None)"

lemma fresh_New_locks: "fresh_world \<lparr>kernel = k, locks = map (\<lambda>c. snd (New_lock c)) cs, unsure = {}\<rparr>"
  by (auto simp: fresh_world_def New_lock_def Let_def)

subsection \<open>The contract of a platform\<close>

text \<open>
  \<open>names\<close>: the file that a path names, once there is one; \<open>holder\<close>: the process that holds a file.
  Nobody takes a file from another process, a file keeps its name, acquiring gives the file that the
  path names if nobody holds it, and touches nothing if somebody does.
\<close>

locale lock_platform =
  fixes acq :: "'f \<Rightarrow> nat \<Rightarrow> string \<Rightarrow> 'k \<Rightarrow> ('e, 'h) result \<times> 'k"
    and rel :: "'g \<Rightarrow> nat \<Rightarrow> 'h \<Rightarrow> 'k \<Rightarrow> bool \<times> 'x list \<times> 'k"
    and quit :: "nat \<Rightarrow> 'k \<Rightarrow> 'k"
    and names :: "'k \<Rightarrow> string \<Rightarrow> 'h option"
    and holder :: "'k \<Rightarrow> 'h \<Rightarrow> nat option"
  assumes acquired: "acq f i p k = (Inr h, k') \<Longrightarrow> holder k h = None \<and> holder k' h = Some i \<and> names k' p = Some h"
    and acquire_keeps: "acq f i p k = (r, k') \<Longrightarrow> holder k x = Some j \<Longrightarrow> holder k' x = Some j"
    and acquire_names: "acq f i p k = (r, k') \<Longrightarrow> names k q = Some x \<Longrightarrow> names k' q = Some x"
    and acquire_busy: "acq f i p k = (r, k') \<Longrightarrow> names k p = Some x \<Longrightarrow> holder k x = Some j \<Longrightarrow> holder k' = holder k"
    and release_keeps: "rel g i h k = (b, es, k') \<Longrightarrow> holder k x = Some j \<Longrightarrow> j \<noteq> i \<Longrightarrow> holder k' x = Some j"
    and release_names: "rel g i h k = (b, es, k') \<Longrightarrow> names k' = names k"
    and quit_keeps: "holder k x = Some j \<Longrightarrow> j \<noteq> i \<Longrightarrow> holder (quit i k) x = Some j"
    and quit_names: "names (quit i k) = names k"
begin

text \<open>A handle is on the file of its path; one that is sure is backed by the kernel.\<close>

definition holds :: "('k, 'h) lock_world \<Rightarrow> bool" where
  "holds w \<longleftrightarrow>
     (\<forall>i < length (locks w). \<forall>h. handle (locks w ! i) = Some h \<longrightarrow>
        names (kernel w) (Path (locks w ! i)) = Some h \<and> (i \<notin> unsure w \<longrightarrow> holder (kernel w) h = Some i))"

lemma holdsD:
  "holds w \<Longrightarrow> i < length (locks w) \<Longrightarrow> handle (locks w ! i) = Some h \<Longrightarrow>
   names (kernel w) (Path (locks w ! i)) = Some h \<and> (i \<notin> unsure w \<longrightarrow> holder (kernel w) h = Some i)"
  by (simp add: holds_def)

lemma holds_acquired: "holds w \<Longrightarrow> acq f i p (kernel w) = (r, k) \<Longrightarrow> holds (w\<lparr>kernel := k\<rparr>)"
  by (auto simp: holds_def dest: acquire_keeps acquire_names)

lemma start_holds:
  assumes "holds w" and "i < length (locks w)"
  shows "holds (snd (Start (acq f) ctx i w))"
proof -
  obtain r k where acq: "acq f i (Path (locks w ! i)) (kernel w) = (r, k)" by fastforce
  note keep = holds_acquired [OF assms(1) acq]
  show ?thesis
  proof (cases r)
    case (Inl e)
    with acq keep assms(1) show ?thesis by (simp add: Start_def split: option.split)
  next
    case (Inr h)
    with acquired [of f i _ _ h k] acq keep assms(2)
    have "holds ((set_handle i (Some h) (w\<lparr>kernel := k\<rparr>))\<lparr>unsure := unsure w - {i}\<rparr>)"
      by (auto simp: holds_def set_handle_nth)
    with acq Inr assms(1) show ?thesis by (simp add: Start_def split: option.split)
  qed
qed

lemma stop_holds:
  assumes "holds w" and "i < length (locks w)"
  shows "holds (snd (Stop (rel g) i w))"
proof (cases "handle (locks w ! i)")
  case (Some h)
  obtain b es k where rel: "rel g i h (kernel w) = (b, es, k)" by (metis prod_cases3)
  have "holder k x = Some j" if "holder (kernel w) x = Some j" "j \<noteq> i" for x j
    using release_keeps [OF rel that] .
  with assms Some rel release_names [OF rel] show ?thesis
    by (auto simp: Stop_def holds_def set_handle_nth)
qed (use assms in \<open>simp add: Stop_def\<close>)

lemma crash_holds: "holds w \<Longrightarrow> i < length (locks w) \<Longrightarrow> holds (crash quit i w)"
  by (auto simp: crash_def holds_def set_handle_nth quit_names quit_keeps)

lemma step_holds: "lock_step acq rel quit w w' \<Longrightarrow> holds w \<Longrightarrow> holds w'"
  by (induction rule: lock_step.induct) (auto intro: start_holds stop_holds crash_holds)

end

text \<open>So the runs of a platform are a machine of the prelude.\<close>

sublocale lock_platform \<subseteq> life: concurrent_machine "lock_step acq rel quit" holds
  by unfold_locales (rule step_holds)

context lock_platform begin

lemma reachable_holds: "(lock_step acq rel quit)\<^sup>*\<^sup>* w0 w \<Longrightarrow> fresh_world w0 \<Longrightarrow> holds w"
  by (erule life.steps_inv) (auto simp: holds_def fresh_world_def)

text \<open>
  While a process holds the lock of a file for certain, no other process whose path names that file
  does, and its \<open>Start\<close> fails and takes nothing.
\<close>

lemma exclusive:
  assumes "(lock_step acq rel quit)\<^sup>*\<^sup>* w0 w" and "fresh_world w0"
    and "i < length (locks w)" and "handle (locks w ! i) \<noteq> None" and "i \<notin> unsure w"
    and "j < length (locks w)" and "j \<noteq> i"
    and "names (kernel w) (Path (locks w ! j)) = names (kernel w) (Path (locks w ! i))"
  shows "(handle (locks w ! j) \<noteq> None \<longrightarrow> j \<in> unsure w)
       \<and> fst (Start (acq f) ctx j w) \<noteq> None
       \<and> locks (snd (Start (acq f) ctx j w)) = locks w
       \<and> holder (kernel (snd (Start (acq f) ctx j w))) = holder (kernel w)"
proof -
  note inv = reachable_holds [OF assms(1,2)]
  from assms(4) obtain h where h: "handle (locks w ! i) = Some h" by blast
  with holdsD [OF inv assms(3)] assms(5) have held: "names (kernel w) (Path (locks w ! i)) = Some h" "holder (kernel w) h = Some i"
    by auto
  have "j \<in> unsure w" if "handle (locks w ! j) = Some h'" for h'
    using holdsD [OF inv assms(6) that] held assms(7,8) by auto
  moreover obtain r k where acq: "acq f j (Path (locks w ! j)) (kernel w) = (r, k)" by fastforce
  have "\<exists>e. r = Inl e"
  proof (cases r)
    case (Inr h')
    with acquired [of f j _ _ h' k] acq have "holder (kernel w) h' = None" "names k (Path (locks w ! j)) = Some h'" by auto
    moreover have "names k (Path (locks w ! j)) = Some h" using acquire_names [OF acq] held assms(8) by simp
    ultimately show ?thesis using held by simp
  qed simp
  moreover have "holder k = holder (kernel w)" using acquire_busy [OF acq] held assms(8) by simp
  ultimately show ?thesis using acq by (auto simp: Start_def split: option.split)
qed

end

end
