(* ===== verification/ProcessLock.thy ===== *)
theory ProcessLock
  imports PrivateDir LockLife
begin

text \<open>
  \<open>processlock\<close> on Unix: \<open>acquire\<close> and \<open>release\<close> of \<open>lock_unix.go\<close>, for any number of processes of one
  user on one file system, and with LockLife the locks they make. The kernel's table of \<open>flock\<close>
  maps a file, by its inode, to the process whose open file holds the lock.
\<close>

subsection \<open>Files\<close>

record lock_file =
  inode :: nat
  lf_Mode :: "32 word"
  lf_Uid :: "32 word"
  Nlink :: nat
  symlink :: bool

datatype unix_error =
    ErrLocked
  | ParentNotExist | ParentNotDir | ParentWrongUser | ParentNotPrivate
  | IsSymlink | NotRegular | FileWrongUser | MultipleLinks | FileNotPrivate
  | SystemError nat

text \<open>Directories, lock files, the lock table and the next inode.\<close>

record world =
  dirs :: filesystem
  files :: "string \<Rightarrow> lock_file option"
  flocks :: "nat \<Rightarrow> nat option"
  next_inode :: nat

subsection \<open>acquire\<close>

definition validatePrivateDirectory :: "caller \<Rightarrow> filesystem \<Rightarrow> string \<Rightarrow> unix_error option" where
  "validatePrivateDirectory me fs path =
     (case fs path of
        None \<Rightarrow> Some ParentNotExist
      | Some st \<Rightarrow>
          if Mode st AND S_IFMT \<noteq> S_IFDIR then Some ParentNotDir
          else if Uid st \<noteq> Geteuid me then Some ParentWrongUser
          else if Mode st AND others_any \<noteq> 0 then Some ParentNotPrivate
          else None)"

text \<open>
  \<open>unix.Open\<close> with \<open>O_RDWR|O_CREAT|O_NOFOLLOW\<close> and mode 0600: refuses a symbolic link, opens
  what is there, or makes a regular file.
\<close>

definition new_file :: "caller \<Rightarrow> nat \<Rightarrow> lock_file" where
  "new_file me i =
     \<lparr>inode = i, lf_Mode = S_IFREG OR (0x180 AND NOT (umask me)), lf_Uid = Geteuid me, Nlink = 1, symlink = False\<rparr>"

definition open_lock_file :: "caller \<Rightarrow> nat option \<Rightarrow> string \<Rightarrow> world \<Rightarrow> (unix_error, lock_file) result \<times> world" where
  "open_lock_file me failure path w =
     (case failure of
        Some e \<Rightarrow> (Inl (SystemError e), w)
      | None \<Rightarrow>
          (case files w path of
             Some f \<Rightarrow> (if symlink f then Inl IsSymlink else Inr f, w)
           | None \<Rightarrow>
               (let f = new_file me (next_inode w) in
                (Inr f, w\<lparr>files := (files w)(path \<mapsto> f), next_inode := next_inode w + 1\<rparr>))))"

definition check_lock_file :: "caller \<Rightarrow> lock_file \<Rightarrow> unix_error option" where
  "check_lock_file me f =
     (if lf_Mode f AND S_IFMT \<noteq> S_IFREG then Some NotRegular
      else if lf_Uid f \<noteq> Geteuid me then Some FileWrongUser
      else if Nlink f \<noteq> 1 then Some MultipleLinks
      else if lf_Mode f AND others_any \<noteq> 0 then Some FileNotPrivate
      else None)"

text \<open>\<open>unix.Flock\<close> with \<open>LOCK_EX|LOCK_NB\<close>, by process \<open>i\<close> on its new open file.\<close>

definition flock_ex_nb :: "nat option \<Rightarrow> nat \<Rightarrow> nat \<Rightarrow> world \<Rightarrow> unix_error option \<times> world" where
  "flock_ex_nb failure i ino w =
     (if flocks w ino \<noteq> None then (Some ErrLocked, w)
      else case failure of
        Some e \<Rightarrow> (Some (SystemError e), w)
      | None \<Rightarrow> (None, w\<lparr>flocks := (flocks w)(ino \<mapsto> i)\<rparr>))"

text \<open>What the system calls of \<open>acquire\<close> report beside what the state decides.\<close>

record faults =
  open_fault :: "nat option"
  fchmod_fault :: "nat option"
  flock_fault :: "nat option"

definition acquire :: "caller \<Rightarrow> faults \<Rightarrow> nat \<Rightarrow> string \<Rightarrow> world \<Rightarrow> (unix_error, nat) result \<times> world" where
  "acquire me flt i path w =
     (case validatePrivateDirectory me (dirs w) (Dir path) of
        Some e \<Rightarrow> (Inl e, w)
      | None \<Rightarrow>
          (case open_lock_file me (open_fault flt) path w of
             (Inl e, w') \<Rightarrow> (Inl e, w')
           | (Inr f, w') \<Rightarrow>
               (case check_lock_file me f of
                  Some e \<Rightarrow> (Inl e, w')
                | None \<Rightarrow>
                    (case fchmod_fault flt of
                       Some e \<Rightarrow> (Inl (SystemError e), w')
                     | None \<Rightarrow>
                         let w'' = w'\<lparr>files := (files w')(path \<mapsto> f\<lparr>lf_Mode := S_IFREG OR 0x180\<rparr>)\<rparr> in
                         (case flock_ex_nb (flock_fault flt) i (inode f) w'' of
                            (Some e, w3) \<Rightarrow> (Inl e, w3)
                          | (None, w3) \<Rightarrow> (Inr (inode f), w3))))))"

subsection \<open>release\<close>

text \<open>
  The errors of \<open>Flock(LOCK_UN)\<close> and of \<open>Close\<close>. The kernel drops the lock when one of them
  succeeds; when both fail nobody can tell, and \<open>dropped\<close> decides.
\<close>

fun release :: "nat option \<times> nat option \<times> bool \<Rightarrow> nat \<Rightarrow> nat \<Rightarrow> world \<Rightarrow> bool \<times> nat list \<times> world" where
  "release (unlockErr, closeErr, dropped) i h w =
     (unlockErr = None \<or> closeErr = None, leaves unlockErr @ leaves closeErr,
      if unlockErr = None \<or> closeErr = None \<or> dropped
      then w\<lparr>flocks := (\<lambda>n. if n = h \<and> flocks w n = Some i then None else flocks w n)\<rparr> else w)"

text \<open>The end of a process: the kernel closes its files.\<close>

definition close_files :: "nat \<Rightarrow> world \<Rightarrow> world" where
  "close_files i w = w\<lparr>flocks := (\<lambda>n. if flocks w n = Some i then None else flocks w n)\<rparr>"

lemmas lock_ops [step_defs] = open_lock_file_def new_file_def flock_ex_nb_def acquire_def

subsection \<open>The platform\<close>

text \<open>
  A private directory keeps other users from the lock file, and the package leaves it in place:
  its inode stays, and is what the path names.
\<close>

definition inode_at :: "world \<Rightarrow> string \<Rightarrow> nat option" where
  "inode_at w p = map_option inode (files w p)"

lemma acquire_outcome:
  assumes "acquire me flt i path w = (r, w')"
  shows "inode_at w q = Some x \<Longrightarrow> inode_at w' q = Some x"
    and "r = Inr h \<Longrightarrow> flocks w h = None \<and> flocks w' = (flocks w)(h \<mapsto> i) \<and> inode_at w' path = Some h"
    and "r = Inl e \<Longrightarrow> flocks w' = flocks w"
    and "inode_at w path = Some x \<Longrightarrow> flocks w x \<noteq> None \<Longrightarrow> flocks w' = flocks w"
  using assms
  by (auto simp: acquire_def open_lock_file_def flock_ex_nb_def inode_at_def Let_def
      split: option.splits sum.splits prod.splits if_splits)

interpretation unix_lock: lock_platform "acquire me" release close_files inode_at flocks for me
proof
  fix f i p k h k' r x j q g es b
  show "acquire me f i p k = (Inr h, k') \<Longrightarrow> flocks k h = None \<and> flocks k' h = Some i \<and> inode_at k' p = Some h"
    using acquire_outcome(2) [of me f i p k "Inr h" k' h] by simp
  show "acquire me f i p k = (r, k') \<Longrightarrow> flocks k x = Some j \<Longrightarrow> flocks k' x = Some j"
    using acquire_outcome(2,3) [of me f i p k r k'] by (cases r) auto
  show "acquire me f i p k = (r, k') \<Longrightarrow> inode_at k q = Some x \<Longrightarrow> inode_at k' q = Some x"
    by (rule acquire_outcome(1))
  show "acquire me f i p k = (r, k') \<Longrightarrow> inode_at k p = Some x \<Longrightarrow> flocks k x = Some j \<Longrightarrow> flocks k' = flocks k"
    using acquire_outcome(4) by simp
  show "release g i h k = (b, es, k') \<Longrightarrow> flocks k x = Some j \<Longrightarrow> j \<noteq> i \<Longrightarrow> flocks k' x = Some j"
    by (cases g) (auto split: if_splits)
  show "release g i h k = (b, es, k') \<Longrightarrow> inode_at k' = inode_at k"
    by (cases g) (auto simp: inode_at_def fun_eq_iff split: if_splits)
  show "flocks k x = Some j \<Longrightarrow> j \<noteq> i \<Longrightarrow> flocks (close_files i k) x = Some j"
    by (simp add: close_files_def)
  show "inode_at (close_files i k) = inode_at k"
    by (simp add: close_files_def inode_at_def fun_eq_iff)
qed

subsection \<open>The contract\<close>

text \<open>
  C5 (safety): however processes start, stop and crash, two of them never hold the lock of one
  path at the same time, unless a \<open>Stop\<close> of one of them failed to tell whether it let go. While
  one holds it, a \<open>Start\<close> by another fails and takes nothing.
\<close>

theorem mutual_exclusion:
  assumes "(lock_step (acquire me) release close_files)\<^sup>*\<^sup>* w0 w" and "fresh_world w0"
    and "i < length (locks w)" and "handle (locks w ! i) \<noteq> None" and "i \<notin> unsure w"
    and "j < length (locks w)" and "Path (locks w ! j) = Path (locks w ! i)" and "j \<noteq> i"
  shows "(handle (locks w ! j) \<noteq> None \<longrightarrow> j \<in> unsure w)
       \<and> fst (Start (acquire me flt) ctx j w) \<noteq> None
       \<and> locks (snd (Start (acquire me flt) ctx j w)) = locks w
       \<and> flocks (kernel (snd (Start (acquire me flt) ctx j w))) = flocks (kernel w)"
  by (rule unix_lock.exclusive [OF assms(1-6) assms(8)]) (simp add: assms(7))

subsection \<open>Witnesses\<close>

definition two_processes :: "(world, nat) lock_world" where
  "two_processes =
     \<lparr>kernel = \<lparr>dirs = [''/run'' \<mapsto> \<lparr>Mode = 0x41C0, Uid = 1000\<rparr>], files = Map.empty, flocks = Map.empty, next_inode = 3\<rparr>,
      locks = [\<lparr>Path = ''/run/l'', handle = None\<rparr>, \<lparr>Path = ''/run/l'', handle = None\<rparr>], unsure = {}\<rparr>"

definition no_faults :: faults where
  "no_faults = \<lparr>open_fault = None, fchmod_fault = None, flock_fault = None\<rparr>"

definition first_started :: "(world, nat) lock_world" where
  "first_started = snd (Start (acquire alice no_faults) None 0 two_processes)"

lemma Dir_run: "Dir ''/run/l'' = ''/run''"
  by (simp add: Dir_def path_eval)

lemma first_started_fields:
  "locks first_started = [\<lparr>Path = ''/run/l'', handle = Some 3\<rparr>, \<lparr>Path = ''/run/l'', handle = None\<rparr>]"
  "unsure first_started = {}"
  by (simp_all add: first_started_def two_processes_def no_faults_def alice_def lock_ops check_lock_file_def Dir_run
      validatePrivateDirectory_def mode_bits S_IFREG_def Start_def set_handle_def Let_def)

theorem mutual_exclusion_witness: "fst (Start (acquire alice no_faults) None 1 first_started) \<noteq> None"
proof -
  have "(lock_step (acquire alice) release close_files)\<^sup>*\<^sup>* two_processes first_started"
    unfolding first_started_def by (intro r_into_rtranclp lock_step.start) (simp add: two_processes_def)
  moreover have "fresh_world two_processes" by (simp add: fresh_world_def two_processes_def)
  ultimately show ?thesis
    using mutual_exclusion [of alice two_processes first_started 0 1 no_faults None]
    by (simp add: first_started_fields)
qed

end
