(* ===== verification/UnixEndpoint.thy ===== *)
theory UnixEndpoint
  imports PrivateDir
begin

text \<open>
  \<open>localgateway/endpoint_unix.go\<close>: making the gateway's socket, proving an old one stale, and
  removing a socket by its identity through a rename. Other processes may change the file system
  between two system calls: an interference is a function on file systems, and each operation
  takes one for every gap in which it matters.
\<close>

subsection \<open>Files\<close>

record node =
  device :: nat
  number :: nat       \<comment> \<open>the inode\<close>
  node_mode :: "32 word"
  node_uid :: "32 word"

type_synonym nodes = "string \<Rightarrow> node option"

type_synonym identity = "nat \<times> nat"

definition identity_of :: "node \<Rightarrow> identity" where
  "identity_of n = (device n, number n)"

datatype endpoint_error =
    NotAbsolute | ParentMissing | ParentUnsafe | Missing | NotPrivateSocket | WrongOwner
  | AlreadyActive | CannotProveStale nat | RefuseUnsafe endpoint_error | RemoveStale "endpoint_error list"
  | ListenFailed nat | AddressInUse | ProtectFailed nat | NoRandomness nat | RenameFailed nat | RemoveFailed nat
  | IdentityChanged | ReplacedDuringCleanup

text \<open>A \<open>os.FileInfo\<close> says whether the file is a socket from its type bits.\<close>

definition is_socket :: "node \<Rightarrow> bool" where
  "is_socket n \<longleftrightarrow> node_mode n AND S_IFMT = S_IFSOCK"

definition validateSocket :: "32 word \<Rightarrow> nodes \<Rightarrow> string \<Rightarrow> endpoint_error option" where
  "validateSocket euid fs endpoint =
     (case fs endpoint of
        None \<Rightarrow> Some Missing
      | Some n \<Rightarrow>
          if \<not> is_socket n \<or> node_mode n AND others_any \<noteq> 0 then Some NotPrivateSocket
          else if node_uid n \<noteq> euid then Some WrongOwner
          else None)"

definition validateEndpointParent :: "32 word \<Rightarrow> nodes \<Rightarrow> string \<Rightarrow> endpoint_error option" where
  "validateEndpointParent euid fs parent =
     (case fs parent of
        None \<Rightarrow> Some ParentMissing
      | Some n \<Rightarrow>
          if node_mode n AND S_IFMT \<noteq> S_IFDIR \<or> node_uid n \<noteq> euid \<or> node_mode n AND others_write \<noteq> 0
          then Some ParentUnsafe else None)"

definition socketIdentity :: "nodes \<Rightarrow> string \<Rightarrow> (endpoint_error, identity) result" where
  "socketIdentity fs endpoint = (case fs endpoint of None \<Rightarrow> Inl Missing | Some n \<Rightarrow> Inr (identity_of n))"

subsection \<open>Removing a socket\<close>

definition rename :: "nodes \<Rightarrow> string \<Rightarrow> string \<Rightarrow> nodes" where
  "rename fs a b = (fs(b := fs a))(a := None)"

text \<open>\<open>renameat2\<close> with \<open>RENAME_NOREPLACE\<close>; \<open>failure\<close> is an error other than that the target exists.\<close>

definition restoreSocketNoReplace :: "nat option \<Rightarrow> nodes \<Rightarrow> string \<Rightarrow> string \<Rightarrow> endpoint_error list \<times> nodes" where
  "restoreSocketNoReplace failure fs a b =
     (case failure of
        Some e \<Rightarrow> ([RenameFailed e], fs)
      | None \<Rightarrow>
          if fs a = None then ([Missing], fs)
          else if fs b \<noteq> None then ([ReplacedDuringCleanup], fs)
          else ([], rename fs a b))"

definition restoreQuarantinedSocket ::
  "(nodes \<Rightarrow> nodes) \<Rightarrow> nat option \<Rightarrow> nodes \<Rightarrow> string \<Rightarrow> string \<Rightarrow> endpoint_error list \<times> nodes"
where
  "restoreQuarantinedSocket env failure fs endpoint quarantine =
     (if fs endpoint \<noteq> None then ([ReplacedDuringCleanup], fs)
      else restoreSocketNoReplace failure (env fs) quarantine endpoint)"

text \<open>What the environment does to one call: interference in its gaps, and failures.\<close>

record removal_env =
  after_rename :: "nodes \<Rightarrow> nodes"
  after_identity :: "nodes \<Rightarrow> nodes"
  before_restore :: "nodes \<Rightarrow> nodes"
  no_suffix :: "nat option"
  rename_failure :: "nat option"
  restore_failure :: "nat option"
  remove_failure :: "nat option"

text \<open>\<open>cleanupPath\<close>: the endpoint with a random suffix.\<close>

definition cleanupPath :: "string \<Rightarrow> string \<Rightarrow> string" where
  "cleanupPath suffix endpoint = endpoint @ ''.cleanup-'' @ suffix"

definition removeOwnedSocket ::
  "removal_env \<Rightarrow> string \<Rightarrow> nodes \<Rightarrow> string \<Rightarrow> identity \<Rightarrow> endpoint_error list \<times> nodes"
where
  "removeOwnedSocket env suffix fs endpoint expected =
     (case no_suffix env of
        Some e \<Rightarrow> ([NoRandomness e], fs)
      | None \<Rightarrow>
     (let quarantine = cleanupPath suffix endpoint in
      if fs endpoint = None then ([], fs)
      else case rename_failure env of
        Some e \<Rightarrow> ([RenameFailed e], fs)
      | None \<Rightarrow>
          (let fs1 = after_rename env (rename fs endpoint quarantine) in
           case socketIdentity fs1 quarantine of
             Inl err \<Rightarrow>
               (case restoreQuarantinedSocket (before_restore env) (restore_failure env)
                      (after_identity env fs1) endpoint quarantine of
                  (errs, fs2) \<Rightarrow> ([err] @ errs, fs2))
           | Inr actual \<Rightarrow>
               if actual \<noteq> expected then
                 (case restoreQuarantinedSocket (before_restore env) (restore_failure env)
                        (after_identity env fs1) endpoint quarantine of
                    (errs, fs2) \<Rightarrow> ([IdentityChanged] @ errs, fs2))
               else
                 (let fs2 = after_identity env fs1 in
                  case remove_failure env of
                    Some e \<Rightarrow> ([RemoveFailed e], fs2)
                  | None \<Rightarrow> ([], fs2(quarantine := None))))))"

subsection \<open>Making the socket\<close>

text \<open>What a connection to an existing endpoint gives.\<close>

datatype dial = Connected | Refused | DialFailed nat

definition removeStaleSocket ::
  "32 word \<Rightarrow> dial \<Rightarrow> removal_env \<Rightarrow> string \<Rightarrow> nodes \<Rightarrow> string \<Rightarrow> endpoint_error option \<times> nodes"
where
  "removeStaleSocket euid dial env suffix fs endpoint =
     (case validateSocket euid fs endpoint of
        Some e \<Rightarrow> (if e = Missing then None else Some (RefuseUnsafe e), fs)
      | None \<Rightarrow>
          (case socketIdentity fs endpoint of
             Inl e \<Rightarrow> (Some e, fs)
           | Inr identity \<Rightarrow>
               (case dial of
                  Connected \<Rightarrow> (Some AlreadyActive, fs)
                | DialFailed e \<Rightarrow> (Some (CannotProveStale e), fs)
                | Refused \<Rightarrow>
                    (case removeOwnedSocket env suffix fs endpoint identity of
                       (errs, fs') \<Rightarrow> (if errs = [] then None else Some (RemoveStale errs), fs')))))"

text \<open>\<open>net.Listen\<close> makes a socket of the caller, or fails, also when the path is taken.\<close>

record listen_env =
  dialed :: dial
  stale_env :: removal_env
  stale_suffix :: string
  listen_failure :: "nat option"
  new_number :: nat
  new_mode :: "32 word"
  chmod_failure :: "nat option"

definition bound_socket :: "32 word \<Rightarrow> listen_env \<Rightarrow> node" where
  "bound_socket euid env =
     \<lparr>device = 1, number = new_number env, node_mode = S_IFSOCK OR (new_mode env AND 0x1FF), node_uid = euid\<rparr>"

definition chmod_socket :: "nodes \<Rightarrow> string \<Rightarrow> nodes" where
  "chmod_socket fs p =
     (case fs p of None \<Rightarrow> fs | Some n \<Rightarrow> fs(p \<mapsto> n\<lparr>node_mode := (node_mode n AND S_IFMT) OR 0x180\<rparr>))"

text \<open>The value is the identity that the cleanup function will expect.\<close>

definition listenLocal ::
  "32 word \<Rightarrow> listen_env \<Rightarrow> nodes \<Rightarrow> string \<Rightarrow> (endpoint_error, identity) result \<times> nodes"
where
  "listenLocal euid env fs endpoint =
     (if \<not> IsAbs endpoint then (Inl NotAbsolute, fs)
      else case validateEndpointParent euid fs (Dir endpoint) of
        Some e \<Rightarrow> (Inl e, fs)
      | None \<Rightarrow>
          (case removeStaleSocket euid (dialed env) (stale_env env) (stale_suffix env) fs endpoint of
             (Some e, fs1) \<Rightarrow> (Inl e, fs1)
           | (None, fs1) \<Rightarrow>
               if fs1 endpoint \<noteq> None then (Inl AddressInUse, fs1)
               else (case listen_failure env of
                  Some e \<Rightarrow> (Inl (ListenFailed e), fs1)
                | None \<Rightarrow>
                    let fs2 = fs1(endpoint \<mapsto> bound_socket euid env) in
                    (case chmod_failure env of
                       Some e \<Rightarrow> (Inl (ProtectFailed e), fs2(endpoint := None))
                     | None \<Rightarrow>
                         let fs3 = chmod_socket fs2 endpoint in
                         (case validateSocket euid fs3 endpoint of
                            Some e \<Rightarrow> (Inl e, fs3(endpoint := None))
                          | None \<Rightarrow>
                              (case socketIdentity fs3 endpoint of
                                 Inl e \<Rightarrow> (Inl e, fs3(endpoint := None))
                               | Inr identity \<Rightarrow> (Inr identity, fs3)))))))"

subsection \<open>Peers\<close>

text \<open>
  \<open>peerListener.Accept\<close> on the connections that the inner listener gives, each with the answer of
  \<open>peerAllowed\<close>; \<open>None\<close> once the inner listener fails. The second component are those it closed.
\<close>

fun peer_accept :: "('c \<times> (nat, bool) result) list \<Rightarrow> 'c option \<times> 'c list" where
  "peer_accept [] = (None, [])"
| "peer_accept ((c, allowed) # cs) =
     (if allowed = Inr True then (Some c, [])
      else case peer_accept cs of (r, closed) \<Rightarrow> (r, c # closed))"

text \<open>\<open>peerAllowed\<close>: the credentials of the peer, if the socket gives any.\<close>

definition peerAllowed :: "32 word \<Rightarrow> (nat, 32 word option) result \<Rightarrow> (nat, bool) result" where
  "peerAllowed euid credential =
     (case credential of Inl e \<Rightarrow> Inl e | Inr c \<Rightarrow> Inr (c = Some euid))"

lemmas endpoint_ops [step_defs] = rename_def restoreSocketNoReplace_def restoreQuarantinedSocket_def
  removeOwnedSocket_def socketIdentity_def

lemma peer_accept_allowed:
  "peer_accept cs = (r, closed) \<Longrightarrow>
   (case r of None \<Rightarrow> closed = map fst cs \<and> (\<forall>x \<in> set cs. snd x \<noteq> Inr True)
    | Some c \<Rightarrow> \<exists>before after. cs = before @ (c, Inr True) # after \<and> closed = map fst before
         \<and> (\<forall>x \<in> set before. snd x \<noteq> Inr True))"
proof (induction cs arbitrary: r closed)
  case (Cons x cs)
  obtain c allowed where x: "x = (c, allowed)" by (cases x)
  show ?case
  proof (cases "allowed = Inr True")
    case True
    with Cons.prems x show ?thesis by (auto intro!: exI [of _ "[]"])
  next
    case False
    with Cons.prems x obtain closed' where rest: "peer_accept cs = (r, closed')" "closed = c # closed'"
      by (auto split: prod.splits)
    show ?thesis
    proof (cases r)
      case None
      with Cons.IH [OF rest(1)] rest(2) x False show ?thesis by simp
    next
      case (Some c')
      with Cons.IH [OF rest(1)] obtain before after where "cs = before @ (c', Inr True) # after"
        "closed' = map fst before" "\<forall>x \<in> set before. snd x \<noteq> Inr True" by auto
      with x False rest(2) have "x # cs = ((c, allowed) # before) @ (c', Inr True) # after"
        "closed = map fst ((c, allowed) # before)" "\<forall>y \<in> set ((c, allowed) # before). snd y \<noteq> Inr True" by auto
      then show ?thesis unfolding Some option.case by blast
    qed
  qed
qed auto

subsection \<open>Interference\<close>

text \<open>Nobody knows the random name in the private parent: interference leaves it alone.\<close>

definition leaves_alone :: "removal_env \<Rightarrow> string \<Rightarrow> bool" where
  "leaves_alone env q \<longleftrightarrow>
     (\<forall>fs. after_rename env fs q = fs q \<and> after_identity env fs q = fs q \<and> before_restore env fs q = fs q)"

definition undisturbed :: "removal_env \<Rightarrow> bool" where
  "undisturbed env \<longleftrightarrow>
     after_rename env = id \<and> after_identity env = id \<and> before_restore env = id
     \<and> no_suffix env = None \<and> rename_failure env = None \<and> restore_failure env = None \<and> remove_failure env = None"

lemma cleanupPath_differs [simp]: "cleanupPath suffix endpoint \<noteq> endpoint" "endpoint \<noteq> cleanupPath suffix endpoint"
  by (simp_all add: cleanupPath_def)

lemma rename_back: "fs b = None \<Longrightarrow> a \<noteq> b \<Longrightarrow> rename (rename fs a b) b a = fs"
  by (auto simp: rename_def)

lemma rename_remove: "fs b = None \<Longrightarrow> a \<noteq> b \<Longrightarrow> (rename fs a b)(b := None) = fs(a := None)"
  by (auto simp: rename_def)

lemma rename_at: "a \<noteq> b \<Longrightarrow> rename fs a b b = fs a" "rename fs a b a = None"
  by (simp_all add: rename_def)

text \<open>
  The states in which the other processes leave the file system during a call: after the rename,
  after the look at the identity, and, if the call goes on to restore what it found, after the
  look at the endpoint.
\<close>

definition left_by_others :: "removal_env \<Rightarrow> string \<Rightarrow> nodes \<Rightarrow> string \<Rightarrow> identity \<Rightarrow> nodes list" where
  "left_by_others env q fs endpoint expected =
     (if no_suffix env \<noteq> None \<or> rename_failure env \<noteq> None then []
      else let fs1 = after_rename env (rename fs endpoint q); fs2 = after_identity env fs1
           in [fs1, fs2] @ (if socketIdentity fs1 q \<noteq> Inr expected \<and> fs2 endpoint = None then [before_restore env fs2] else []))"

text \<open>Nobody else takes the file \<open>m\<close> away from \<open>p\<close> again.\<close>

definition stays :: "removal_env \<Rightarrow> string \<Rightarrow> node \<Rightarrow> bool" where
  "stays env p m \<longleftrightarrow>
     (\<forall>fs. fs p = Some m \<longrightarrow> after_rename env fs p = Some m \<and> after_identity env fs p = Some m \<and> before_restore env fs p = Some m)"

lemma staysD:
  "stays env p m \<Longrightarrow> fs p = Some m \<Longrightarrow> after_rename env fs p = Some m"
  "stays env p m \<Longrightarrow> fs p = Some m \<Longrightarrow> after_identity env fs p = Some m"
  "stays env p m \<Longrightarrow> fs p = Some m \<Longrightarrow> before_restore env fs p = Some m"
  by (simp_all add: stays_def)

text \<open>The steps of the program itself leave what stands at any path but that of the quarantine.\<close>

lemma restore_keeps:
  assumes "restoreQuarantinedSocket env failure fs endpoint q = (errs, fs')" and "p \<noteq> q"
    and "if fs endpoint = None then env fs p = Some m else fs p = Some m"
  shows "fs' p = Some m"
  using assms
  by (auto simp: restoreQuarantinedSocket_def restoreSocketNoReplace_def rename_def split: if_splits option.splits)

lemma restore_reports:
  "restoreQuarantinedSocket env failure fs endpoint q = (errs, fs') \<Longrightarrow> fs endpoint \<noteq> None \<Longrightarrow> errs = [ReplacedDuringCleanup]"
  by (simp add: restoreQuarantinedSocket_def)

lemma removal_keeps:
  assumes run: "removeOwnedSocket env suffix fs endpoint expected = (errs, fs')" and n: "fs endpoint = Some n"
    and q: "q = cleanupPath suffix endpoint" and p: "p \<noteq> q" and stays: "stays env p m"
    and g: "g \<in> set (left_by_others env q fs endpoint expected)" "g p = Some m"
  shows "fs' p = Some m"
proof -
  let ?fs1 = "after_rename env (rename fs endpoint q)"
  let ?fs2 = "after_identity env ?fs1"
  from g(1) have none: "no_suffix env = None" "rename_failure env = None" by (auto simp: left_by_others_def split: if_splits)
  show ?thesis
  proof (cases "socketIdentity ?fs1 q = Inr expected")
    case True
    with g none have "?fs2 p = Some m" by (auto simp: left_by_others_def Let_def intro: staysD(2) [OF stays])
    with run n none True p show ?thesis
      by (auto simp: removeOwnedSocket_def q Let_def split: option.splits)
  next
    case False
    then obtain es where es: "restoreQuarantinedSocket (before_restore env) (restore_failure env) ?fs2 endpoint q = (es, fs')"
      using run n none by (auto simp: removeOwnedSocket_def q Let_def split: sum.splits prod.splits if_splits)
    have "if ?fs2 endpoint = None then before_restore env ?fs2 p = Some m else ?fs2 p = Some m"
      using g none False by (auto simp: left_by_others_def Let_def intro: staysD [OF stays] split: if_splits)
    from restore_keeps [OF es p this] show ?thesis .
  qed
qed

lemma removal_untouched:
  assumes "removeOwnedSocket env suffix fs endpoint expected = (errs, fs')" and "fs endpoint = Some n"
    and "p \<noteq> cleanupPath suffix endpoint" and "p \<noteq> endpoint" and "stays env p m" and "fs p = Some m"
  shows "fs' p = Some m"
proof (cases "no_suffix env = None \<and> rename_failure env = None")
  case True
  have "rename fs endpoint (cleanupPath suffix endpoint) p = Some m" using assms(3,4,6) by (simp add: rename_def)
  from staysD(1) [where fs = "rename fs endpoint (cleanupPath suffix endpoint)", OF assms(5) this] show ?thesis
    by (rule removal_keeps [OF assms(1,2) refl assms(3,5), rotated]) (simp add: left_by_others_def Let_def True)
next
  case False
  with assms show ?thesis by (auto simp: removeOwnedSocket_def Let_def split: option.splits)
qed

lemma removal_reports:
  assumes run: "removeOwnedSocket env suffix fs endpoint expected = (errs, fs')" and n: "fs endpoint = Some n"
    and alone: "leaves_alone env q" and q: "q = cleanupPath suffix endpoint" and other: "identity_of n \<noteq> expected"
    and g: "g \<in> set (take 2 (left_by_others env q fs endpoint expected))" "g endpoint = Some m" and stays: "stays env endpoint m"
  shows "ReplacedDuringCleanup \<in> set errs"
proof -
  let ?fs1 = "after_rename env (rename fs endpoint q)"
  let ?fs2 = "after_identity env ?fs1"
  from g(1) have none: "no_suffix env = None" "rename_failure env = None" by (auto simp: left_by_others_def split: if_splits)
  have "?fs1 q = Some n" using alone n by (simp add: leaves_alone_def rename_def q)
  moreover obtain es fs'' where
    es: "restoreQuarantinedSocket (before_restore env) (restore_failure env) ?fs2 endpoint q = (es, fs'')" by fastforce
  ultimately have "errs = IdentityChanged # es"
    using run n none other by (simp add: removeOwnedSocket_def socketIdentity_def q Let_def)
  moreover have "?fs2 endpoint = Some m"
    using g none by (auto simp: left_by_others_def Let_def intro: staysD(2) [OF stays])
  ultimately show ?thesis using restore_reports [OF es] by simp
qed

subsection \<open>The contract\<close>

text \<open>
  C6 (safety): removing the endpoint by identity never destroys another file, whatever others do
  meanwhile; the random name of the quarantine is theirs to leave alone. If what is found
  at the endpoint is not the socket that was expected, the call fails and that file is still
  there, at its place or in quarantine; and when nobody disturbs the call and the quarantine name
  is free, it is back in its place and nothing else changed. A call that succeeds found the
  expected socket, and it is gone. A file that another process has at any other path, or puts at
  the endpoint or anywhere else while the call is running, and does not itself take away again, is
  there at the end; if it was put at the endpoint before the restore looked there, in place of a file
  that was not expected, the call reports it.
\<close>

theorem removal_only_own:
  assumes "removeOwnedSocket env suffix fs endpoint expected = (errs, fs')" and "fs endpoint = Some n"
    and "leaves_alone env (cleanupPath suffix endpoint)"
  shows "(identity_of n \<noteq> expected \<longrightarrow>
            errs \<noteq> [] \<and> (fs' endpoint = Some n \<or> fs' (cleanupPath suffix endpoint) = Some n))
       \<and> (errs = [] \<longrightarrow> identity_of n = expected \<and> fs' (cleanupPath suffix endpoint) = None)
       \<and> (undisturbed env \<and> fs (cleanupPath suffix endpoint) = None \<longrightarrow>
            fs' = (if identity_of n = expected then fs(endpoint := None) else fs))
       \<and> (\<forall>p m. p \<noteq> cleanupPath suffix endpoint \<and> stays env p m
            \<and> (fs p = Some m \<and> p \<noteq> endpoint
               \<or> (\<exists>g \<in> set (left_by_others env (cleanupPath suffix endpoint) fs endpoint expected). g p = Some m))
            \<longrightarrow> fs' p = Some m)
       \<and> (\<forall>m. identity_of n \<noteq> expected \<and> stays env endpoint m
            \<and> (\<exists>g \<in> set (take 2 (left_by_others env (cleanupPath suffix endpoint) fs endpoint expected)). g endpoint = Some m)
            \<longrightarrow> ReplacedDuringCleanup \<in> set errs)"
proof -
  let ?q = "cleanupPath suffix endpoint"
  have keep: "after_rename env g ?q = g ?q" "after_identity env g ?q = g ?q" "before_restore env g ?q = g ?q" for g
    using assms(3) by (auto simp: leaves_alone_def)
  have q: "rename fs endpoint ?q ?q = Some n" using assms(2) by (simp add: rename_def)
  have "errs \<noteq> [] \<and> (fs' endpoint = Some n \<or> fs' ?q = Some n)" if "identity_of n \<noteq> expected"
    using assms(1,2) that q keep
    by (auto simp: endpoint_ops Let_def split: option.splits if_splits prod.splits)
  moreover have "identity_of n = expected \<and> fs' ?q = None" if "errs = []"
    using assms(1,2) that q keep
    by (auto simp: endpoint_ops Let_def split: option.splits if_splits prod.splits)
  moreover have "fs' = (if identity_of n = expected then fs(endpoint := None) else fs)"
    if "undisturbed env" "fs ?q = None"
    using assms(1,2) that
    by (auto simp: restoreSocketNoReplace_def restoreQuarantinedSocket_def removeOwnedSocket_def socketIdentity_def
        undisturbed_def Let_def rename_back rename_remove rename_at)
  moreover note removal_keeps [OF assms(1,2) refl] removal_untouched [OF assms(1,2)]
    removal_reports [OF assms(1,2,3) refl]
  ultimately show ?thesis by blast
qed

lemma socket_bits:
  "((m AND S_IFMT) OR 0x180) AND S_IFMT = m AND S_IFMT"
  "((m AND S_IFMT) OR 0x180) AND others_any = 0"
  "(S_IFSOCK OR (m AND 0x1FF)) AND S_IFMT = S_IFSOCK"
proof -
  have *: "(0x180 :: 32 word) AND S_IFMT = 0" "S_IFMT AND others_any = 0" "(0x180 :: 32 word) AND others_any = 0"
    "(0x1FF :: 32 word) AND S_IFMT = 0" "S_IFSOCK AND S_IFMT = S_IFSOCK"
    by (simp_all add: mode_bits S_IFSOCK_def)
  then show "((m AND S_IFMT) OR 0x180) AND S_IFMT = m AND S_IFMT"
    and "((m AND S_IFMT) OR 0x180) AND others_any = 0"
    and "(S_IFSOCK OR (m AND 0x1FF)) AND S_IFMT = S_IFSOCK"
    by (simp_all add: word_ao_dist and.assoc)
qed

definition private_socket :: "32 word \<Rightarrow> node \<Rightarrow> bool" where
  "private_socket euid n \<longleftrightarrow> is_socket n \<and> node_mode n AND others_any = 0 \<and> node_uid n = euid"

lemma validateSocket_private [inversion]:
  "validateSocket euid fs p = None \<longleftrightarrow> (\<exists>n. fs p = Some n \<and> private_socket euid n)"
  by (auto simp: validateSocket_def private_socket_def split: option.split)

lemma removeStaleSocket_outcome:
  assumes "removeStaleSocket euid dial env suffix fs endpoint = (r, fs')"
  shows "fs' = fs \<or> dial = Refused \<and> (\<exists>n. fs endpoint = Some n \<and> private_socket euid n)"
    and "r = None \<Longrightarrow> fs endpoint = None \<and> fs' = fs \<or> dial = Refused \<and> (\<exists>n. fs endpoint = Some n \<and> private_socket euid n)"
proof -
  have v: "\<exists>n. fs endpoint = Some n \<and> private_socket euid n" if "validateSocket euid fs endpoint = None"
    using that by (simp add: validateSocket_private)
  have m: "validateSocket euid fs endpoint = Some Missing \<Longrightarrow> fs endpoint = None"
    by (auto simp: validateSocket_def split: option.splits if_splits)
  from assms v show "fs' = fs \<or> dial = Refused \<and> (\<exists>n. fs endpoint = Some n \<and> private_socket euid n)"
    unfolding removeStaleSocket_def by (auto split: option.splits sum.splits dial.splits)
  from assms v m show "r = None \<Longrightarrow> fs endpoint = None \<and> fs' = fs
      \<or> dial = Refused \<and> (\<exists>n. fs endpoint = Some n \<and> private_socket euid n)"
    unfolding removeStaleSocket_def by (auto split: option.splits sum.splits dial.splits if_splits)
qed

lemma listen_private:
  "listenLocal euid env fs endpoint = (Inr ident, fs') \<Longrightarrow>
     \<exists>n. fs' endpoint = Some n \<and> private_socket euid n \<and> identity_of n = ident"
  by (auto simp: listenLocal_def validateSocket_private socketIdentity_def Let_def
      split: option.splits if_splits prod.splits sum.splits)

text \<open>
  C35 (roundtrip): a gateway that listens has at its endpoint a socket that only its user can
  reach, with the identity its cleanup expects; the place was free, or held a private socket of
  the user that refused a connection, and anything else there is left as it was. The cleanup,
  undisturbed, takes away exactly this socket.
\<close>

theorem listen_then_cleanup:
  assumes "listenLocal euid env fs endpoint = (r, fs')"
  shows "(\<forall>ident. r = Inr ident \<longrightarrow>
            (\<exists>n. fs' endpoint = Some n \<and> private_socket euid n \<and> identity_of n = ident)
            \<and> (\<forall>cl suffix. undisturbed cl \<and> fs' (cleanupPath suffix endpoint) = None \<longrightarrow>
                 removeOwnedSocket cl suffix fs' endpoint ident = ([], fs'(endpoint := None))))
       \<and> (\<forall>n. fs endpoint = Some n \<and> \<not> (private_socket euid n \<and> dialed env = Refused) \<longrightarrow>
            (\<exists>e. r = Inl e) \<and> fs' = fs)"
proof -
  have "\<exists>n. fs' endpoint = Some n \<and> private_socket euid n \<and> identity_of n = ident" if "r = Inr ident" for ident
    using assms that listen_private by blast
  moreover have "removeOwnedSocket cl suffix fs' endpoint ident = ([], fs'(endpoint := None))"
    if "fs' endpoint = Some n" "identity_of n = ident" "undisturbed cl" "fs' (cleanupPath suffix endpoint) = None"
    for n ident cl suffix
    using that
    by (simp add: removeOwnedSocket_def socketIdentity_def undisturbed_def Let_def rename_remove rename_at)
  moreover have "(\<exists>e. r = Inl e) \<and> fs' = fs"
    if "fs endpoint = Some n" "\<not> (private_socket euid n \<and> dialed env = Refused)" for n
  proof -
    obtain s fs1 where s: "removeStaleSocket euid (dialed env) (stale_env env) (stale_suffix env) fs endpoint = (s, fs1)"
      by fastforce
    from removeStaleSocket_outcome [OF s] that have "fs1 = fs" "s \<noteq> None" by auto
    with assms s show ?thesis by (auto simp: listenLocal_def split: option.splits if_splits)
  qed
  ultimately show ?thesis by blast
qed

subsection \<open>Witnesses\<close>

definition calm :: removal_env where
  "calm = \<lparr>after_rename = id, after_identity = id, before_restore = id, no_suffix = None,
     rename_failure = None, restore_failure = None, remove_failure = None\<rparr>"

text \<open>A stale socket of user 1000 in his directory, and a listener that takes its place.\<close>

definition stale_fs :: nodes where
  "stale_fs =
     [''/run'' \<mapsto> \<lparr>device = 1, number = 1, node_mode = 0x41ED, node_uid = 1000\<rparr>,
      ''/run/s'' \<mapsto> \<lparr>device = 1, number = 2, node_mode = 0xC180, node_uid = 1000\<rparr>]"

definition listening :: listen_env where
  "listening = \<lparr>dialed = Refused, stale_env = calm, stale_suffix = ''01'', listen_failure = None,
     new_number = 5, new_mode = 0x1FF, chmod_failure = None\<rparr>"

lemma Dir_run_s: "Dir ''/run/s'' = ''/run''"
  by (simp add: Dir_def path_eval)

lemmas stale_eval = stale_fs_def listening_def calm_def Dir_run_s listenLocal_def IsAbs_def rooted_def
  validateEndpointParent_def removeStaleSocket_def validateSocket_def is_socket_def socketIdentity_def identity_of_def
  removeOwnedSocket_def cleanupPath_def rename_def bound_socket_def chmod_socket_def Let_def mode_bits S_IFSOCK_def
  others_write_def

lemma listening_result: "fst (listenLocal 1000 listening stale_fs ''/run/s'') = Inr (1, 5)"
  by (simp add: stale_eval)

text \<open>Another process puts a socket of its own at the endpoint while the call looks at what it moved away.\<close>

definition intruder :: node where
  "intruder = \<lparr>device = 1, number = 9, node_mode = 0xC180, node_uid = 1000\<rparr>"

definition busy :: removal_env where
  "busy = calm\<lparr>after_rename := (\<lambda>fs. fs(''/run/s'' \<mapsto> intruder))\<rparr>"

theorem removal_only_own_witness:
  "\<exists>errs fs'. removeOwnedSocket busy ''01'' stale_fs ''/run/s'' (1, 3) = (errs, fs')
     \<and> fs' ''/run/s'' = Some intruder \<and> fs' (cleanupPath ''01'' ''/run/s'') = stale_fs ''/run/s''
     \<and> ReplacedDuringCleanup \<in> set errs"
proof -
  let ?n = "\<lparr>device = 1, number = 2, node_mode = 0xC180, node_uid = 1000\<rparr>" and ?q = "cleanupPath ''01'' ''/run/s''"
  let ?g = "after_rename busy (rename stale_fs ''/run/s'' ?q)"
  obtain errs fs' where run: "removeOwnedSocket busy ''01'' stale_fs ''/run/s'' (1, 3) = (errs, fs')" by fastforce
  have n: "stale_fs ''/run/s'' = Some ?n" "identity_of ?n \<noteq> (1, 3)" by (simp_all add: stale_fs_def identity_of_def)
  have "leaves_alone busy ?q" "stays busy ''/run/s'' intruder"
    by (simp_all add: leaves_alone_def stays_def busy_def calm_def cleanupPath_def)
  moreover have "?g \<in> set (take 2 (left_by_others busy ?q stale_fs ''/run/s'' (1, 3)))" "?g ''/run/s'' = Some intruder"
    by (simp_all add: left_by_others_def busy_def calm_def Let_def numeral_2_eq_2)
  moreover from this(1) have "?g \<in> set (left_by_others busy ?q stale_fs ''/run/s'' (1, 3))" by (rule in_set_takeD)
  ultimately have "fs' ''/run/s'' = Some intruder" "ReplacedDuringCleanup \<in> set errs"
    "fs' ''/run/s'' = Some ?n \<or> fs' ?q = Some ?n"
    using removal_only_own [OF run n(1)] n(2) cleanupPath_differs(2) by blast+
  with run n(1) show ?thesis by (simp add: intruder_def)
qed

theorem listen_then_cleanup_witness:
  "\<exists>n. snd (listenLocal 1000 listening stale_fs ''/run/s'') ''/run/s'' = Some n
     \<and> private_socket 1000 n \<and> identity_of n = (1, 5)"
  using listen_then_cleanup [of 1000 listening stale_fs "''/run/s''" "Inr (1, 5)"
      "snd (listenLocal 1000 listening stale_fs ''/run/s'')"] listening_result
  by (simp add: prod_eq_iff)

end
