(* ===== verification/GoStrings.thy ===== *)
theory GoStrings
  imports Prelude
begin

text \<open>
  What the packages use of \<open>strings\<close>, \<open>encoding/hex\<close> and \<open>bufio\<close>: strings are lists of bytes.
\<close>

subsection \<open>strings\<close>

text \<open>
  The length of the white space character at the head of a string, 0 if there is none: the ASCII
  ones, U+0085, U+00A0, U+1680, U+2000 to U+200A, U+2028, U+2029, U+202F, U+205F and U+3000 in
  UTF-8. None of these byte sequences occurs inside the encoding of another character.
\<close>

definition ascii_space :: "char \<Rightarrow> bool" where
  "ascii_space c \<longleftrightarrow> c \<in> {CHR 0x09, CHR 0x0A, CHR 0x0B, CHR 0x0C, CHR 0x0D, CHR 0x20}"

definition wide_space :: "char \<Rightarrow> char \<Rightarrow> char \<Rightarrow> bool" where
  "wide_space a b c \<longleftrightarrow>
     a = CHR 0xE1 \<and> b = CHR 0x9A \<and> c = CHR 0x80
     \<or> a = CHR 0xE2 \<and> b = CHR 0x80 \<and>
         (c \<in> {CHR 0x80, CHR 0x81, CHR 0x82, CHR 0x83, CHR 0x84, CHR 0x85, CHR 0x86, CHR 0x87, CHR 0x88,
               CHR 0x89, CHR 0x8A, CHR 0xA8, CHR 0xA9, CHR 0xAF})
     \<or> a = CHR 0xE2 \<and> b = CHR 0x81 \<and> c = CHR 0x9F
     \<or> a = CHR 0xE3 \<and> b = CHR 0x80 \<and> c = CHR 0x80"

fun space_len :: "string \<Rightarrow> nat" where
  "space_len [] = 0"
| "space_len (a # s) =
     (if ascii_space a then 1
      else case s of
        [] \<Rightarrow> 0
      | b # t \<Rightarrow>
          if a = CHR 0xC2 \<and> (b = CHR 0x85 \<or> b = CHR 0xA0) then 2
          else case t of [] \<Rightarrow> 0 | c # _ \<Rightarrow> if wide_space a b c then 3 else 0)"

definition word_of :: "string \<Rightarrow> string list" where
  "word_of cur = (if cur = [] then [] else [rev cur])"

function fields_from :: "string \<Rightarrow> string \<Rightarrow> string list" where
  "fields_from cur [] = word_of cur"
| "fields_from cur (c # cs) =
     (if space_len (c # cs) = 0 then fields_from (c # cur) cs
      else word_of cur @ fields_from [] (drop (space_len (c # cs)) (c # cs)))"
  by pat_completeness auto
termination
  by (relation "measure (\<lambda>(_, s). length s)") auto

declare fields_from.simps(2) [simp del] space_len.simps(2) [simp del]

text \<open>\<open>strings.Fields\<close>.\<close>

definition Fields :: "string \<Rightarrow> string list" where
  "Fields s = fields_from [] s"

lemma fields_from_nonempty: "w \<in> set (fields_from cur s) \<Longrightarrow> w \<noteq> []"
  by (induction cur s rule: fields_from.induct)
     (auto simp: word_of_def fields_from.simps(2) split: if_splits)

lemma Fields_nonempty: "w \<in> set (Fields s) \<Longrightarrow> w \<noteq> []"
  by (simp add: Fields_def fields_from_nonempty)

text \<open>\<open>strings.TrimSpace\<close>: what is left without the white space at the head and at the end.\<close>

function trim_left :: "string \<Rightarrow> string" where
  "trim_left s = (if space_len s = 0 \<or> s = [] then s else trim_left (drop (space_len s) s))"
  by pat_completeness auto
termination
  by (relation "measure length") auto

declare trim_left.simps [simp del]

fun trim_right :: "string \<Rightarrow> string" where
  "trim_right [] = []"
| "trim_right (c # cs) = (if trim_left (c # cs) = [] then [] else c # trim_right cs)"

definition TrimSpace :: "string \<Rightarrow> string" where
  "TrimSpace s = trim_right (trim_left s)"

lemma fields_from_Cons: "fields_from (c # cur) s \<noteq> []"
proof (induction s arbitrary: c cur rule: length_induct)
  case (1 s)
  show ?case
  proof (cases s)
    case (Cons a t)
    with 1 [rule_format, of t a "c # cur"] show ?thesis by (auto simp: fields_from.simps(2) word_of_def)
  qed (simp add: word_of_def)
qed

lemma trim_left_Fields: "trim_left s = [] \<longleftrightarrow> Fields s = []"
proof (induction s rule: trim_left.induct)
  case (1 s)
  show ?case
  proof (cases s)
    case (Cons c cs)
    show ?thesis
    proof (cases "space_len s = 0")
      case True
      with Cons fields_from_Cons [of c "[]" cs] show ?thesis
        by (simp add: trim_left.simps [of "c # cs"] Fields_def fields_from.simps(2))
    next
      case False
      with Cons 1 show ?thesis by (simp add: trim_left.simps [of "c # cs"] Fields_def fields_from.simps(2) word_of_def)
    qed
  qed (simp add: trim_left.simps Fields_def word_of_def)
qed

text \<open>Trimming leaves nothing exactly of what has no words.\<close>

lemma TrimSpace_empty_iff: "TrimSpace s = [] \<longleftrightarrow> Fields s = []"
proof -
  have idem: "trim_left (trim_left s) = trim_left s" for s
    by (induction s rule: trim_left.induct) (metis trim_left.simps)
  have "trim_right (trim_left s) = [] \<longleftrightarrow> trim_left s = []"
    using idem [of s] by (cases "trim_left s") auto
  then show ?thesis by (simp add: TrimSpace_def trim_left_Fields)
qed

text \<open>\<open>strings.TrimSuffix\<close>.\<close>

definition TrimSuffix :: "string \<Rightarrow> string \<Rightarrow> string" where
  "TrimSuffix s suffix =
     (if length suffix \<le> length s \<and> drop (length s - length suffix) s = suffix
      then take (length s - length suffix) s else s)"

lemma TrimSuffix_append [simp]: "TrimSuffix (s @ suffix) suffix = s"
  by (simp add: TrimSuffix_def)

subsection \<open>encoding/hex\<close>

definition hex_digits :: string where "hex_digits = ''0123456789abcdef''"

definition hex_char :: "nat \<Rightarrow> char" where
  "hex_char n = hex_digits ! n"

text \<open>The value of a digit of either case.\<close>

definition hex_value :: "char \<Rightarrow> nat option" where
  "hex_value c =
     (let n = of_char c :: nat in
      if 48 \<le> n \<and> n \<le> 57 then Some (n - 48)
      else if 97 \<le> n \<and> n \<le> 102 then Some (n - 87)
      else if 65 \<le> n \<and> n \<le> 70 then Some (n - 55)
      else None)"

definition EncodeToString :: "string \<Rightarrow> string" where
  "EncodeToString bs = concat (map (\<lambda>b. [hex_char (of_char b div 16), hex_char (of_char b mod 16)]) bs)"

fun DecodeString :: "string \<Rightarrow> string option" where
  "DecodeString [] = Some []"
| "DecodeString [c] = None"
| "DecodeString (a # b # cs) =
     (case (hex_value a, hex_value b) of
        (Some x, Some y) \<Rightarrow> map_option (\<lambda>bs. char_of (16 * x + y) # bs) (DecodeString cs)
      | _ \<Rightarrow> None)"

lemma length_EncodeToString [simp]: "length (EncodeToString bs) = 2 * length bs"
  by (induction bs) (simp_all add: EncodeToString_def)

lemma hex_value_char: "n < 16 \<Longrightarrow> hex_value (hex_char n) = Some n"
proof -
  assume "n < 16"
  then have "n \<in> {0, 1, 2, 3, 4, 5, 6, 7, 8, 9, 10, 11, 12, 13, 14, 15}" by (simp add: eval_nat_numeral less_Suc_eq)
  then show ?thesis by (auto simp: hex_char_def hex_digits_def hex_value_def)
qed

lemma of_char_less_256: "(of_char c :: nat) < 256"
  by (metis of_char_mod_256 mod_less_divisor zero_less_numeral)

lemma Decode_Encode: "DecodeString (EncodeToString bs) = Some bs"
proof (induction bs)
  case (Cons b bs)
  have "of_char b div 16 < (16 :: nat)" using of_char_less_256 [of b] by (simp add: less_mult_imp_div_less)
  then show ?case using Cons
    by (simp add: EncodeToString_def hex_value_char)
qed (simp add: EncodeToString_def)

lemma hex_value_not_slash: "hex_value c = Some n \<Longrightarrow> c \<noteq> CHR ''/'' \<and> c \<noteq> CHR ''.''"
  by (auto simp: hex_value_def)

lemma DecodeString_digits: "DecodeString s = Some bs \<Longrightarrow> c \<in> set s \<Longrightarrow> \<exists>n. hex_value c = Some n"
  by (induction s arbitrary: bs rule: DecodeString.induct) (auto split: option.splits prod.splits)

subsection \<open>bufio.Scanner\<close>

text \<open>
  The lines that a \<open>bufio.Scanner\<close> finds in an input, and the error that is left when it is through:
  a carriage return at the end of a line is dropped, a last line need not be terminated (what was
  read before an error is one), and a line that fills the buffer of 64 KiB without its end stops the
  scan. \<open>err\<close> is the error that the reader reports after its bytes, \<open>None\<close> for \<open>io.EOF\<close>; it comes with
  a read of no bytes, as from a file.
\<close>

datatype scan_error = ErrTooLong | ReadError nat

definition newline :: char where "newline = CHR 0x0A"

definition MaxScanTokenSize :: nat where "MaxScanTokenSize = 64 * 1024"

definition dropCR :: "string \<Rightarrow> string" where
  "dropCR l = (if l \<noteq> [] \<and> last l = CHR 0x0D then butlast l else l)"

function scan_lines :: "nat option \<Rightarrow> string \<Rightarrow> string list \<times> scan_error option" where
  "scan_lines err bs =
     (if bs = [] then ([], map_option ReadError err)
      else
        let line = takeWhile (\<lambda>c. c \<noteq> newline) bs in
        if MaxScanTokenSize \<le> length line then ([], Some ErrTooLong)
        else case scan_lines err (tl (dropWhile (\<lambda>c. c \<noteq> newline) bs)) of
          (ls, e) \<Rightarrow> (dropCR line # ls, e))"
  by pat_completeness auto
termination
proof (relation "measure (\<lambda>(_, bs). length bs)", simp_all)
  fix bs :: string
  assume "bs \<noteq> []"
  then have "0 < length bs" by simp
  with length_dropWhile_le [of "\<lambda>c. c \<noteq> newline" bs] show "length (dropWhile (\<lambda>c. c \<noteq> newline) bs) - Suc 0 < length bs"
    by linarith
qed

declare scan_lines.simps [simp del]

text \<open>Lines that are short enough and hold no line ends are found again.\<close>

definition plain_line :: "string \<Rightarrow> bool" where
  "plain_line l \<longleftrightarrow> length l < MaxScanTokenSize \<and> newline \<notin> set l \<and> (l = [] \<or> last l \<noteq> CHR 0x0D)"

lemma scan_lines_plain:
  "list_all plain_line ls \<Longrightarrow> scan_lines err (concat (map (\<lambda>l. l @ [newline]) ls)) = (ls, map_option ReadError err)"
proof (induction ls)
  case (Cons l ls)
  then have "takeWhile (\<lambda>c. c \<noteq> newline) (l @ newline # r) = l" "dropWhile (\<lambda>c. c \<noteq> newline) (l @ newline # r) = newline # r" for r
    by (auto simp: plain_line_def takeWhile_append takeWhile_eq_Nil_iff dropWhile_append)
  with Cons show ?case
    by (subst scan_lines.simps) (auto simp: Let_def plain_line_def dropCR_def)
qed (simp add: scan_lines.simps)

end
