(* ===== verification/NetHttp.thy ===== *)
theory NetHttp
  imports GoStrings "HOL-Library.Monad_Syntax"
begin

text \<open>
  What the packages use of \<open>net/url\<close> and \<open>net/http\<close>. \<open>url.Parse\<close> is written out, except its
  reading of the authority (\<open>user@host:port\<close>), which is the argument \<open>au\<close>: whether user
  information is present, and the host, or the refusal. \<open>http.Client.Do\<close> follows redirects; the
  transport below it is a field of the client.
\<close>

subsection \<open>url.Parse\<close>

record url =
  Scheme :: string
  Host :: string
  User :: bool
  Path :: string
  RawQuery :: string
  Fragment :: string

type_synonym authority = "string \<Rightarrow> (bool \<times> string) option"

definition cut :: "char \<Rightarrow> string \<Rightarrow> string \<times> string" where
  "cut c s = (takeWhile (\<lambda>x. x \<noteq> c) s, drop 1 (dropWhile (\<lambda>x. x \<noteq> c) s))"

definition ctl_byte :: "char \<Rightarrow> bool" where
  "ctl_byte c \<longleftrightarrow> (of_char c :: nat) < 32 \<or> c = CHR 0x7F"

definition letter :: "char \<Rightarrow> bool" where
  "letter c \<longleftrightarrow> (let n = of_char c :: nat in 65 \<le> n \<and> n \<le> 90 \<or> 97 \<le> n \<and> n \<le> 122)"

definition scheme_tail :: "char \<Rightarrow> bool" where
  "scheme_tail c \<longleftrightarrow> (let n = of_char c :: nat in 48 \<le> n \<and> n \<le> 57) \<or> c \<in> {CHR ''+'', CHR ''-'', CHR ''.''}"

definition lower :: "char \<Rightarrow> char" where
  "lower c = (let n = of_char c :: nat in if 65 \<le> n \<and> n \<le> 90 then char_of (n + 32) else c)"

text \<open>\<open>getScheme\<close>: the scheme and the rest; \<open>None\<close> for a string that begins with a colon.\<close>

fun scheme_from :: "string \<Rightarrow> string \<Rightarrow> (string \<times> string) option" where
  "scheme_from acc [] = None"
| "scheme_from acc (c # cs) =
     (if letter c then scheme_from (acc @ [c]) cs
      else if scheme_tail c then (if acc = [] then None else scheme_from (acc @ [c]) cs)
      else if c = CHR '':'' then Some (acc, cs)
      else None)"

definition getScheme :: "string \<Rightarrow> (string \<times> string) option" where
  "getScheme s =
     (case scheme_from [] s of
        None \<Rightarrow> Some ([], s)
      | Some (sch, rest) \<Rightarrow> if sch = [] then None else Some (sch, rest))"

text \<open>\<open>unescape\<close> for a path or a fragment: \<open>%\<close> and two hexadecimal digits are a byte.\<close>

fun unescape :: "string \<Rightarrow> string option" where
  "unescape [] = Some []"
| "unescape (c # cs) =
     (if c = CHR ''%'' then
        (case cs of
           a # b # ds \<Rightarrow>
             (case (hex_value a, hex_value b) of
                (Some x, Some y) \<Rightarrow> map_option (\<lambda>s. char_of (16 * x + y) # s) (unescape ds)
              | _ \<Rightarrow> None)
         | _ \<Rightarrow> None)
      else map_option (\<lambda>s. c # s) (unescape cs))"

definition no_url :: url where
  "no_url = \<lparr>Scheme = [], Host = [], User = False, Path = [], RawQuery = [], Fragment = []\<rparr>"

definition split_authority :: "string \<Rightarrow> string \<times> string" where
  "split_authority s = (takeWhile (\<lambda>c. c \<noteq> CHR ''/'') s, dropWhile (\<lambda>c. c \<noteq> CHR ''/'') s)"

definition parse_hier :: "authority \<Rightarrow> url \<Rightarrow> string \<Rightarrow> url option" where
  "parse_hier au u rest =
     (if take 2 rest = ''//'' \<and> (Scheme u \<noteq> [] \<or> take 3 rest \<noteq> ''///'') then
        (case split_authority (drop 2 rest) of
           (a, p) \<Rightarrow>
             (case au a of
                None \<Rightarrow> None
              | Some (user, host) \<Rightarrow>
                  map_option (\<lambda>path. u\<lparr>User := user, Host := host, Path := path\<rparr>) (unescape p)))
      else map_option (\<lambda>path. u\<lparr>Path := path\<rparr>) (unescape rest))"

definition parse_ref :: "authority \<Rightarrow> string \<Rightarrow> url option" where
  "parse_ref au s =
     (if list_ex ctl_byte s then None
      else if s = ''*'' then Some (no_url\<lparr>Path := ''*''\<rparr>)
      else case getScheme s of
        None \<Rightarrow> None
      | Some (sch, r) \<Rightarrow>
          (case cut (CHR ''?'') r of
             (rest, query) \<Rightarrow>
               let u = no_url\<lparr>Scheme := map lower sch, RawQuery := query\<rparr> in
               if take 1 rest \<noteq> ''/'' \<and> Scheme u \<noteq> [] then Some u
               else if take 1 rest \<noteq> ''/'' \<and> CHR '':'' \<in> set (fst (cut (CHR ''/'') rest)) then None
               else parse_hier au u rest))"

definition Parse :: "authority \<Rightarrow> string \<Rightarrow> url option" where
  "Parse au raw =
     (case cut (CHR ''#'') raw of
        (s, frag) \<Rightarrow>
          (case parse_ref au s of
             None \<Rightarrow> None
           | Some u \<Rightarrow>
               if frag = [] then Some u
               else map_option (\<lambda>f. u\<lparr>Fragment := f\<rparr>) (unescape frag)))"

lemma parse_hier_Scheme: "parse_hier au u rest = Some u' \<Longrightarrow> Scheme u' = Scheme u"
  by (auto simp: parse_hier_def split: if_splits option.splits prod.splits)

lemma parse_ref_Scheme:
  assumes "parse_ref au s = Some u" and "Scheme u \<noteq> []"
  shows "\<exists>sch rest. scheme_from [] s = Some (sch, rest) \<and> sch \<noteq> [] \<and> Scheme u = map lower sch"
  using assms
  by (auto simp: parse_ref_def getScheme_def no_url_def Let_def dest!: parse_hier_Scheme
      split: if_splits option.splits prod.splits)

lemma Parse_Scheme:
  assumes "Parse au raw = Some u" and "Scheme u \<noteq> []"
  shows "\<exists>sch rest. scheme_from [] (fst (cut (CHR ''#'') raw)) = Some (sch, rest) \<and> sch \<noteq> []
           \<and> Scheme u = map lower sch"
  using assms
  by (auto simp: Parse_def dest!: parse_ref_Scheme split: if_splits option.splits prod.splits)

text \<open>The scheme is read off a prefix that ends with the first colon.\<close>

lemma scheme_from_prefix:
  "scheme_from acc s = Some (sch, rest) \<Longrightarrow>
     \<exists>p. s = p @ CHR '':'' # rest \<and> sch = acc @ p \<and> CHR ''/'' \<notin> set p \<and> CHR ''#'' \<notin> set p
       \<and> (\<forall>t. scheme_from acc (p @ CHR '':'' # t) = Some (sch, t))"
proof (induction s arbitrary: acc)
  case (Cons c cs)
  show ?case
  proof (cases "letter c \<or> scheme_tail c")
    case True
    then have "scheme_from (acc @ [c]) cs = Some (sch, rest)" and ok: "letter c \<or> acc \<noteq> []"
      using Cons.prems by (auto split: if_splits)
    from Cons.IH [OF this(1)] obtain p where p: "cs = p @ CHR '':'' # rest" "sch = (acc @ [c]) @ p"
      "CHR ''/'' \<notin> set p" "CHR ''#'' \<notin> set p"
      "\<forall>t. scheme_from (acc @ [c]) (p @ CHR '':'' # t) = Some (sch, t)" by blast
    have "c \<noteq> CHR ''/''" "c \<noteq> CHR ''#''" using True by (auto simp: letter_def scheme_tail_def)
    with p ok True show ?thesis by (intro exI [of _ "c # p"]) auto
  next
    case False
    then have "c = CHR '':''" "sch = acc" "rest = cs" using Cons.prems by (auto split: if_splits)
    with False show ?thesis by (intro exI [of _ "[]"]) auto
  qed
qed simp

lemma fst_cut_append: "c \<notin> set p \<Longrightarrow> d \<noteq> c \<Longrightarrow> fst (cut c (p @ d # t)) = p @ d # fst (cut c t)"
  by (induction p) (auto simp: cut_def)

text \<open>Adding a path to a URL (less its final slash) does not change the scheme.\<close>

lemma Parse_extend:
  assumes "Parse au raw = Some u" and "Scheme u \<noteq> []"
    and "Parse au (TrimSuffix raw ''/'' @ t) = Some u'"
  shows "Scheme u' = Scheme u"
proof -
  let ?cut = "\<lambda>s. fst (cut (CHR ''#'') s)"
  from Parse_Scheme [OF assms(1,2)] obtain sch rest where
    sch: "scheme_from [] (?cut raw) = Some (sch, rest)" "sch \<noteq> []" "Scheme u = map lower sch" by blast
  from scheme_from_prefix [OF sch(1)] obtain p where
    p: "?cut raw = p @ CHR '':'' # rest" "sch = p" "CHR ''/'' \<notin> set p" "CHR ''#'' \<notin> set p"
    and any: "\<And>t. scheme_from [] (p @ CHR '':'' # t) = Some (sch, t)" by auto
  have "\<exists>r. raw = ?cut raw @ r"
    by (intro exI [of _ "dropWhile (\<lambda>x. x \<noteq> CHR ''#'') raw"]) (simp add: cut_def)
  with p(1) obtain r where raw: "raw = p @ CHR '':'' # r" by auto
  have "\<exists>r'. TrimSuffix raw ''/'' = p @ CHR '':'' # r'"
  proof (cases "r = []")
    case True
    with raw show ?thesis by (intro exI [of _ "[]"]) (simp add: TrimSuffix_def)
  next
    case False
    then obtain k where "length r = Suc k" by (cases r) auto
    with raw show ?thesis by (auto simp: TrimSuffix_def)
  qed
  then obtain r' where "TrimSuffix raw ''/'' @ t = p @ CHR '':'' # (r' @ t)" by auto
  then have cut': "?cut (TrimSuffix raw ''/'' @ t) = p @ CHR '':'' # ?cut (r' @ t)"
    using p(4) by (simp add: fst_cut_append)
  from assms(3) obtain v where v: "parse_ref au (?cut (TrimSuffix raw ''/'' @ t)) = Some v" "Scheme u' = Scheme v"
    by (auto simp: Parse_def split: option.splits if_splits prod.splits)
  have "CHR '':'' \<in> set (p @ CHR '':'' # ?cut (r' @ t))" by simp
  then have "p @ CHR '':'' # ?cut (r' @ t) \<noteq> ''*''" by force
  then have "Scheme v = map lower sch"
    using v(1) any sch(2) unfolding cut'
    by (auto simp: parse_ref_def getScheme_def no_url_def Let_def dest!: parse_hier_Scheme
        split: if_splits option.splits prod.splits)
  with v sch show ?thesis by simp
qed

subsection \<open>http.Client\<close>

record 'r response =
  StatusCode :: int
  Location :: string
  ContentType :: string
  Body :: 'r

datatype redirect_error = ErrUseLastResponse | Refused nat

text \<open>
  \<open>Transport\<close>: the answer to a request when the requests of the first argument have been sent
  before it. \<open>Resolve\<close>: a \<open>Location\<close> header read against the URL of its request.
\<close>

record 'r client =
  Transport :: "url list \<Rightarrow> url \<Rightarrow> 'r response option"
  Resolve :: "url \<Rightarrow> string \<Rightarrow> url option"
  CheckRedirect :: "(url \<Rightarrow> url list \<Rightarrow> redirect_error option) option"

definition default_check :: "url list \<Rightarrow> redirect_error option" where
  "default_check via = (if 10 \<le> length via then Some (Refused 10) else None)"

definition check_redirect :: "'r client \<Rightarrow> url \<Rightarrow> url list \<Rightarrow> redirect_error option" where
  "check_redirect c req via =
     (case CheckRedirect c of None \<Rightarrow> default_check via | Some f \<Rightarrow> f req via)"

datatype http_error = TransportFailed | BadLocation | RedirectRefused nat

definition is_redirect :: "'r response \<Rightarrow> bool" where
  "is_redirect resp \<longleftrightarrow> StatusCode resp \<in> {301, 302, 303, 307, 308} \<and> Location resp \<noteq> []"

text \<open>
  \<open>Client.Do\<close> for a GET request: the response or the error, and the requests sent. \<open>None\<close>: a
  client whose own \<open>CheckRedirect\<close> never refuses can be redirected for ever.
\<close>

partial_function (option) send_from ::
  "'r client \<Rightarrow> url list \<Rightarrow> url \<Rightarrow> ((http_error, 'r response) result \<times> url list) option"
where
  "send_from c via req =
     (case Transport c via req of
        None \<Rightarrow> Some (Inl TransportFailed, via @ [req])
      | Some resp \<Rightarrow>
          if \<not> is_redirect resp then Some (Inr resp, via @ [req])
          else (case Resolve c req (Location resp) of
            None \<Rightarrow> Some (Inl BadLocation, via @ [req])
          | Some req' \<Rightarrow>
              (case check_redirect c req' (via @ [req]) of
                 None \<Rightarrow> send_from c (via @ [req]) req'
               | Some ErrUseLastResponse \<Rightarrow> Some (Inr resp, via @ [req])
               | Some (Refused n) \<Rightarrow> Some (Inl (RedirectRefused n), via @ [req]))))"

definition Do :: "'r client \<Rightarrow> url \<Rightarrow> ((http_error, 'r response) result \<times> url list) option" where
  "Do c req = send_from c [] req"

text \<open>Every request sent is the first one or has passed \<open>CheckRedirect\<close>.\<close>

lemma send_from_sent:
  assumes "send_from c via req = Some out"
    and "\<And>req via. check_redirect c req via = None \<Longrightarrow> P req"
    and "P req" and "\<forall>r \<in> set via. P r"
  shows "\<forall>r \<in> set (snd out). P r"
proof -
  let ?P = "\<lambda>c' via req out. c' = c \<longrightarrow> P req \<longrightarrow> (\<forall>r \<in> set via. P r) \<longrightarrow> (\<forall>r \<in> set (snd out). P r)"
  have "?P c via req out"
  proof (rule send_from.raw_induct [where P = ?P, OF _ assms(1)], intro impI)
    fix f and c' :: "'a client" and via req out
    assume IH: "\<And>c' via req out. f c' via req = Some out \<Longrightarrow> ?P c' via req out"
      and eq: "(case Transport c' via req of
        None \<Rightarrow> Some (Inl TransportFailed, via @ [req])
      | Some resp \<Rightarrow>
          if \<not> is_redirect resp then Some (Inr resp, via @ [req])
          else (case Resolve c' req (Location resp) of
            None \<Rightarrow> Some (Inl BadLocation, via @ [req])
          | Some req' \<Rightarrow>
              (case check_redirect c' req' (via @ [req]) of
                 None \<Rightarrow> f c' (via @ [req]) req'
               | Some ErrUseLastResponse \<Rightarrow> Some (Inr resp, via @ [req])
               | Some (Refused n) \<Rightarrow> Some (Inl (RedirectRefused n), via @ [req])))) = Some out"
      and *: "c' = c" "P req" "\<forall>r \<in> set via. P r"
    have "P req'" if "check_redirect c req' v = None" for req' v using assms(2) that by blast
    then show "\<forall>r \<in> set (snd out). P r"
      using eq * by (auto dest!: IH split: option.splits if_splits redirect_error.splits)
  qed
  with assms(3,4) show ?thesis by blast
qed

lemma Do_sent:
  assumes "Do c req = Some out"
    and "\<And>req via. check_redirect c req via = None \<Longrightarrow> P req" and "P req"
  shows "\<forall>r \<in> set (snd out). P r"
  using send_from_sent [where P = P and via = "[]", OF assms(1) [unfolded Do_def] assms(2,3)] by simp

text \<open>With a limit on the length of the chain, \<open>Do\<close> returns, and has sent no more requests.\<close>

lemma send_from_returns:
  assumes "\<And>req via. N \<le> length via \<Longrightarrow> check_redirect c req via \<noteq> None"
  shows "\<exists>res sent. send_from c via req = Some (res, sent) \<and> length sent \<le> max (Suc (length via)) N"
proof (induction "N - length via" arbitrary: via req rule: less_induct)
  case less
  let ?returns = "\<lambda>out. \<exists>res sent. out = Some (res, sent) \<and> length sent \<le> max (Suc (length via)) N"
  have follow: "?returns (send_from c (via @ [req]) req')" if "check_redirect c req' (via @ [req]) = None" for req'
  proof -
    have "Suc (length via) < N"
      using assms [of "via @ [req]" req'] that by (cases "Suc (length via) < N") auto
    then show ?thesis using less [of "via @ [req]" req'] by fastforce
  qed
  show ?case
    by (subst send_from.simps) (simp split: option.splits redirect_error.splits add: follow)
qed

end
