(* ===== verification/Oidc.thy ===== *)
theory Oidc
  imports StrictDecode NetHttp
begin

text \<open>
  Discovery and configuration of \<open>oidcverifier/oidcverifier.go\<close>: \<open>New\<close> and its checks, the
  client that only follows HTTPS redirects, and \<open>Discover\<close> with every check of the provider's
  document.

  The network is the transport of the \<open>http.Client\<close>; the media type parser, the reading of the
  authority of a URL and the JSON decoding into the document's Go type are fields of \<open>env\<close>.
\<close>

subsection \<open>Types\<close>

datatype oidc_error =
    ErrNotReady
  | ErrAlreadyStarted
  | ErrTokenTooLarge
  | ErrInvalidToken
  | ErrAudience
  | ErrAuthorizedParty
  | ParseIssuer
  | IssuerNotHTTPS
  | IssuerHasExtras
  | ClientNil
  | CreateRequest
  | RequestFailed http_error
  | EndpointStatus int
  | NonJSON
  | DecodeMetadata sj_error
  | IssuerMismatch string string
  | InvalidEndpoint string
  | NoResponseType
  | TokenEndpointOmitted
  | NoSubjectType
  | EmptyValue string
  | DuplicateValue string
  | NoRS256
  | NoAlgorithm
  | ValueRequired string
  | ValueEmpty string
  | ValueDuplicated string string
  | TokenBytesNegative
  | NilOption
  | DiscoverFailed oidc_error

record Config =
  Name :: string
  Issuer :: string
  Audiences :: "string list"
  AuthorizedParties :: "string list"
  SigningAlgorithms :: "string list"
  MaxTokenBytes :: int

record ProviderMetadata =
  metaIssuer :: string
  AuthorizationEndpoint :: string
  TokenEndpoint :: string
  JWKSURL :: string
  ResponseTypes :: "string list"
  CodeChallengeMethods :: "string list"
  metaAlgorithms :: "string list"

record document =
  docIssuer :: string
  docAuthorizationEndpoint :: string
  docTokenEndpoint :: string
  docJWKSURL :: string
  docResponseTypes :: "string list"
  docSubjectTypes :: "string list"
  docCodeChallengeMethods :: "string list"
  docSigningAlgorithms :: "string list"

record 'r env =
  env_authority :: authority
  env_mime :: "string \<Rightarrow> string option"
  env_typed :: "document typed"
  env_spare :: "nat \<Rightarrow> nat"
  env_read :: "'r read"

definition defaultMaxTokenBytes :: int where "defaultMaxTokenBytes = 65536"

definition maxProviderMetadataBytes :: int where "maxProviderMetadataBytes = 1048576"

definition maxJWKSBytes :: nat where "maxJWKSBytes = 1048576"

definition supportedAlgorithms :: "string list" where
  "supportedAlgorithms =
     [''RS256'', ''RS384'', ''RS512'', ''ES256'', ''ES384'', ''ES512'', ''PS256'', ''PS384'', ''PS512'', ''EdDSA'']"

definition no_metadata :: ProviderMetadata where
  "no_metadata = \<lparr>metaIssuer = [], AuthorizationEndpoint = [], TokenEndpoint = [], JWKSURL = [],
     ResponseTypes = [], CodeChallengeMethods = [], metaAlgorithms = []\<rparr>"

definition no_document :: document where
  "no_document = \<lparr>docIssuer = [], docAuthorizationEndpoint = [], docTokenEndpoint = [], docJWKSURL = [],
     docResponseTypes = [], docSubjectTypes = [], docCodeChallengeMethods = [], docSigningAlgorithms = []\<rparr>"

subsection \<open>New\<close>

definition validateIssuer :: "authority \<Rightarrow> string \<Rightarrow> oidc_error option" where
  "validateIssuer au issuer =
     (case Parse au issuer of
        None \<Rightarrow> Some ParseIssuer
      | Some u \<Rightarrow>
          if issuer = [] \<or> Scheme u \<noteq> ''https'' \<or> Host u = [] then Some IssuerNotHTTPS
          else if User u \<or> RawQuery u \<noteq> [] \<or> Fragment u \<noteq> [] then Some IssuerHasExtras
          else None)"

fun valueSet_from :: "string \<Rightarrow> string set \<Rightarrow> string list \<Rightarrow> (oidc_error, string set) result" where
  "valueSet_from name found [] = Inr found"
| "valueSet_from name found (v # vs) =
     (if v = [] then Inl (ValueEmpty name)
      else if v \<in> found then Inl (ValueDuplicated name v)
      else valueSet_from name (insert v found) vs)"

definition valueSet :: "string \<Rightarrow> string list \<Rightarrow> bool \<Rightarrow> (oidc_error, string set) result" where
  "valueSet name values required =
     (if required \<and> values = [] then Inl (ValueRequired name) else valueSet_from name {} values)"

definition cloneSet :: "string set \<Rightarrow> string set" where
  "cloneSet source = (\<lambda>value. value) ` source"

record 'r options = httpClient :: "'r client"

type_synonym 'r oidc_option = "('r options \<Rightarrow> (oidc_error, 'r options) result) option"

definition WithHTTPClient :: "'r client option \<Rightarrow> 'r oidc_option" where
  "WithHTTPClient client =
     Some (\<lambda>opts. case client of None \<Rightarrow> Inl ClientNil | Some c \<Rightarrow> Inr (opts\<lparr>httpClient := c\<rparr>))"

fun apply_options :: "'r options \<Rightarrow> 'r oidc_option list \<Rightarrow> (oidc_error, 'r options) result" where
  "apply_options opts [] = Inr opts"
| "apply_options opts (None # fs) = Inl NilOption"
| "apply_options opts (Some f # fs) =
     (case f opts of Inl e \<Rightarrow> Inl e | Inr opts' \<Rightarrow> apply_options opts' fs)"

text \<open>The reference to the token verifier is nil until discovery has succeeded.\<close>

record token_verifier =
  tvIssuer :: string
  tvKeySetURL :: string
  tvAlgorithms :: "string list"

record 'r verifier =
  cfg :: Config
  audiences :: "string set"
  authorizedParties :: "string set"
  vClient :: "'r client"
  started :: bool
  stopped :: bool
  metadata :: ProviderMetadata
  tokens :: "token_verifier option"

definition New :: "authority \<Rightarrow> 'r client \<Rightarrow> Config \<Rightarrow> 'r oidc_option list \<Rightarrow> (oidc_error, 'r verifier) result" where
  "New au DefaultClient c0 fs =
     (let c = (if Name c0 = [] then c0\<lparr>Name := ''oidc-verifier''\<rparr> else c0) in
      case validateIssuer au (Issuer c) of
        Some e \<Rightarrow> Inl e
      | None \<Rightarrow>
      (case valueSet ''audience'' (Audiences c) True of
        Inl e \<Rightarrow> Inl e
      | Inr auds \<Rightarrow>
      (case valueSet ''authorized party'' (AuthorizedParties c) False of
        Inl e \<Rightarrow> Inl e
      | Inr parties0 \<Rightarrow>
        let parties = (if parties0 = {} then cloneSet auds else parties0) in
        if MaxTokenBytes c < 0 then Inl TokenBytesNegative
        else
          let c' = (if MaxTokenBytes c = 0 then c\<lparr>MaxTokenBytes := defaultMaxTokenBytes\<rparr> else c) in
          (case apply_options \<lparr>httpClient = DefaultClient\<rparr> fs of
             Inl e \<Rightarrow> Inl e
           | Inr opts \<Rightarrow>
               Inr \<lparr>cfg = c', audiences = auds, authorizedParties = parties, vClient = httpClient opts,
                    started = False, stopped = False, metadata = no_metadata, tokens = None\<rparr>))))"

lemma valueSet_from_Inr:
  "valueSet_from name found vs = Inr s \<longleftrightarrow> s = found \<union> set vs \<and> [] \<notin> set vs \<and> distinct vs \<and> found \<inter> set vs = {}"
  by (induction vs arbitrary: found) auto

lemma valueSet_Inr [inversion]:
  "valueSet name vs required = Inr s \<longleftrightarrow>
     s = set vs \<and> [] \<notin> set vs \<and> distinct vs \<and> (required \<longrightarrow> vs \<noteq> [])"
  by (auto simp: valueSet_def valueSet_from_Inr)

lemma validateIssuer_None [inversion]:
  "validateIssuer au issuer = None \<longleftrightarrow>
     (\<exists>u. Parse au issuer = Some u \<and> issuer \<noteq> [] \<and> Scheme u = ''https'' \<and> Host u \<noteq> [] \<and> \<not> User u
        \<and> RawQuery u = [] \<and> Fragment u = [])"
  by (auto simp: validateIssuer_def split: option.splits)

text \<open>What \<open>New\<close> has checked and what it has filled in.\<close>

lemma New_Inr:
  assumes "New au dc c fs = Inr v"
  shows "validateIssuer au (Issuer c) = None" and "Issuer (cfg v) = Issuer c"
    and "audiences v = set (Audiences c)" and "Audiences c \<noteq> []"
    and "authorizedParties v = set (if AuthorizedParties c = [] then Audiences c else AuthorizedParties c)"
    and "MaxTokenBytes (cfg v) = (if MaxTokenBytes c = 0 then 65536 else MaxTokenBytes c)"
    and "0 \<le> MaxTokenBytes c" and "SigningAlgorithms (cfg v) = SigningAlgorithms c"
    and "\<not> started v" and "\<not> stopped v" and "tokens v = None" and "metadata v = no_metadata"
  using assms
  by (auto simp: New_def valueSet_Inr cloneSet_def defaultMaxTokenBytes_def Let_def
      split: option.splits sum.splits if_splits)

subsection \<open>The HTTPS-only client\<close>

definition httpsOnlyClient :: "'r client \<Rightarrow> 'r client" where
  "httpsOnlyClient client =
     client\<lparr>CheckRedirect := Some (\<lambda>request via.
       if Scheme request \<noteq> ''https'' then Some (Refused 0)
       else case CheckRedirect client of
         Some checkRedirect \<Rightarrow> checkRedirect request via
       | None \<Rightarrow> if 10 \<le> length via then Some (Refused 1) else None)\<rparr>"

lemma check_httpsOnly:
  "check_redirect (httpsOnlyClient c) req via = None \<longleftrightarrow> Scheme req = ''https'' \<and> check_redirect c req via = None"
  by (auto simp: check_redirect_def httpsOnlyClient_def default_check_def split: option.splits)

lemma Do_https:
  assumes "Do (httpsOnlyClient c) req = Some (res, sent)" and "Scheme req = ''https''"
  shows "\<forall>r \<in> set sent. Scheme r = ''https''"
  using Do_sent [OF assms(1), of "\<lambda>r. Scheme r = ''https''"] assms(2) by (simp add: check_httpsOnly)

subsection \<open>The provider's document\<close>

definition validateEndpoint :: "authority \<Rightarrow> string \<Rightarrow> string \<Rightarrow> oidc_error option" where
  "validateEndpoint au name rawURL =
     (case Parse au rawURL of
        None \<Rightarrow> Some (InvalidEndpoint name)
      | Some u \<Rightarrow>
          if Scheme u \<noteq> ''https'' \<or> Host u = [] \<or> User u \<or> Fragment u \<noteq> [] then Some (InvalidEndpoint name)
          else None)"

definition supportsCodeFlow :: "string list \<Rightarrow> bool" where
  "supportsCodeFlow responseTypes = list_ex (\<lambda>t. ''code'' \<in> set (Fields t)) responseTypes"

fun validateStringValues_from :: "string \<Rightarrow> string set \<Rightarrow> string list \<Rightarrow> oidc_error option" where
  "validateStringValues_from name found [] = None"
| "validateStringValues_from name found (v # vs) =
     (if v = [] then Some (EmptyValue name)
      else if v \<in> found then Some (DuplicateValue name)
      else validateStringValues_from name (insert v found) vs)"

definition validateStringValues :: "string \<Rightarrow> string list \<Rightarrow> oidc_error option" where
  "validateStringValues name values = validateStringValues_from name {} values"

fun filterSupportedAlgorithms :: "string list \<Rightarrow> string list" where
  "filterSupportedAlgorithms [] = []"
| "filterSupportedAlgorithms (v # vs) =
     (if v \<in> set supportedAlgorithms then v # filterSupportedAlgorithms vs else filterSupportedAlgorithms vs)"

text \<open>The checks of \<open>Discover\<close> after the decoding, each an early return.\<close>

definition first_error :: "oidc_error option list \<Rightarrow> oidc_error option" where
  "first_error es = (case filter (\<lambda>e. e \<noteq> None) es of [] \<Rightarrow> None | e # _ \<Rightarrow> e)"

definition fails :: "bool \<Rightarrow> oidc_error \<Rightarrow> oidc_error option" where
  "fails b e = (if b then Some e else None)"

definition document_error :: "authority \<Rightarrow> string \<Rightarrow> document \<Rightarrow> oidc_error option" where
  "document_error au issuer d = first_error
     [fails (docIssuer d \<noteq> issuer) (IssuerMismatch issuer (docIssuer d)),
      validateEndpoint au ''authorization'' (docAuthorizationEndpoint d),
      (if docTokenEndpoint d \<noteq> [] then validateEndpoint au ''token'' (docTokenEndpoint d) else None),
      fails (docResponseTypes d = []) NoResponseType,
      fails (supportsCodeFlow (docResponseTypes d) \<and> docTokenEndpoint d = []) TokenEndpointOmitted,
      fails (docSubjectTypes d = []) NoSubjectType,
      validateStringValues ''response type'' (docResponseTypes d),
      validateStringValues ''subject type'' (docSubjectTypes d),
      validateStringValues ''code challenge method'' (docCodeChallengeMethods d),
      validateEndpoint au ''JWKS'' (docJWKSURL d),
      validateStringValues ''ID-token signing algorithm'' (docSigningAlgorithms d),
      fails (''RS256'' \<notin> set (docSigningAlgorithms d)) NoRS256,
      fails (filterSupportedAlgorithms (docSigningAlgorithms d) = []) NoAlgorithm]"

definition document_metadata :: "document \<Rightarrow> ProviderMetadata" where
  "document_metadata d =
     \<lparr>metaIssuer = docIssuer d, AuthorizationEndpoint = docAuthorizationEndpoint d,
      TokenEndpoint = docTokenEndpoint d, JWKSURL = docJWKSURL d, ResponseTypes = docResponseTypes d,
      CodeChallengeMethods = docCodeChallengeMethods d,
      metaAlgorithms = filterSupportedAlgorithms (docSigningAlgorithms d)\<rparr>"

subsection \<open>Discover\<close>

definition well_known :: string where "well_known = ''/.well-known/openid-configuration''"

text \<open>The error of the response, or the document: status, media type, bounded strict decoding.\<close>

definition read_document :: "'r env \<Rightarrow> 'r response \<Rightarrow> (oidc_error, document) result option" where
  "read_document env resp =
     (if StatusCode resp \<noteq> 200 then Some (Inl (EndpointStatus (StatusCode resp)))
      else if env_mime env (ContentType resp) \<noteq> Some ''application/json'' then Some (Inl NonJSON)
      else case DecodeReader (env_typed env) (env_spare env) (env_read env) (Pointer (Some (Body resp)))
                  maxProviderMetadataBytes (Pointer (Some no_document)) [] of
        None \<Rightarrow> None
      | Some (Some e, d, r) \<Rightarrow> Some (Inl (DecodeMetadata e))
      | Some (None, d, r) \<Rightarrow> Some (Inr (case held d of Some doc \<Rightarrow> doc | None \<Rightarrow> no_document)))"

text \<open>
  The result and the requests sent; \<open>None\<close> when the exchange never ends.
\<close>

definition Discover ::
  "'r env \<Rightarrow> string \<Rightarrow> 'r client option \<Rightarrow> ((oidc_error, ProviderMetadata) result \<times> url list) option"
where
  "Discover env issuer client =
     (case validateIssuer (env_authority env) issuer of
        Some e \<Rightarrow> Some (Inl e, [])
      | None \<Rightarrow>
      (case client of
        None \<Rightarrow> Some (Inl ClientNil, [])
      | Some c \<Rightarrow>
      (case Parse (env_authority env) (TrimSuffix issuer ''/'' @ well_known) of
        None \<Rightarrow> Some (Inl CreateRequest, [])
      | Some request \<Rightarrow>
      (case Do (httpsOnlyClient c) request of
        None \<Rightarrow> None
      | Some (Inl e, sent) \<Rightarrow> Some (Inl (RequestFailed e), sent)
      | Some (Inr resp, sent) \<Rightarrow>
          (case read_document env resp of
             None \<Rightarrow> None
           | Some (Inl e) \<Rightarrow> Some (Inl e, sent)
           | Some (Inr d) \<Rightarrow>
               (case document_error (env_authority env) issuer d of
                  Some e \<Rightarrow> Some (Inl e, sent)
                | None \<Rightarrow> Some (Inr (document_metadata d), sent)))))))"

subsection \<open>What Discover returns\<close>

lemma validateEndpoint_None [inversion]:
  "validateEndpoint au name s = None \<longleftrightarrow>
     (\<exists>u. Parse au s = Some u \<and> Scheme u = ''https'' \<and> Host u \<noteq> [] \<and> \<not> User u \<and> Fragment u = [])"
  by (auto simp: validateEndpoint_def split: option.splits)

lemma validateStringValues_from_None:
  "validateStringValues_from name found vs = None \<longleftrightarrow> [] \<notin> set vs \<and> distinct vs \<and> found \<inter> set vs = {}"
  by (induction vs arbitrary: found) auto

lemma validateStringValues_None [inversion]:
  "validateStringValues name vs = None \<longleftrightarrow> [] \<notin> set vs \<and> distinct vs"
  by (simp add: validateStringValues_def validateStringValues_from_None)

lemma filterSupportedAlgorithms_filter:
  "filterSupportedAlgorithms vs = filter (\<lambda>v. v \<in> set supportedAlgorithms) vs"
  by (induction vs) auto

lemma fails_None [inversion]: "fails b e = None \<longleftrightarrow> \<not> b"
  by (simp add: fails_def)

lemma first_error_None [inversion]: "first_error es = None \<longleftrightarrow> (\<forall>e \<in> set es. e = None)"
proof -
  have "first_error es = None \<longleftrightarrow> filter (\<lambda>e. e \<noteq> None) es = []"
    by (cases "filter (\<lambda>e. e \<noteq> None) es") (auto simp: first_error_def filter_eq_Cons_iff)
  then show ?thesis by (auto simp: filter_empty_conv)
qed

text \<open>The type of the metadata: what holds of every value that \<open>Discover\<close> may return.\<close>

definition https_endpoint :: "authority \<Rightarrow> string \<Rightarrow> bool" where
  "https_endpoint au s =
     (case Parse au s of
        None \<Rightarrow> False
      | Some u \<Rightarrow> Scheme u = ''https'' \<and> Host u \<noteq> [] \<and> \<not> User u \<and> Fragment u = [])"

definition value_list :: "string list \<Rightarrow> bool" where
  "value_list vs \<longleftrightarrow> [] \<notin> set vs \<and> distinct vs"

definition well_formed :: "authority \<Rightarrow> string \<Rightarrow> ProviderMetadata \<Rightarrow> bool" where
  "well_formed au issuer md \<longleftrightarrow>
     metaIssuer md = issuer
     \<and> https_endpoint au (AuthorizationEndpoint md)
     \<and> (TokenEndpoint md \<noteq> [] \<longrightarrow> https_endpoint au (TokenEndpoint md))
     \<and> https_endpoint au (JWKSURL md)
     \<and> ResponseTypes md \<noteq> [] \<and> value_list (ResponseTypes md)
     \<and> (supportsCodeFlow (ResponseTypes md) \<longrightarrow> TokenEndpoint md \<noteq> [])
     \<and> value_list (CodeChallengeMethods md)
     \<and> value_list (metaAlgorithms md) \<and> ''RS256'' \<in> set (metaAlgorithms md)
     \<and> set (metaAlgorithms md) \<subseteq> set supportedAlgorithms"

lemma document_well_formed:
  assumes "document_error au issuer d = None"
  shows "well_formed au issuer (document_metadata d)"
  using assms
  by (auto simp: document_error_def document_metadata_def well_formed_def https_endpoint_def value_list_def
      filterSupportedAlgorithms_filter supportedAlgorithms_def inversion split: if_splits)

lemma Discover_Inr:
  assumes "Discover env issuer client = Some (Inr md, sent)"
  shows "\<exists>c request d. validateIssuer (env_authority env) issuer = None \<and> client = Some c
           \<and> Parse (env_authority env) (TrimSuffix issuer ''/'' @ well_known) = Some request
           \<and> (\<exists>res. Do (httpsOnlyClient c) request = Some (res, sent))
           \<and> document_error (env_authority env) issuer d = None \<and> md = document_metadata d"
  using assms by (fastforce simp: Discover_def split: option.splits sum.splits prod.splits)

lemma Discover_metadata:
  "Discover env issuer client = Some (Inr md, sent) \<Longrightarrow> well_formed (env_authority env) issuer md"
  using Discover_Inr document_well_formed by blast

lemma issuer_request_https:
  assumes "validateIssuer au issuer = None" and "Parse au (TrimSuffix issuer ''/'' @ well_known) = Some request"
  shows "Scheme request = ''https''"
  using assms Parse_extend [OF _ _ assms(2)] by (auto simp: inversion)

lemma Discover_sent_https:
  assumes "Discover env issuer client = Some (res, sent)"
  shows "\<forall>r \<in> set sent. Scheme r = ''https''"
  using assms
  by (auto simp: Discover_def dest: Do_https issuer_request_https split: option.splits sum.splits prod.splits)

text \<open>
  C9 (type): whatever the provider, the redirects and the network do, the metadata that
  \<open>Discover\<close> returns is of the configured issuer; its endpoints are absolute HTTPS URLs without
  user information and fragment, the token endpoint being there when a response type has the code
  flow; its lists hold no empty and no duplicate value; its algorithms are supported ones, RS256
  among them. Every request sent to get it, redirected ones included, was an HTTPS request.
\<close>

theorem Discover_well_formed:
  assumes "Discover env issuer client = Some (Inr md, sent)"
  shows "well_formed (env_authority env) issuer md \<and> (\<forall>r \<in> set sent. Scheme r = ''https'')"
  using Discover_metadata [OF assms] Discover_sent_https [OF assms] by blast

text \<open>
  C36 (termination): when the client stops following redirects after \<open>N\<close> requests, as a client
  without a \<open>CheckRedirect\<close> does after 10, and the body's reader cannot go on for ever without an
  error, \<open>Discover\<close> returns, and has sent no more than \<open>N\<close> requests.
\<close>

theorem Discover_returns:
  assumes "progressing_reader (env_read env) left" and "0 < N"
    and "\<And>c req via. client = Some c \<Longrightarrow> N \<le> length via \<Longrightarrow> check_redirect c req via \<noteq> None"
  shows "\<exists>res sent. Discover env issuer client = Some (res, sent) \<and> length sent \<le> N"
proof -
  have doc: "\<exists>x. read_document env resp = Some x" for resp
    using progressing_reader.DecodeReader_returns [OF assms(1), of "env_typed env"]
    by (auto simp: read_document_def simp del: not_None_eq split: option.splits prod.splits)
  have "\<exists>res sent. Do (httpsOnlyClient c) request = Some (res, sent) \<and> length sent \<le> N"
    if "client = Some c" for c request
  proof -
    have "check_redirect (httpsOnlyClient c) req via \<noteq> None" if "N \<le> length via" for req via
      using assms(3) [OF \<open>client = Some c\<close> that] by (simp add: check_httpsOnly)
    from send_from_returns [of N, OF this, of "[]" request] show ?thesis
      using assms(2) by (simp only: Do_def list.size max_absorb2 Suc_leI)
  qed
  note sent = this
  show ?thesis
  proof (cases "validateIssuer (env_authority env) issuer")
    case None
    show ?thesis
    proof (cases client)
      case (Some c)
      show ?thesis
      proof (cases "Parse (env_authority env) (TrimSuffix issuer ''/'' @ well_known)")
        case (Some request)
        from sent [OF \<open>client = Some c\<close>, of request] obtain res reqs where
          "Do (httpsOnlyClient c) request = Some (res, reqs)" "length reqs \<le> N" by blast
        moreover obtain x where "read_document env (projr res) = Some x" using doc by blast
        ultimately show ?thesis using \<open>client = Some c\<close> Some None
          by (cases res; cases x) (auto simp: Discover_def split: option.splits)
      qed (simp add: Discover_def None Some)
    qed (simp add: Discover_def None)
  qed (simp add: Discover_def)
qed


subsection \<open>Witnesses\<close>

text \<open>
  A provider that redirects once, to another path of the same host, and then answers with its
  document.
\<close>

definition example_issuer :: string where "example_issuer = ''https://id.example/''"

definition example_document :: document where
  "example_document =
     \<lparr>docIssuer = example_issuer, docAuthorizationEndpoint = ''https://id.example/auth'',
      docTokenEndpoint = ''https://id.example/token'', docJWKSURL = ''https://id.example/keys'',
      docResponseTypes = [''code'', ''code id_token''], docSubjectTypes = [''public''],
      docCodeChallengeMethods = [''S256''], docSigningAlgorithms = [''RS256'', ''HS256'']\<rparr>"

definition example_env :: "stream env" where
  "example_env =
     \<lparr>env_authority = (\<lambda>a. if a = [] then None else Some (False, a)),
      env_mime = (\<lambda>s. Some (takeWhile (\<lambda>c. c \<noteq> CHR '';'') s)),
      env_typed = (\<lambda>strict data dst. (None, Pointer (Some example_document))),
      env_spare = (\<lambda>n. n), env_read = stream_read\<rparr>"

definition moved_url :: url where
  "moved_url = no_url\<lparr>Scheme := ''https'', Host := ''id.example'', Path := ''/moved''\<rparr>"

definition example_response :: "stream response" where
  "example_response =
     \<lparr>StatusCode = 200, Location = [], ContentType = ''application/json;charset=utf-8'', Body = (''{}'', [], True)\<rparr>"

definition example_client :: "stream client" where
  "example_client =
     \<lparr>Transport = (\<lambda>via req.
        if via = [] then Some (example_response\<lparr>StatusCode := 302, Location := ''/moved''\<rparr>) else Some example_response),
      Resolve = (\<lambda>u s. Some moved_url), CheckRedirect = None\<rparr>"

lemma Validate_braces: "Validate ''{}'' = None"
  by code_simp

lemma read_braces:
  "DecodeReader typed (\<lambda>n. n) stream_read (Pointer (Some (''{}'', [], True))) maxProviderMetadataBytes
     (Pointer (Some d)) []
   = (case typed False ''{}'' (Pointer (Some d)) of
        (None, d') \<Rightarrow> Some (None, d', Pointer (Some ([], [], True)))
      | (Some e, d') \<Rightarrow> Some (Some (sanitizeDecodeError e), d', Pointer (Some ([], [], True))))"
  by (simp add: DecodeReader_def read_all.simps [of _ _ _ "(_, _)"] limited_read_def applyOptions_def decode_def
      Validate_braces maxProviderMetadataBytes_def split: option.splits prod.splits)

definition first_request :: url where
  "first_request = no_url\<lparr>Scheme := ''https'', Host := ''id.example'', Path := well_known\<rparr>"

lemma example_issuer_valid: "validateIssuer (env_authority example_env) example_issuer = None"
  by code_simp

lemma example_request: "Parse (env_authority example_env) (TrimSuffix example_issuer ''/'' @ well_known) = Some first_request"
  by code_simp

lemma example_redirect:
  "Do (httpsOnlyClient example_client) first_request = Some (Inr example_response, [first_request, moved_url])"
  by (simp add: Do_def send_from.simps httpsOnlyClient_def example_client_def check_redirect_def is_redirect_def
      example_response_def moved_url_def)

lemma example_read: "read_document example_env example_response = Some (Inr example_document)"
  by (simp add: read_document_def example_env_def example_response_def read_braces)

lemma example_checked: "document_error (env_authority example_env) example_issuer example_document = None"
  by code_simp

lemma example_discovery:
  "Discover example_env example_issuer (Some example_client)
     = Some (Inr (document_metadata example_document), [first_request, moved_url])"
  by (simp add: Discover_def example_issuer_valid example_request example_redirect example_read example_checked)

theorem Discover_well_formed_witness:
  "well_formed (env_authority example_env) example_issuer (document_metadata example_document)
   \<and> metaAlgorithms (document_metadata example_document) = [''RS256'']"
  using Discover_well_formed [OF example_discovery]
  by (simp add: document_metadata_def example_document_def supportedAlgorithms_def)

theorem Discover_returns_witness:
  "\<exists>res sent. Discover example_env example_issuer (Some example_client) = Some (res, sent) \<and> length sent \<le> 10"
proof (rule Discover_returns)
  show "progressing_reader (env_read example_env) (length \<circ> fst)"
    by unfold_locales (auto simp: example_env_def Let_def split: if_splits list.splits)
qed (auto simp: example_client_def check_redirect_def default_check_def)

end
