(* ===== verification/OidcTokens.thy ===== *)
theory OidcTokens
  imports Oidc
begin

text \<open>
  The life of a \<open>Verifier\<close> of \<open>oidcverifier/oidcverifier.go\<close>, \<open>Verify\<close>, and the key set it
  verifies with. \<open>go-oidc\<close> (\<open>IDTokenVerifier.Verify\<close>, \<open>IDToken.Claims\<close>), \<open>go-jose\<close>
  (\<open>ParseSigned\<close>, \<open>JSONWebSignature.Verify\<close>) and the decoding of JSON into Go maps and key sets
  are arguments.
\<close>

subsection \<open>Start, Stop, Metadata, Ready\<close>

definition cloneMetadata :: "ProviderMetadata \<Rightarrow> ProviderMetadata" where
  "cloneMetadata md =
     md\<lparr>ResponseTypes := ResponseTypes md, CodeChallengeMethods := CodeChallengeMethods md,
        metaAlgorithms := metaAlgorithms md\<rparr>"

lemma cloneMetadata_id [simp]: "cloneMetadata md = md"
  by (simp add: cloneMetadata_def)

text \<open>
  \<open>Start\<close> has two critical sections, with \<open>Discover\<close> between them; the first component is the
  error it returns, \<open>None\<close> in \<open>Start_enter\<close> when it goes on to discover.
\<close>

definition Start_enter :: "'r verifier \<Rightarrow> oidc_error option \<times> 'r verifier" where
  "Start_enter v =
     (if started v then (Some ErrAlreadyStarted, v)
      else if stopped v then (Some ErrNotReady, v)
      else (None, v\<lparr>started := True\<rparr>))"

definition new_tokens :: "Config \<Rightarrow> ProviderMetadata \<Rightarrow> token_verifier" where
  "new_tokens c md =
     \<lparr>tvIssuer = Issuer c, tvKeySetURL = JWKSURL md,
      tvAlgorithms = (if SigningAlgorithms c = [] then metaAlgorithms md else SigningAlgorithms c)\<rparr>"

definition Start_finish :: "(oidc_error, ProviderMetadata) result \<Rightarrow> 'r verifier \<Rightarrow> oidc_error option \<times> 'r verifier" where
  "Start_finish discovered v =
     (case discovered of
        Inl e \<Rightarrow> (Some (DiscoverFailed e), v)
      | Inr md \<Rightarrow>
          if stopped v then (Some ErrNotReady, v)
          else (None, v\<lparr>metadata := cloneMetadata md, tokens := Some (new_tokens (cfg v) md)\<rparr>))"

definition Stop :: "'r verifier \<Rightarrow> 'r verifier" where
  "Stop v = v\<lparr>stopped := True, metadata := no_metadata, tokens := None\<rparr>"

definition Metadata :: "'r verifier \<Rightarrow> (oidc_error, ProviderMetadata) result" where
  "Metadata v = (if tokens v = None then Inl ErrNotReady else Inr (cloneMetadata (metadata v)))"

definition Ready :: "'r verifier \<Rightarrow> bool" where
  "Ready v \<longleftrightarrow> tokens v \<noteq> None"

text \<open>
  The verifier with the calls in progress: how many calls of \<open>Start\<close> are in \<open>Discover\<close>, how many
  have ever passed the first section, and the token verifiers that calls of \<open>Verify\<close> have read
  and still use.
\<close>

record 'r system =
  ver :: "'r verifier"
  discovering :: nat
  entered :: nat
  serving :: "token_verifier list"

definition at_rest :: "'r verifier \<Rightarrow> 'r system" where
  "at_rest v = \<lparr>ver = v, discovering = 0, entered = 0, serving = []\<rparr>"

text \<open>
  The steps, for the environment \<open>env\<close>. A discovery gets whatever its network, the client \<open>c\<close>
  at that time, makes of it.
\<close>

inductive verifier_step :: "'r env \<Rightarrow> 'r system \<Rightarrow> 'r system \<Rightarrow> bool" for env where
  start: "Start_enter (ver s) = (None, v') \<Longrightarrow>
     verifier_step env s (s\<lparr>ver := v', discovering := Suc (discovering s), entered := Suc (entered s)\<rparr>)"
| start_refused: "Start_enter (ver s) = (Some e, v') \<Longrightarrow> verifier_step env s (s\<lparr>ver := v'\<rparr>)"
| finish: "discovering s = Suc n \<Longrightarrow> Discover env (Issuer (cfg (ver s))) (Some c) = Some (res, sent) \<Longrightarrow>
     Start_finish res (ver s) = (e, v') \<Longrightarrow>
     verifier_step env s (s\<lparr>ver := v', discovering := n\<rparr>)"
| stop: "verifier_step env s (s\<lparr>ver := Stop (ver s)\<rparr>)"
| verify_begin: "tokens (ver s) = Some w \<Longrightarrow> verifier_step env s (s\<lparr>serving := w # serving s\<rparr>)"
| verify_end: "serving s = xs @ w # ys \<Longrightarrow> verifier_step env s (s\<lparr>serving := xs @ ys\<rparr>)"

definition static :: "'r verifier \<Rightarrow> Config \<times> string set \<times> string set" where
  "static v = (cfg v, audiences v, authorizedParties v)"

definition usable :: "authority \<Rightarrow> Config \<Rightarrow> token_verifier \<Rightarrow> bool" where
  "usable au c w \<longleftrightarrow> (\<exists>md. well_formed au (Issuer c) md \<and> w = new_tokens c md)"

definition verifier_inv :: "authority \<Rightarrow> 'r verifier \<Rightarrow> 'r system \<Rightarrow> bool" where
  "verifier_inv au v0 s \<longleftrightarrow>
     static (ver s) = static v0
     \<and> discovering s \<le> entered s \<and> entered s = (if started (ver s) then 1 else 0)
     \<and> (stopped (ver s) \<longrightarrow> tokens (ver s) = None)
     \<and> (tokens (ver s) = None \<longrightarrow> metadata (ver s) = no_metadata)
     \<and> (\<forall>w. tokens (ver s) = Some w \<longrightarrow>
          entered s = 1 \<and> discovering s = 0
          \<and> well_formed au (Issuer (cfg v0)) (metadata (ver s)) \<and> w = new_tokens (cfg v0) (metadata (ver s)))
     \<and> (\<forall>w \<in> set (serving s). usable au (cfg v0) w)"

lemmas step_ops = Start_enter_def Start_finish_def Stop_def static_def

lemma Start_enter_inv:
  assumes "verifier_inv au v0 s" and "Start_enter (ver s) = (e, v')"
  shows "verifier_inv au v0 (if e = None
           then s\<lparr>ver := v', discovering := Suc (discovering s), entered := Suc (entered s)\<rparr>
           else s\<lparr>ver := v'\<rparr>)"
  using assms by (auto simp: verifier_inv_def step_ops split: if_splits)

lemma Start_finish_inv:
  assumes inv: "verifier_inv (env_authority env) v0 s" and "discovering s = Suc n"
    and found: "Discover env (Issuer (cfg (ver s))) (Some c) = Some (res, sent)"
    and fin: "Start_finish res (ver s) = (e, v')"
  shows "verifier_inv (env_authority env) v0 (s\<lparr>ver := v', discovering := n\<rparr>)"
proof -
  have cfg: "cfg (ver s) = cfg v0" using inv by (simp add: verifier_inv_def static_def)
  have none: "tokens (ver s) = None" using inv assms(2) by (auto simp: verifier_inv_def)
  have one: "entered s = 1" "n = 0" using inv assms(2) by (auto simp: verifier_inv_def split: if_splits)
  show ?thesis
  proof (cases "\<exists>md. res = Inr md \<and> \<not> stopped (ver s)")
    case True
    then obtain md where md: "res = Inr md" "\<not> stopped (ver s)" by blast
    have "well_formed (env_authority env) (Issuer (cfg v0)) md"
      using Discover_metadata [OF found [unfolded md(1)]] cfg by simp
    moreover have v': "v' = (ver s)\<lparr>metadata := md, tokens := Some (new_tokens (cfg v0) md)\<rparr>"
      using fin md cfg by (simp add: Start_finish_def)
    ultimately show ?thesis
      using inv md(2) one by (simp add: verifier_inv_def static_def)
  next
    case False
    with fin have "v' = ver s" by (auto simp: Start_finish_def split: sum.splits if_splits)
    with inv none one show ?thesis by (auto simp: verifier_inv_def)
  qed
qed

lemma verifier_step_inv:
  assumes "verifier_step env s t" and "verifier_inv (env_authority env) v0 s"
  shows "verifier_inv (env_authority env) v0 t"
  using assms
proof (cases rule: verifier_step.cases)
  case (start v')
  with Start_enter_inv [OF assms(2) start(2)] show ?thesis by simp
next
  case (start_refused e v')
  with Start_enter_inv [OF assms(2) start_refused(2)] show ?thesis by simp
next
  case finish
  with Start_finish_inv [OF assms(2)] show ?thesis by blast
qed (use assms(2) in \<open>auto simp: verifier_inv_def step_ops usable_def\<close>)

interpretation verifier_life: concurrent_machine "verifier_step env" "verifier_inv (env_authority env) v0" for env v0
  by unfold_locales (rule verifier_step_inv)

lemma reachable_verifier:
  assumes "New au dc c fs = Inr v" and "env_authority env = au" and "(verifier_step env)\<^sup>*\<^sup>* (at_rest v) s"
  shows "verifier_inv au v s"
proof -
  have "verifier_inv (env_authority env) v (at_rest v)"
    using New_Inr [OF assms(1)] by (simp add: verifier_inv_def at_rest_def)
  from verifier_life.steps_inv [OF assms(3) this] assms(2) show ?thesis by simp
qed

lemma stopped_stays: "verifier_step env s t \<Longrightarrow> stopped (ver s) \<Longrightarrow> stopped (ver t)"
  by (induction rule: verifier_step.induct)
     (auto simp: step_ops split: sum.splits if_splits)

interpretation verifier_stopped: concurrent_machine "verifier_step env" "\<lambda>s. stopped (ver s)" for env
  by unfold_locales (rule stopped_stays)

text \<open>
  C10 (safety): however calls of \<open>Start\<close>, \<open>Stop\<close> and \<open>Verify\<close> interleave, and however long a
  discovery takes, at most one \<open>Start\<close> gets past its guard; while the verifier is ready its
  metadata are well formed for the configured issuer and its token verifier is for that issuer,
  those keys and the configured algorithms, by default the discovered ones; once stopped it is
  never ready again, not even when a discovery ends afterwards, and keeps no metadata.
\<close>

theorem ready_only_while_running:
  assumes "New au dc c fs = Inr v" and "env_authority env = au"
    and "(verifier_step env)\<^sup>*\<^sup>* (at_rest v) s" and "(verifier_step env)\<^sup>*\<^sup>* s t"
  shows "entered s \<le> 1 \<and> discovering s \<le> entered s
       \<and> (Ready (ver s) \<longrightarrow> well_formed au (Issuer c) (metadata (ver s))
            \<and> tokens (ver s) = Some \<lparr>tvIssuer = Issuer c, tvKeySetURL = JWKSURL (metadata (ver s)),
                 tvAlgorithms = (if SigningAlgorithms c = [] then metaAlgorithms (metadata (ver s))
                                 else SigningAlgorithms c)\<rparr>)
       \<and> (stopped (ver s) \<longrightarrow> \<not> Ready (ver t) \<and> Metadata (ver t) = Inl ErrNotReady \<and> metadata (ver t) = no_metadata)"
proof -
  note inv_s = reachable_verifier [OF assms(1-3)]
  from assms(3,4) have "(verifier_step env)\<^sup>*\<^sup>* (at_rest v) t" by simp
  note inv_t = reachable_verifier [OF assms(1,2) this]
  note stays = verifier_stopped.steps_inv [OF assms(4)]
  from inv_s inv_t stays New_Inr(2,8) [OF assms(1)] show ?thesis
    by (auto simp: verifier_inv_def Ready_def Metadata_def new_tokens_def)
qed


subsection \<open>Verify\<close>

text \<open>An \<open>oidc.IDToken\<close>; \<open>tokIssuedAt\<close> is \<open>None\<close> for the zero time, \<open>tokClaims\<close> when \<open>Claims\<close> fails.\<close>

record id_token =
  tokIssuer :: string
  tokSubject :: string
  tokAudience :: "string list"
  tokExpiry :: int
  tokIssuedAt :: "int option"
  tokClaims :: "string option"

record Token =
  Token_Issuer :: string
  Token_Subject :: string
  Token_Audience :: "string list"
  Token_Expiry :: int
  Token_IssuedAt :: "int option"
  Token_AuthorizedParty :: string
  Token_claims :: string

record token_lib =
  lib_verify :: "token_verifier \<Rightarrow> string \<Rightarrow> id_token option"
  lib_object :: "string \<Rightarrow> (string \<rightharpoonup> string) option"
  lib_string :: "string \<Rightarrow> string option"

fun matchesAny :: "string list \<Rightarrow> string set \<Rightarrow> bool" where
  "matchesAny [] allowed = False"
| "matchesAny (v # vs) allowed = (if v \<in> allowed then True else matchesAny vs allowed)"

text \<open>\<open>None\<close>: an error; otherwise the value and whether it is present.\<close>

definition readAuthorizedParty :: "token_lib \<Rightarrow> string \<Rightarrow> (string \<times> bool) option" where
  "readAuthorizedParty lib claims =
     (case lib_object lib claims of
        None \<Rightarrow> None
      | Some values \<Rightarrow>
          (case values ''azp'' of
             None \<Rightarrow> Some ([], False)
           | Some raw \<Rightarrow>
               if raw = ''null'' then None
               else (case lib_string lib raw of None \<Rightarrow> None | Some party \<Rightarrow> Some (party, True))))"

definition Verify :: "token_lib \<Rightarrow> 'r verifier \<Rightarrow> string \<Rightarrow> (oidc_error, Token) result" where
  "Verify lib v rawToken =
     (case tokens v of
        None \<Rightarrow> Inl ErrNotReady
      | Some verifier \<Rightarrow>
      if MaxTokenBytes (cfg v) < int (length rawToken) then Inl ErrTokenTooLarge
      else case lib_verify lib verifier rawToken of
        None \<Rightarrow> Inl ErrInvalidToken
      | Some idToken \<Rightarrow>
      if tokIssuer idToken \<noteq> Issuer (cfg v) \<or> tokSubject idToken = [] \<or> tokIssuedAt idToken = None
      then Inl ErrInvalidToken
      else if \<not> matchesAny (tokAudience idToken) (audiences v) then Inl ErrAudience
      else case tokClaims idToken of
        None \<Rightarrow> Inl ErrInvalidToken
      | Some claims \<Rightarrow>
      (case readAuthorizedParty lib claims of
        None \<Rightarrow> Inl ErrInvalidToken
      | Some (party, present) \<Rightarrow>
          if 1 < length (tokAudience idToken) \<and> \<not> present then Inl ErrAuthorizedParty
          else if present \<and> party \<notin> authorizedParties v then Inl ErrAuthorizedParty
          else Inr \<lparr>Token_Issuer = tokIssuer idToken, Token_Subject = tokSubject idToken,
                    Token_Audience = tokAudience idToken, Token_Expiry = tokExpiry idToken,
                    Token_IssuedAt = tokIssuedAt idToken, Token_AuthorizedParty = party,
                    Token_claims = claims\<rparr>))"

text \<open>\<open>Token.Claims\<close>; \<open>unmarshal\<close> decodes into the caller's type. \<open>None\<close>: the token is nil.\<close>

definition Claims :: "(string \<Rightarrow> 'd \<Rightarrow> json_error option \<times> 'd) \<Rightarrow> Token option \<Rightarrow> 'd \<Rightarrow> json_error option \<times> 'd" where
  "Claims unmarshal t target =
     (case t of
        None \<Rightarrow> (Some (OtherError ''oidc token is nil''), target)
      | Some tok \<Rightarrow> unmarshal (Token_claims tok) target)"

lemma matchesAny_set [simp]: "matchesAny vs allowed \<longleftrightarrow> set vs \<inter> allowed \<noteq> {}"
  by (induction vs) auto

text \<open>
  What the configuration asks of a token that the library has verified; the \<open>azp\<close> claim may be
  missing only when there is a single audience.
\<close>

definition allowed_parties :: "Config \<Rightarrow> string set" where
  "allowed_parties c = set (if AuthorizedParties c = [] then Audiences c else AuthorizedParties c)"

definition azp_allowed :: "token_lib \<Rightarrow> Config \<Rightarrow> nat \<Rightarrow> string \<Rightarrow> bool" where
  "azp_allowed lib c n claims \<longleftrightarrow>
     (case lib_object lib claims of
        None \<Rightarrow> False
      | Some m \<Rightarrow>
          (case m ''azp'' of
             None \<Rightarrow> n \<le> 1
           | Some raw \<Rightarrow> raw \<noteq> ''null'' \<and> (case lib_string lib raw of None \<Rightarrow> False | Some p \<Rightarrow> p \<in> allowed_parties c)))"

definition acceptable :: "token_lib \<Rightarrow> Config \<Rightarrow> id_token \<Rightarrow> string \<Rightarrow> bool" where
  "acceptable lib c idt claims \<longleftrightarrow>
     tokIssuer idt = Issuer c \<and> tokSubject idt \<noteq> [] \<and> tokIssuedAt idt \<noteq> None
     \<and> set (tokAudience idt) \<inter> set (Audiences c) \<noteq> {}
     \<and> tokClaims idt = Some claims \<and> azp_allowed lib c (length (tokAudience idt)) claims"

definition party_claim :: "token_lib \<Rightarrow> string \<Rightarrow> string" where
  "party_claim lib claims =
     (case Option.bind (lib_object lib claims) (\<lambda>values. Option.bind (values ''azp'') (lib_string lib)) of
        None \<Rightarrow> [] | Some p \<Rightarrow> p)"

definition issued :: "token_lib \<Rightarrow> id_token \<Rightarrow> string \<Rightarrow> Token" where
  "issued lib idt claims =
     \<lparr>Token_Issuer = tokIssuer idt, Token_Subject = tokSubject idt, Token_Audience = tokAudience idt,
      Token_Expiry = tokExpiry idt, Token_IssuedAt = tokIssuedAt idt,
      Token_AuthorizedParty = party_claim lib claims, Token_claims = claims\<rparr>"

lemmas party_defs = readAuthorizedParty_def party_claim_def azp_allowed_def

lemma readAuthorizedParty_claim:
  "readAuthorizedParty lib claims = Some (party, present) \<Longrightarrow> party = party_claim lib claims"
  by (auto simp: party_defs split: option.splits if_splits)

lemma azp_allowed_read:
  "azp_allowed lib c n claims \<longleftrightarrow>
     (case readAuthorizedParty lib claims of
        None \<Rightarrow> False
      | Some (party, present) \<Rightarrow> (1 < n \<longrightarrow> present) \<and> (present \<longrightarrow> party \<in> allowed_parties c))"
  by (auto simp: party_defs split: option.splits)

lemma Verify_Inr:
  assumes "tokens v = Some w" and "Issuer (cfg v) = Issuer c" and "audiences v = set (Audiences c)"
    and "authorizedParties v = allowed_parties c"
  shows "Verify lib v raw = Inr tok \<longleftrightarrow>
     (\<exists>idt claims. int (length raw) \<le> MaxTokenBytes (cfg v) \<and> lib_verify lib w raw = Some idt
        \<and> acceptable lib c idt claims \<and> tok = issued lib idt claims)"
proof (cases "lib_verify lib w raw")
  case idt: (Some idt)
  show ?thesis
  proof (cases "tokClaims idt")
    case claims: (Some claims)
    show ?thesis
    proof (cases "readAuthorizedParty lib claims")
      case (Some pp)
      then obtain present where "pp = (party_claim lib claims, present)"
        by (cases pp) (auto dest: readAuthorizedParty_claim)
      with Some show ?thesis
        by (simp add: Verify_def assms idt claims acceptable_def azp_allowed_read issued_def not_less eq_commute [of tok]) blast
    qed (simp add: Verify_def assms idt claims acceptable_def azp_allowed_read)
  qed (simp add: Verify_def assms idt acceptable_def)
qed (simp add: Verify_def assms)

text \<open>
  C7 (functional): in every reachable state \<open>Verify\<close> accepts exactly the tokens within the size
  limit (64 KiB by default) that the library verifies with the keys of a well-formed discovery and
  that meet the configuration: issuer, subject, issue time, one of the configured audiences, and
  an authorized party, by default one of the audiences, required when there are several. The token
  it returns carries the library's fields and the verified claims.
\<close>

theorem Verify_accepts:
  assumes "New au dc c fs = Inr v" and "env_authority env = au"
    and "(verifier_step env)\<^sup>*\<^sup>* (at_rest v) s"
  shows "Verify lib (ver s) raw = Inr tok \<longleftrightarrow>
     (\<exists>md idt claims. tokens (ver s) = Some (new_tokens c md) \<and> well_formed au (Issuer c) md
        \<and> int (length raw) \<le> (if MaxTokenBytes c = 0 then 65536 else MaxTokenBytes c)
        \<and> lib_verify lib (new_tokens c md) raw = Some idt
        \<and> acceptable lib c idt claims \<and> tok = issued lib idt claims)"
proof -
  note new = New_Inr [OF assms(1)] and inv = reachable_verifier [OF assms]
  have static: "cfg (ver s) = cfg v" "audiences (ver s) = audiences v"
    "authorizedParties (ver s) = authorizedParties v" using inv by (simp_all add: verifier_inv_def static_def)
  have parties: "authorizedParties (ver s) = allowed_parties c"
    using new(5) static by (simp only: allowed_parties_def)
  show ?thesis
  proof (cases "tokens (ver s)")
    case (Some w)
    with inv new(2,8) have "\<exists>md. w = new_tokens c md \<and> well_formed au (Issuer c) md"
      by (auto simp only: verifier_inv_def new_tokens_def)
    moreover have "audiences (ver s) = set (Audiences c)" "Issuer (cfg (ver s)) = Issuer c"
      using new(2,3) static by simp_all
    ultimately show ?thesis
      using Verify_Inr [OF Some _ _ parties, of lib raw tok] Some new(6) static(1) by auto
  qed (simp add: Verify_def)
qed


subsection \<open>remoteKeySet\<close>

record 'k jwk =
  KeyID :: string
  Key :: 'k

text \<open>A parsed JWS: the key id of each of its signatures, and what \<open>go-jose\<close> keeps of it.\<close>

record 'j jws =
  Signatures :: "string list"
  Parsed :: 'j

record ('k, 'j) jose_lib =
  ParseSigned :: "string \<Rightarrow> string list \<Rightarrow> 'j jws option"
  jws_Verify :: "'j jws \<Rightarrow> 'k jwk \<Rightarrow> string option"
  Unmarshal_keys :: "string \<Rightarrow> 'k jwk list option"

datatype keyset_error =
    InvalidSignedToken
  | KeysRequestInvalid
  | KeysRequestFailed http_error
  | KeysStatus int
  | KeysRead io_error
  | KeysTooLarge
  | KeysMalformed
  | NoKeyVerified

fun verify_keys :: "('k, 'j) jose_lib \<Rightarrow> 'j jws \<Rightarrow> string \<Rightarrow> 'k jwk list \<Rightarrow> string option" where
  "verify_keys jl signed keyID [] = None"
| "verify_keys jl signed keyID (k # ks) =
     (if keyID \<noteq> [] \<and> KeyID k \<noteq> keyID then verify_keys jl signed keyID ks
      else case jws_Verify jl signed k of
        Some payload \<Rightarrow> Some payload
      | None \<Rightarrow> verify_keys jl signed keyID ks)"

definition verifyWithKeys :: "('k, 'j) jose_lib \<Rightarrow> 'j jws \<Rightarrow> 'k jwk list \<Rightarrow> string option" where
  "verifyWithKeys jl signed ks = verify_keys jl signed (hd (Signatures signed)) ks"

text \<open>\<open>fetch\<close>: the keys, or the error, and the requests sent; \<open>None\<close> when it never returns.\<close>

definition read_keys ::
  "'r env \<Rightarrow> ('k, 'j) jose_lib \<Rightarrow> 'r response \<Rightarrow> (keyset_error, 'k jwk list) result option"
where
  "read_keys env jl resp =
     (if StatusCode resp \<noteq> 200 then Some (Inl (KeysStatus (StatusCode resp)))
      else case read_all (limited_read (env_read env)) (env_spare env) [] (Body resp, maxJWKSBytes + 1) of
        None \<Rightarrow> None
      | Some (Inl x, _) \<Rightarrow> Some (Inl (KeysRead x))
      | Some (Inr body, _) \<Rightarrow>
          Some (if maxJWKSBytes < length body then Inl KeysTooLarge
                else case Unmarshal_keys jl body of
                  None \<Rightarrow> Inl KeysMalformed
                | Some ks \<Rightarrow> Inr ks))"

definition fetch ::
  "'r env \<Rightarrow> ('k, 'j) jose_lib \<Rightarrow> 'r client \<Rightarrow> string
     \<Rightarrow> ((keyset_error, 'k jwk list) result \<times> url list) option"
where
  "fetch env jl client u =
     (case Parse (env_authority env) u of
        None \<Rightarrow> Some (Inl KeysRequestInvalid, [])
      | Some request \<Rightarrow>
      (case Do client request of
        None \<Rightarrow> None
      | Some (Inl e, sent) \<Rightarrow> Some (Inl (KeysRequestFailed e), sent)
      | Some (Inr resp, sent) \<Rightarrow> map_option (\<lambda>res. (res, sent)) (read_keys env jl resp)))"

text \<open>
  \<open>VerifySignature\<close>, which read \<open>keys\<close> under the lock: the result, the keys it stores, if it
  does, and the requests sent.
\<close>

definition VerifySignature ::
  "'r env \<Rightarrow> ('k, 'j) jose_lib \<Rightarrow> 'r client \<Rightarrow> string \<Rightarrow> 'k jwk list \<Rightarrow> string
     \<Rightarrow> ((keyset_error, string) result \<times> 'k jwk list option \<times> url list) option"
where
  "VerifySignature env jl client u keys rawToken =
     (case ParseSigned jl rawToken supportedAlgorithms of
        None \<Rightarrow> Some (Inl InvalidSignedToken, None, [])
      | Some signed \<Rightarrow>
      if length (Signatures signed) \<noteq> 1 then Some (Inl InvalidSignedToken, None, [])
      else case verifyWithKeys jl signed keys of
        Some payload \<Rightarrow> Some (Inr payload, None, [])
      | None \<Rightarrow>
      (case fetch env jl client u of
        None \<Rightarrow> None
      | Some (Inl e, sent) \<Rightarrow> Some (Inl e, None, sent)
      | Some (Inr keys', sent) \<Rightarrow>
          (case verifyWithKeys jl signed keys' of
             Some payload \<Rightarrow> Some (Inr payload, Some keys', sent)
           | None \<Rightarrow> Some (Inl NoKeyVerified, Some keys', sent))))"

text \<open>
  The cache of a key set over time: whatever keys a call has read and whatever the network \<open>c\<close>
  gave it, it stores the keys it has fetched, possibly after other calls have stored theirs.
\<close>

inductive cached :: "'r env \<Rightarrow> ('k, 'j) jose_lib \<Rightarrow> string \<Rightarrow> 'k jwk list \<Rightarrow> bool" for env jl u where
  empty: "cached env jl u []"
| store: "cached env jl u ks \<Longrightarrow>
     VerifySignature env jl (httpsOnlyClient c) u ks raw = Some (res, Some ks', sent) \<Longrightarrow> cached env jl u ks'"

text \<open>
  The keys that the provider published: a request for its key set, with the client \<open>c\<close> and so over the
  requests \<open>sent\<close>, got a response with status 200, whose whole body, of at most 1 MiB, is the document
  with these keys.
\<close>

definition published ::
  "'r env \<Rightarrow> ('k, 'j) jose_lib \<Rightarrow> string \<Rightarrow> 'r client \<Rightarrow> url list \<Rightarrow> 'k jwk list \<Rightarrow> bool"
where
  "published env jl u c sent ks \<longleftrightarrow>
     (\<exists>request resp body. Parse (env_authority env) u = Some request
        \<and> Do (httpsOnlyClient c) request = Some (Inr resp, sent) \<and> StatusCode resp = 200
        \<and> delivers (env_read env) (Body resp) body \<and> length body \<le> 1048576 \<and> Unmarshal_keys jl body = Some ks)"

lemma verify_keys_Some:
  "verify_keys jl signed kid ks = Some payload \<Longrightarrow>
     \<exists>k \<in> set ks. (kid = [] \<or> KeyID k = kid) \<and> jws_Verify jl signed k = Some payload"
  by (induction ks) (auto split: if_splits option.splits)

lemma read_keys_Inr:
  assumes "read_keys env jl resp = Some (Inr ks)"
  shows "StatusCode resp = 200
    \<and> (\<exists>body. delivers (env_read env) (Body resp) body \<and> length body \<le> 1048576 \<and> Unmarshal_keys jl body = Some ks)"
proof -
  from assms obtain body s where "StatusCode resp = 200"
    "read_all (limited_read (env_read env)) (env_spare env) [] (Body resp, maxJWKSBytes + 1) = Some (Inr body, s)"
    "length body \<le> maxJWKSBytes" "Unmarshal_keys jl body = Some ks"
    by (auto simp: read_keys_def not_less split: if_splits option.splits sum.splits)
  moreover from read_all_delivers [OF this(2)] this(3) have "delivers (env_read env) (Body resp) body" by simp
  ultimately show ?thesis by (auto simp: maxJWKSBytes_def)
qed

lemma fetch_Inr: "fetch env jl (httpsOnlyClient c) u = Some (Inr ks, sent) \<Longrightarrow> published env jl u c sent ks"
  by (auto simp: fetch_def published_def dest: read_keys_Inr split: option.splits sum.splits)

lemma fetch_sent:
  assumes "fetch env jl (httpsOnlyClient c) u = Some (res, sent)" and "https_endpoint (env_authority env) u"
  shows "\<forall>r \<in> set sent. Scheme r = ''https''"
  using assms by (auto simp: fetch_def https_endpoint_def dest: Do_https split: option.splits sum.splits)

lemma VerifySignature_stores:
  "VerifySignature env jl client u ks raw = Some (res, Some ks', sent) \<Longrightarrow>
     fetch env jl client u = Some (Inr ks', sent)"
  by (auto simp: VerifySignature_def split: option.splits sum.splits if_splits)

lemma cached_published: "cached env jl u ks \<Longrightarrow> ks = [] \<or> (\<exists>c sent. published env jl u c sent ks)"
  by (induction rule: cached.induct) (auto dest!: VerifySignature_stores fetch_Inr)

lemma verifyWithKeys_Some:
  assumes "verifyWithKeys jl signed ks = Some payload" and "length (Signatures signed) = 1"
  shows "\<exists>kid k. k \<in> set ks \<and> Signatures signed = [kid] \<and> (kid = [] \<or> KeyID k = kid) \<and> jws_Verify jl signed k = Some payload"
proof -
  obtain kid where kid: "Signatures signed = [kid]" using assms(2) by (auto simp: length_Suc_conv)
  then have "\<exists>k \<in> set ks. (kid = [] \<or> KeyID k = kid) \<and> jws_Verify jl signed k = Some payload"
    using assms(1) verify_keys_Some by (fastforce simp: verifyWithKeys_def)
  with kid show ?thesis by auto
qed

text \<open>
  C11 (safety): the payload that \<open>VerifySignature\<close> returns, whatever the cache has gone through,
  is that of a token with a single signature and a supported algorithm, verified by a key that
  has the key id of the signature when there is one. The key is one of the cache, and the provider
  published it in the response to some earlier request, or the provider published it in the response to
  the request of this call, which then stores its keys. Published is a key of a document of at most
  1 MiB that is the whole body of a response with status 200 to a request for the provider's key
  set. Every request sent was an HTTPS request, and none was sent when a cached key verified the
  token.
\<close>

theorem VerifySignature_sound:
  assumes "https_endpoint (env_authority env) u" and "cached env jl u keys"
    and "VerifySignature env jl (httpsOnlyClient c) u keys raw = Some (Inr payload, stored, sent)"
  shows "(\<exists>signed kid ks k. ParseSigned jl raw supportedAlgorithms = Some signed \<and> Signatures signed = [kid]
            \<and> k \<in> set ks \<and> (kid = [] \<or> KeyID k = kid) \<and> jws_Verify jl signed k = Some payload
            \<and> (ks = keys \<and> stored = None \<and> (\<exists>c' sent'. published env jl u c' sent' ks)
               \<or> stored = Some ks \<and> published env jl u c sent ks))
         \<and> (\<forall>r \<in> set sent. Scheme r = ''https'') \<and> (stored = None \<longrightarrow> sent = [])"
proof -
  from assms(3) obtain signed where signed: "ParseSigned jl raw supportedAlgorithms = Some signed"
      "length (Signatures signed) = 1"
    by (auto simp: VerifySignature_def split: option.splits if_splits)
  show ?thesis
  proof (cases "verifyWithKeys jl signed keys")
    case (Some p)
    with assms(3) signed have "p = payload" "stored = None" "sent = []" by (auto simp: VerifySignature_def)
    with verifyWithKeys_Some [OF Some signed(2)] cached_published [OF assms(2)] signed(1)
    show ?thesis by fastforce
  next
    case None
    with assms(3) signed obtain ks where ks: "fetch env jl (httpsOnlyClient c) u = Some (Inr ks, sent)"
        "stored = Some ks" "verifyWithKeys jl signed ks = Some payload"
      by (auto simp: VerifySignature_def split: option.splits sum.splits)
    with verifyWithKeys_Some [OF ks(3) signed(2)] fetch_Inr [OF ks(1)] fetch_sent [OF ks(1) assms(1)] signed(1)
    show ?thesis by fastforce
  qed
qed


subsection \<open>Witnesses\<close>

definition example_config :: Config where
  "example_config = \<lparr>Name = [], Issuer = example_issuer, Audiences = [''app'', ''web''], AuthorizedParties = [],
     SigningAlgorithms = [], MaxTokenBytes = 0\<rparr>"

definition example_verifier :: "stream verifier" where
  "example_verifier =
     \<lparr>cfg = example_config\<lparr>Name := ''oidc-verifier'', MaxTokenBytes := 65536\<rparr>, audiences = {''app'', ''web''},
      authorizedParties = {''app'', ''web''}, vClient = example_client, started = False, stopped = False,
      metadata = no_metadata, tokens = None\<rparr>"

lemma example_New:
  "New (env_authority example_env) example_client example_config [] = Inr example_verifier"
proof -
  have issuer: "validateIssuer (env_authority example_env) example_issuer = None" by (rule example_issuer_valid)
  show ?thesis
    by (auto simp: New_def example_config_def issuer valueSet_def cloneSet_def example_verifier_def
        defaultMaxTokenBytes_def Let_def)
qed

definition example_metadata :: ProviderMetadata where
  "example_metadata = document_metadata example_document"

definition running :: "stream verifier" where
  "running = example_verifier\<lparr>started := True, metadata := example_metadata,
     tokens := Some (new_tokens example_config example_metadata)\<rparr>"

definition ready_system :: "stream system" where
  "ready_system = \<lparr>ver = running, discovering = 0, entered = 1, serving = []\<rparr>"

lemma reach_ready: "(verifier_step example_env)\<^sup>*\<^sup>* (at_rest example_verifier) ready_system"
proof -
  let ?mid = "\<lparr>ver = example_verifier\<lparr>started := True\<rparr>, discovering = 1, entered = 1, serving = []\<rparr>"
  have "verifier_step example_env (at_rest example_verifier) ?mid"
    using verifier_step.start [of "at_rest example_verifier" "example_verifier\<lparr>started := True\<rparr>" example_env]
    by (simp add: at_rest_def Start_enter_def example_verifier_def)
  moreover have "verifier_step example_env ?mid ready_system"
    using verifier_step.finish [where s = ?mid and n = 0 and env = example_env and c = example_client
        and e = None and v' = running and sent = "[first_request, moved_url]"
        and res = "Inr example_metadata"] example_discovery
    by (simp add: Start_finish_def running_def ready_system_def example_metadata_def new_tokens_def
        example_verifier_def example_config_def)
  ultimately show ?thesis by (meson converse_rtranclp_into_rtranclp r_into_rtranclp)
qed

theorem ready_only_while_running_witness:
  "Ready (ver ready_system) \<and> entered ready_system \<le> 1
   \<and> well_formed (env_authority example_env) example_issuer (metadata (ver ready_system))"
  using ready_only_while_running [OF example_New refl reach_ready rtranclp.rtrancl_refl]
  by (simp add: ready_system_def running_def Ready_def example_config_def)

definition example_id_token :: id_token where
  "example_id_token = \<lparr>tokIssuer = example_issuer, tokSubject = ''alice'', tokAudience = [''web'', ''other''],
     tokExpiry = 2000, tokIssuedAt = Some 1000, tokClaims = Some ''{\"azp\":\"web\"}''\<rparr>"

definition example_lib :: token_lib where
  "example_lib =
     \<lparr>lib_verify = (\<lambda>w raw. if raw = ''good'' \<and> tvAlgorithms w = [''RS256''] then Some example_id_token else None),
      lib_object = (\<lambda>claims. Some [''azp'' \<mapsto> ''\"web\"'']), lib_string = (\<lambda>raw. Some ''web'')\<rparr>"

lemma example_acceptable: "acceptable example_lib example_config example_id_token ''{\"azp\":\"web\"}''"
  by (simp add: acceptable_def azp_allowed_def allowed_parties_def example_lib_def example_config_def example_id_token_def)

theorem Verify_accepts_witness:
  "Verify example_lib (ver ready_system) ''good'' = Inr (issued example_lib example_id_token ''{\"azp\":\"web\"}'')
   \<and> Verify example_lib (ver ready_system) ''bad'' \<noteq> Inr (issued example_lib example_id_token ''{}'')"
proof -
  have run: "tokens (ver ready_system) = Some (new_tokens example_config example_metadata)"
    by (simp add: ready_system_def running_def)
  have "well_formed (env_authority example_env) example_issuer example_metadata"
    using Discover_metadata [OF example_discovery] by (simp add: example_metadata_def)
  moreover have "lib_verify example_lib (new_tokens example_config example_metadata) ''good'' = Some example_id_token"
    by (simp add: example_lib_def new_tokens_def example_config_def example_metadata_def document_metadata_def
        example_document_def supportedAlgorithms_def)
  moreover have "lib_verify example_lib w ''bad'' = None" for w by (simp add: example_lib_def)
  ultimately show ?thesis
    using run example_acceptable
    unfolding Verify_accepts [OF example_New refl reach_ready]
    by (auto simp: example_config_def)
qed

text \<open>A provider with one key, which a stale cache does not have.\<close>

definition example_jose :: "(nat, unit) jose_lib" where
  "example_jose =
     \<lparr>ParseSigned = (\<lambda>raw algs. if ''RS256'' \<in> set algs then Some \<lparr>Signatures = [''k2''], Parsed = ()\<rparr> else None),
      jws_Verify = (\<lambda>signed k. if Key k = 7 then Some ''payload'' else None),
      Unmarshal_keys = (\<lambda>body. if body = ''{}'' then Some [\<lparr>KeyID = ''k2'', Key = 7\<rparr>] else None)\<rparr>"

definition keys_url :: string where "keys_url = ''https://id.example/keys''"

definition keys_request :: url where
  "keys_request = no_url\<lparr>Scheme := ''https'', Host := ''id.example'', Path := ''/keys''\<rparr>"

lemma keys_parsed: "Parse (env_authority example_env) keys_url = Some keys_request"
  by code_simp

lemma keys_redirect:
  "Do (httpsOnlyClient example_client) keys_request = Some (Inr example_response, [keys_request, moved_url])"
  by (simp add: Do_def send_from.simps httpsOnlyClient_def example_client_def check_redirect_def is_redirect_def
      example_response_def moved_url_def)

lemma keys_read: "read_keys example_env example_jose example_response = Some (Inr [\<lparr>KeyID = ''k2'', Key = 7\<rparr>])"
  by (simp add: read_keys_def example_env_def example_jose_def example_response_def maxJWKSBytes_def
      read_all.simps [of _ _ _ "(_, _)"] limited_read_def)

theorem VerifySignature_sound_witness:
  "VerifySignature example_env example_jose (httpsOnlyClient example_client) keys_url [] ''jws''
     = Some (Inr ''payload'', Some [\<lparr>KeyID = ''k2'', Key = 7\<rparr>], [keys_request, moved_url])
   \<and> published example_env example_jose keys_url example_client [keys_request, moved_url] [\<lparr>KeyID = ''k2'', Key = 7\<rparr>]"
proof -
  have run: "VerifySignature example_env example_jose (httpsOnlyClient example_client) keys_url [] ''jws''
     = Some (Inr ''payload'', Some [\<lparr>KeyID = ''k2'', Key = 7\<rparr>], [keys_request, moved_url])"
    using keys_read
    by (simp add: VerifySignature_def fetch_def keys_parsed keys_redirect verifyWithKeys_def
        example_jose_def supportedAlgorithms_def)
  have "https_endpoint (env_authority example_env) keys_url"
    by (simp add: https_endpoint_def keys_parsed keys_request_def no_url_def)
  from VerifySignature_sound [OF this cached.empty run] run show ?thesis by auto
qed

end
