(* ===== verification/Artifact.thy ===== *)
theory Artifact
  imports StrictDecode Paths GoStrings
begin

text \<open>
  The content-addressed store of \<open>artifact/artifact.go\<close>, on a file system of names and inodes
  that other processes change between any two system calls of this one. \<open>sha256\<close> is an
  argument; the source of a \<open>Put\<close> is any reader.
\<close>

subsection \<open>Files\<close>

datatype kind = Regular | Directory | Symlink string | Special

record node =
  node_kind :: kind
  node_data :: string
  node_mtime :: int

text \<open>\<open>top\<close>: the inode numbers from there on are unused.\<close>

record afs =
  names :: "string \<Rightarrow> nat option"
  nodes :: "nat \<Rightarrow> node"
  top :: nat

datatype sys_error = NotExist | Exist | Failed

text \<open>
  The surroundings of a call of \<open>Put\<close>, by the number of the system call: what the others have
  done to the files just before it, whether it fails for a reason of its own, the random part of
  a temporary name, the time, and whether the context has ended.
\<close>

record environment =
  others :: "nat \<Rightarrow> afs \<Rightarrow> afs"
  fails_at :: "nat \<Rightarrow> bool"
  random_part :: "nat \<Rightarrow> string"
  clock_time :: "nat \<Rightarrow> int"
  ctx_ended :: "nat \<Rightarrow> bool"

record world =
  calls :: nat
  files :: afs

definition sys :: "environment \<Rightarrow> (afs \<Rightarrow> (sys_error, 'a) result \<times> afs) \<Rightarrow> world \<Rightarrow> (sys_error, 'a) result \<times> world" where
  "sys env f w =
     (let k = calls w; fs = others env k (files w) in
      if fails_at env k then (Inl Failed, \<lparr>calls = Suc k, files = fs\<rparr>)
      else case f fs of (x, fs') \<Rightarrow> (x, \<lparr>calls = Suc k, files = fs'\<rparr>))"

definition lstat :: "string \<Rightarrow> afs \<Rightarrow> (sys_error, nat \<times> node) result \<times> afs" where
  "lstat p fs = (case names fs p of None \<Rightarrow> Inl NotExist | Some i \<Rightarrow> Inr (i, nodes fs i), fs)"

text \<open>\<open>os.Open\<close> follows at most 40 symbolic links.\<close>

fun resolve :: "nat \<Rightarrow> afs \<Rightarrow> string \<Rightarrow> (sys_error, nat) result" where
  "resolve 0 fs p = Inl Failed"
| "resolve (Suc n) fs p =
     (case names fs p of
        None \<Rightarrow> Inl NotExist
      | Some i \<Rightarrow> (case node_kind (nodes fs i) of Symlink q \<Rightarrow> resolve n fs q | _ \<Rightarrow> Inr i))"

definition open_file :: "string \<Rightarrow> afs \<Rightarrow> (sys_error, nat) result \<times> afs" where
  "open_file p fs = (resolve 41 fs p, fs)"

definition fstat :: "nat \<Rightarrow> afs \<Rightarrow> (sys_error, node) result \<times> afs" where
  "fstat i fs = (Inr (nodes fs i), fs)"

definition pread :: "nat \<Rightarrow> nat \<Rightarrow> nat \<Rightarrow> afs \<Rightarrow> (sys_error, string) result \<times> afs" where
  "pread i off n fs = (Inr (take n (drop off (node_data (nodes fs i)))), fs)"

text \<open>Writing at an offset; a gap before it is filled with zero bytes.\<close>

definition write_at :: "nat \<Rightarrow> string \<Rightarrow> string \<Rightarrow> string" where
  "write_at off bs d = take off (d @ replicate (off - length d) (CHR 0x00)) @ bs @ drop (off + length bs) d"

definition pwrite :: "int \<Rightarrow> nat \<Rightarrow> nat \<Rightarrow> string \<Rightarrow> afs \<Rightarrow> (sys_error, nat) result \<times> afs" where
  "pwrite t i off bs fs =
     (Inr (length bs),
      fs\<lparr>nodes := (nodes fs)(i := (nodes fs i)\<lparr>node_data := write_at off bs (node_data (nodes fs i)), node_mtime := t\<rparr>)\<rparr>)"

definition add_node :: "string \<Rightarrow> node \<Rightarrow> afs \<Rightarrow> afs" where
  "add_node p nd fs = \<lparr>names = (names fs)(p \<mapsto> top fs), nodes = (nodes fs)(top fs := nd), top = Suc (top fs)\<rparr>"

definition open_excl :: "int \<Rightarrow> string \<Rightarrow> afs \<Rightarrow> (sys_error, nat) result \<times> afs" where
  "open_excl t p fs =
     (if names fs p \<noteq> None then (Inl Exist, fs)
      else (Inr (top fs), add_node p \<lparr>node_kind = Regular, node_data = [], node_mtime = t\<rparr> fs))"

definition mkdir :: "int \<Rightarrow> string \<Rightarrow> afs \<Rightarrow> (sys_error, unit) result \<times> afs" where
  "mkdir t p fs =
     (case resolve 41 fs p of
        Inr i \<Rightarrow> (if node_kind (nodes fs i) = Directory then Inr () else Inl Failed, fs)
      | Inl _ \<Rightarrow>
          if names fs p \<noteq> None then (Inl Failed, fs)
          else (Inr (), add_node p \<lparr>node_kind = Directory, node_data = [], node_mtime = t\<rparr> fs))"

definition link :: "string \<Rightarrow> string \<Rightarrow> afs \<Rightarrow> (sys_error, unit) result \<times> afs" where
  "link old new fs =
     (case names fs old of
        None \<Rightarrow> (Inl NotExist, fs)
      | Some i \<Rightarrow>
          if names fs new \<noteq> None then (Inl Exist, fs)
          else (Inr (), fs\<lparr>names := (names fs)(new \<mapsto> i)\<rparr>))"

definition remove :: "string \<Rightarrow> afs \<Rightarrow> (sys_error, unit) result \<times> afs" where
  "remove p fs = (if names fs p = None then (Inl NotExist, fs) else (Inr (), fs\<lparr>names := (names fs)(p := None)\<rparr>))"

text \<open>\<open>os.MkdirAll\<close>: every prefix of the path that ends before a separator, and the path.\<close>

definition dir_prefixes :: "string \<Rightarrow> string list" where
  "dir_prefixes p = map (\<lambda>n. take n p) (filter (\<lambda>n. 0 < n \<and> (n = length p \<or> p ! n = slash)) [0..<Suc (length p)])"

fun mkdirs :: "environment \<Rightarrow> string list \<Rightarrow> world \<Rightarrow> (sys_error, unit) result \<times> world" where
  "mkdirs env [] w = (Inr (), w)"
| "mkdirs env (p # ps) w =
     (case sys env (mkdir (clock_time env (calls w)) p) w of
        (Inl e, w') \<Rightarrow> (Inl e, w')
      | (Inr _, w') \<Rightarrow> mkdirs env ps w')"

definition MkdirAll :: "environment \<Rightarrow> string \<Rightarrow> world \<Rightarrow> (sys_error, unit) result \<times> world" where
  "MkdirAll env p w = mkdirs env (dir_prefixes p) w"

text \<open>\<open>os.CreateTemp\<close> tries up to 10000 names.\<close>

definition temp_path :: "string \<Rightarrow> string \<Rightarrow> string" where
  "temp_path root r = (if root \<noteq> [] \<and> last root = slash then root else root @ [slash]) @ ''.tmp-'' @ r"

fun create_temp :: "nat \<Rightarrow> environment \<Rightarrow> string \<Rightarrow> world \<Rightarrow> (sys_error, string \<times> nat) result \<times> world" where
  "create_temp 0 env root w = (Inl Exist, w)"
| "create_temp (Suc n) env root w =
     (let p = temp_path root (random_part env (calls w)) in
      case sys env (open_excl (clock_time env (calls w)) p) w of
        (Inr i, w') \<Rightarrow> (Inr (p, i), w')
      | (Inl Exist, w') \<Rightarrow> create_temp n env root w'
      | (Inl e, w') \<Rightarrow> (Inl e, w'))"

definition CreateTemp :: "environment \<Rightarrow> string \<Rightarrow> world \<Rightarrow> (sys_error, string \<times> nat) result \<times> world" where
  "CreateTemp env root w = create_temp 10000 env root w"

text \<open>\<open>filepath.Join\<close>.\<close>

definition Join :: "string list \<Rightarrow> string" where
  "Join elems = (case dropWhile (\<lambda>e. e = []) elems of [] \<Rightarrow> [] | es \<Rightarrow> Clean (join es))"

subsection \<open>The store\<close>

datatype artifact_error =
    OS sys_error
  | DigestLength
  | DigestNotHex
  | RootRequired
  | NotRegular string
  | Canceled
  | ReadFailed io_error
  | WriteFailed
  | ErrShortWrite
  | StoredNotRegular
  | StoredChanged
  | StoredMismatch
  | PublishFailed sys_error

record artifact =
  art_Path :: string
  art_Name :: string
  SHA256 :: string
  Size :: nat
  ModTime :: int

record Stored =
  Artifact :: artifact
  StorePath :: string
  AlreadyExists :: bool

definition Path :: "string \<Rightarrow> string \<Rightarrow> (artifact_error, string) result" where
  "Path root sha =
     (if length sha \<noteq> 64 then Inl DigestLength
      else if DecodeString sha = None then Inl DigestNotHex
      else Inr (Join [root, take 2 sha, sha]))"

text \<open>\<open>Digest\<close> of any reader; \<open>io.Copy\<close> reads it to its end.\<close>

definition Digest :: "(string \<Rightarrow> string) \<Rightarrow> (nat \<Rightarrow> nat) \<Rightarrow> 'r read \<Rightarrow> 'r \<Rightarrow> ((io_error, string \<times> nat) result \<times> 'r) option" where
  "Digest sha256 spare rd r =
     map_option (\<lambda>(res, r'). (case res of Inl x \<Rightarrow> Inl x | Inr bs \<Rightarrow> Inr (EncodeToString (sha256 bs), length bs), r'))
       (read_all rd spare [] r)"

text \<open>\<open>Digest\<close> of a file that may change while it is read; \<open>None\<close> when it grows for ever.\<close>

partial_function (option) read_file ::
  "environment \<Rightarrow> nat \<Rightarrow> string \<Rightarrow> world \<Rightarrow> ((sys_error, string) result \<times> world) option"
where
  "read_file env i bs w =
     (case sys env (pread i (length bs) 32768) w of
        (Inl e, w') \<Rightarrow> Some (Inl e, w')
      | (Inr chunk, w') \<Rightarrow> if chunk = [] then Some (Inr bs, w') else read_file env i (bs @ chunk) w')"

definition SameFile :: "nat \<Rightarrow> nat \<Rightarrow> bool" where
  "SameFile i j \<longleftrightarrow> i = j"

text \<open>\<open>validateStoredArtifact\<close>: whether a valid artifact is there.\<close>

definition validate_after ::
  "environment \<Rightarrow> string \<Rightarrow> nat \<Rightarrow> node \<Rightarrow> world \<Rightarrow> (artifact_error, bool) result \<times> world"
where
  "validate_after env path i opened w =
     (case sys env (fstat i) w of
        (Inl e, w1) \<Rightarrow> (Inl (OS e), w1)
      | (Inr validated, w1) \<Rightarrow>
          if length (node_data validated) \<noteq> length (node_data opened) \<or> node_mtime validated \<noteq> node_mtime opened
          then (Inl StoredChanged, w1)
          else case sys env (lstat path) w1 of
            (Inl e, w2) \<Rightarrow> (Inl (OS e), w2)
          | (Inr (j, after), w2) \<Rightarrow>
              if node_kind after \<noteq> Regular \<or> \<not> SameFile i j
                 \<or> length (node_data after) \<noteq> length (node_data validated)
                 \<or> node_mtime after \<noteq> node_mtime validated
              then (Inl StoredChanged, w2)
              else (Inr True, w2))"

definition validate_opened ::
  "(string \<Rightarrow> string) \<Rightarrow> environment \<Rightarrow> string \<Rightarrow> string \<Rightarrow> nat \<Rightarrow> nat \<Rightarrow> nat \<Rightarrow> world
     \<Rightarrow> ((artifact_error, bool) result \<times> world) option"
where
  "validate_opened sha256 env path wantSHA wantSize before i w =
     (case sys env (fstat i) w of
        (Inl e, w1) \<Rightarrow> Some (Inl (OS e), w1)
      | (Inr opened, w1) \<Rightarrow>
          if node_kind opened \<noteq> Regular \<or> \<not> SameFile before i then Some (Inl StoredChanged, w1)
          else case read_file env i [] w1 of
            None \<Rightarrow> None
          | Some (Inl e, w2) \<Rightarrow> Some (Inl (OS e), w2)
          | Some (Inr bs, w2) \<Rightarrow>
              if length bs \<noteq> wantSize \<or> EncodeToString (sha256 bs) \<noteq> wantSHA
              then Some (Inl StoredMismatch, w2)
              else Some (validate_after env path i opened w2))"

definition validateStoredArtifact ::
  "(string \<Rightarrow> string) \<Rightarrow> environment \<Rightarrow> string \<Rightarrow> string \<Rightarrow> nat \<Rightarrow> world
     \<Rightarrow> ((artifact_error, bool) result \<times> world) option"
where
  "validateStoredArtifact sha256 env path wantSHA wantSize w =
     (case sys env (lstat path) w of
        (Inl NotExist, w1) \<Rightarrow> Some (Inr False, w1)
      | (Inl e, w1) \<Rightarrow> Some (Inl (OS e), w1)
      | (Inr (before, nd), w1) \<Rightarrow>
          if node_kind nd \<noteq> Regular then Some (Inl StoredNotRegular, w1)
          else case sys env (open_file path) w1 of
            (Inl e, w2) \<Rightarrow> Some (Inl (OS e), w2)
          | (Inr i, w2) \<Rightarrow> validate_opened sha256 env path wantSHA wantSize before i w2)"

subsection \<open>copyAndDigest\<close>

text \<open>
  On any state with a reader and a writer; \<open>wr\<close> gives the number of bytes written and whether
  there was an error.
\<close>

definition copyBufferSize :: nat where "copyBufferSize = 65536"

definition multi_write :: "('s \<Rightarrow> string \<Rightarrow> nat \<times> bool \<times> 's) \<Rightarrow> 's \<Rightarrow> string \<Rightarrow> artifact_error option \<times> 's" where
  "multi_write wr s bs =
     (case wr s bs of
        (n, err, s') \<Rightarrow> (if err then Some WriteFailed else if n \<noteq> length bs then Some ErrShortWrite else None, s'))"

partial_function (option) copy_from ::
  "('s \<Rightarrow> bool) \<Rightarrow> 's read \<Rightarrow> ('s \<Rightarrow> string \<Rightarrow> nat \<times> bool \<times> 's) \<Rightarrow> string \<Rightarrow> 's
     \<Rightarrow> ((artifact_error, string) result \<times> 's) option"
where
  "copy_from ctx rd wr hashed s =
     (if ctx s then Some (Inl Canceled, s)
      else case rd s copyBufferSize of
        (bs, readErr, s1) \<Rightarrow>
          (case (if bs \<noteq> [] then multi_write wr s1 bs else (None, s1)) of
             (Some e, s2) \<Rightarrow> Some (Inl e, s2)
           | (None, s2) \<Rightarrow>
               (case readErr of
                  None \<Rightarrow> copy_from ctx rd wr (hashed @ bs) s2
                | Some x \<Rightarrow> Some (if is_EOF x then Inr (hashed @ bs) else Inl (ReadFailed x), s2))))"

definition copyAndDigest ::
  "(string \<Rightarrow> string) \<Rightarrow> ('s \<Rightarrow> bool) \<Rightarrow> 's read \<Rightarrow> ('s \<Rightarrow> string \<Rightarrow> nat \<times> bool \<times> 's) \<Rightarrow> 's
     \<Rightarrow> ((artifact_error, string \<times> nat) result \<times> 's) option"
where
  "copyAndDigest sha256 ctx rd wr s =
     map_option (\<lambda>(res, s'). (case res of Inl e \<Rightarrow> Inl e | Inr bs \<Rightarrow> Inr (EncodeToString (sha256 bs), length bs), s'))
       (copy_from ctx rd wr [] s)"

subsection \<open>Put and Inspect\<close>

text \<open>An opened source: what \<open>Stat\<close> says (\<open>None\<close> when it fails) and the reader.\<close>

record 'r source =
  src_stat :: "(kind \<times> int) option"
  src_reader :: 'r

text \<open>The state of the copy: the source, the world, and the offset of the temporary file.\<close>

type_synonym 'r copying = "'r \<times> world \<times> nat"

definition src_read :: "'r read \<Rightarrow> 'r copying read" where
  "src_read rd = (\<lambda>(r, w, off) n. case rd r n of (bs, e, r') \<Rightarrow> (bs, e, (r', w, off)))"

definition tmp_write :: "environment \<Rightarrow> nat \<Rightarrow> 'r copying \<Rightarrow> string \<Rightarrow> nat \<times> bool \<times> 'r copying" where
  "tmp_write env i = (\<lambda>(r, w, off) bs.
     case sys env (pwrite (clock_time env (calls w)) i off bs) w of
       (Inl e, w') \<Rightarrow> (0, True, (r, w', off))
     | (Inr n, w') \<Rightarrow> (n, False, (r, w', off + n)))"

definition ctx_copy :: "environment \<Rightarrow> 'r copying \<Rightarrow> bool" where
  "ctx_copy env = (\<lambda>(r, w, off). ctx_ended env (calls w))"

text \<open>The loop that publishes the temporary file under its name.\<close>

partial_function (option) publish ::
  "(string \<Rightarrow> string) \<Rightarrow> environment \<Rightarrow> string \<Rightarrow> string \<Rightarrow> artifact \<Rightarrow> world
     \<Rightarrow> ((artifact_error, Stored) result \<times> world) option"
where
  "publish sha256 env tmpPath storePath a w =
     (if ctx_ended env (calls w) then Some (Inl Canceled, w)
      else case sys env (link tmpPath storePath) w of
        (Inr _, w1) \<Rightarrow> Some (Inr \<lparr>Artifact = a, StorePath = storePath, AlreadyExists = False\<rparr>, w1)
      | (Inl Exist, w1) \<Rightarrow>
          (case validateStoredArtifact sha256 env storePath (SHA256 a) (Size a) w1 of
             None \<Rightarrow> None
           | Some (Inl e, w2) \<Rightarrow> Some (Inl e, w2)
           | Some (Inr ex, w2) \<Rightarrow>
               if \<not> ex then publish sha256 env tmpPath storePath a w2
               else Some (Inr \<lparr>Artifact = a, StorePath = storePath, AlreadyExists = True\<rparr>, w2))
      | (Inl e, w1) \<Rightarrow> Some (Inl (PublishFailed e), w1))"

definition put_copied ::
  "(string \<Rightarrow> string) \<Rightarrow> environment \<Rightarrow> string \<Rightarrow> string \<Rightarrow> artifact \<Rightarrow> world
     \<Rightarrow> ((artifact_error, Stored) result \<times> world) option"
where
  "put_copied sha256 env root tmpPath a w =
     (case Path root (SHA256 a) of
        Inl e \<Rightarrow> Some (Inl e, w)
      | Inr storePath \<Rightarrow>
      (case validateStoredArtifact sha256 env storePath (SHA256 a) (Size a) w of
        None \<Rightarrow> None
      | Some (Inl e, w1) \<Rightarrow> Some (Inl e, w1)
      | Some (Inr True, w1) \<Rightarrow> Some (Inr \<lparr>Artifact = a, StorePath = storePath, AlreadyExists = True\<rparr>, w1)
      | Some (Inr False, w1) \<Rightarrow>
          (case MkdirAll env (Dir storePath) w1 of
             (Inl e, w2) \<Rightarrow> Some (Inl (OS e), w2)
           | (Inr _, w2) \<Rightarrow> publish sha256 env tmpPath storePath a w2)))"

text \<open>From the creation of the temporary file to its removal, which is deferred.\<close>

definition close_call :: "afs \<Rightarrow> (sys_error, unit) result \<times> afs" where
  "close_call fs = (Inr (), fs)"

definition put_temp ::
  "(string \<Rightarrow> string) \<Rightarrow> environment \<Rightarrow> 'r read \<Rightarrow> string \<Rightarrow> string \<Rightarrow> int \<Rightarrow> string \<Rightarrow> nat \<Rightarrow> 'r \<Rightarrow> world
     \<Rightarrow> ((artifact_error, Stored) result \<times> world) option"
where
  "put_temp sha256 env rd root path mtime tmpPath i r w =
     (case copyAndDigest sha256 (ctx_copy env) (src_read rd) (tmp_write env i) (r, w, 0) of
        None \<Rightarrow> None
      | Some (Inl e, (r1, w1, off)) \<Rightarrow> Some (Inl e, snd (sys env close_call w1))
      | Some (Inr (sha, n), (r1, w1, off)) \<Rightarrow>
          (case sys env close_call w1 of
             (Inl e, w2) \<Rightarrow> Some (Inl (OS e), w2)
           | (Inr _, w2) \<Rightarrow>
               put_copied sha256 env root tmpPath
                 \<lparr>art_Path = path, art_Name = Base path, SHA256 = sha, Size = n, ModTime = mtime\<rparr> w2))"

definition Put ::
  "(string \<Rightarrow> string) \<Rightarrow> environment \<Rightarrow> 'r read \<Rightarrow> string \<Rightarrow> string \<Rightarrow> (sys_error, 'r source) result \<Rightarrow> world
     \<Rightarrow> ((artifact_error, Stored) result \<times> world) option"
where
  "Put sha256 env rd root path opened w =
     (if root = [] then Some (Inl RootRequired, w)
      else case opened of
        Inl e \<Rightarrow> Some (Inl (OS e), w)
      | Inr src \<Rightarrow>
      (case src_stat src of
        None \<Rightarrow> Some (Inl (OS Failed), w)
      | Some (knd, mtime) \<Rightarrow>
      if knd \<noteq> Regular then Some (Inl (NotRegular path), w)
      else case MkdirAll env root w of
        (Inl e, w1) \<Rightarrow> Some (Inl (OS e), w1)
      | (Inr _, w1) \<Rightarrow>
      (case CreateTemp env root w1 of
        (Inl e, w2) \<Rightarrow> Some (Inl (OS e), w2)
      | (Inr (tmpPath, i), w2) \<Rightarrow>
          map_option (\<lambda>(res, w3). (res, snd (sys env (remove tmpPath) w3)))
            (put_temp sha256 env rd root path mtime tmpPath i (src_reader src) w2))))"

definition Inspect ::
  "(string \<Rightarrow> string) \<Rightarrow> (nat \<Rightarrow> nat) \<Rightarrow> 'r read \<Rightarrow> string \<Rightarrow> (sys_error, 'r source) result
     \<Rightarrow> (artifact_error, artifact) result option"
where
  "Inspect sha256 spare rd path opened =
     (case opened of
        Inl e \<Rightarrow> Some (Inl (OS e))
      | Inr src \<Rightarrow>
      (case src_stat src of
        None \<Rightarrow> Some (Inl (OS Failed))
      | Some (knd, mtime) \<Rightarrow>
      if knd \<noteq> Regular then Some (Inl (NotRegular path))
      else (case Digest sha256 spare rd (src_reader src) of
        None \<Rightarrow> None
      | Some (Inl x, _) \<Rightarrow> Some (Inl (ReadFailed x))
      | Some (Inr (sha, n), _) \<Rightarrow>
          Some (Inr \<lparr>art_Path = path, art_Name = Base path, SHA256 = sha, Size = n, ModTime = mtime\<rparr>))))"


subsection \<open>The paths of the store\<close>

definition root_ok :: "string \<Rightarrow> bool" where
  "root_ok root \<longleftrightarrow> dot_free root \<and> plain root \<and> root \<noteq> [] \<and> root \<noteq> [slash]"

definition valid_sha :: "string \<Rightarrow> bool" where
  "valid_sha sha \<longleftrightarrow> length sha = 64 \<and> DecodeString sha \<noteq> None"

definition store_path :: "string \<Rightarrow> string \<Rightarrow> string" where
  "store_path root sha = root @ slash # take 2 sha @ slash # sha"

lemma segments_append: "segments (a @ slash # b) = segments a @ segments b"
proof (induction a)
  case (Cons c a)
  obtain t ts where "segments a = t # ts" by (cases "segments a") auto
  with Cons show ?case by simp
qed simp

lemma sha_chars: "valid_sha sha \<Longrightarrow> c \<in> set sha \<Longrightarrow> c \<noteq> slash \<and> c \<noteq> CHR ''.''"
  using DecodeString_digits [of sha] hex_value_not_slash [of c] by (fastforce simp: valid_sha_def)

lemma take_sha: "valid_sha sha \<Longrightarrow> c \<in> set (take n sha) \<Longrightarrow> c \<noteq> slash \<and> c \<noteq> CHR ''.''"
  by (meson in_set_takeD sha_chars)

lemma sha_segments:
  assumes "valid_sha sha" and "0 < n"
  shows "segments (take n sha) = [take n sha]" and "take n sha \<noteq> []" and "take n sha \<noteq> ''.''" and "take n sha \<noteq> ''..''"
proof -
  show "segments (take n sha) = [take n sha]"
    using take_sha [OF assms(1)] by (intro segments_single) blast
  show "take n sha \<noteq> []" using assms by (cases sha) (auto simp: valid_sha_def)
  have "CHR ''.'' \<notin> set (take n sha)" using take_sha [OF assms(1), of "CHR ''.''" n] by blast
  then show "take n sha \<noteq> ''.''" and "take n sha \<noteq> ''..''" by (metis list.set_intros(1))+
qed

lemma below_root:
  assumes "root_ok root" and "segments t = ts" and "\<forall>x \<in> set ts. x \<noteq> [] \<and> x \<noteq> ''.'' \<and> x \<noteq> ''..''"
  shows "Clean (root @ slash # t) = root @ slash # t"
proof -
  let ?s = "root @ slash # t"
  have "dot_free ?s" using assms by (auto simp: root_ok_def dot_free_def segments_append)
  moreover have "segments (if rooted ?s then tl ?s else ?s) = segments (if rooted root then tl root else root) @ ts"
    using assms(1,2) segments_append [of root t] segments_append [of "tl root" t]
    by (cases root) (simp_all add: rooted_def root_ok_def del: segments.simps)
  then have "plain ?s" using assms(1,3) unfolding root_ok_def plain_def by (metis Un_iff set_append)
  ultimately show ?thesis using Clean_fixpoint by blast
qed

lemma Path_Inr:
  assumes "root_ok root"
  shows "Path root sha = Inr p \<longleftrightarrow> valid_sha sha \<and> p = store_path root sha"
proof -
  have "Join [root, take 2 sha, sha] = store_path root sha" if sha: "valid_sha sha"
  proof -
    have all: "sha = take (length sha) sha" "0 < length sha" using sha by (auto simp: valid_sha_def)
    have "segments (take 2 sha @ slash # sha) = [take 2 sha, sha]"
      using sha_segments(1) [OF sha, of 2] sha_segments(1) [OF sha all(2)] all(1) by (simp add: segments_append)
    then have "Clean (store_path root sha) = store_path root sha"
      unfolding store_path_def
      using sha_segments [OF sha, of 2] sha_segments [OF sha all(2)] all(1)
      by (intro below_root [OF assms]) auto
    then show ?thesis using assms by (simp add: Join_def root_ok_def store_path_def)
  qed
  then show ?thesis by (auto simp: Path_def valid_sha_def split: if_splits)
qed

lemma store_path_inject: "store_path root a = store_path root b \<Longrightarrow> valid_sha a \<Longrightarrow> valid_sha b \<Longrightarrow> a = b"
  by (auto simp: store_path_def valid_sha_def dest!: arg_cong [where f = "drop 3"])

lemma clean_segments_end: "clean_segments r out (ss @ [[]]) = clean_segments r out ss"
  by (induction ss arbitrary: out) auto

lemma Clean_slash: "s \<noteq> [] \<Longrightarrow> Clean (s @ [slash]) = Clean s"
  using segments_append [of s "[]"] by (simp add: Clean_def rooted_def clean_segments_end)

lemma Dir_store_path:
  assumes "root_ok root" and "valid_sha sha"
  shows "Dir (store_path root sha) = root @ slash # take 2 sha"
proof -
  have "slash \<notin> set (rev sha)" using sha_chars [OF assms(2)] by auto
  then have "dropWhile (\<lambda>c. c \<noteq> slash) (rev (store_path root sha)) = rev (root @ slash # take 2 sha @ [slash])"
    unfolding store_path_def by (subst rev_append) (auto simp: dropWhile_append)
  then have "Dir (store_path root sha) = Clean ((root @ slash # take 2 sha) @ [slash])"
    by (simp add: Dir_def)
  also have "\<dots> = Clean (root @ slash # take 2 sha)" by (rule Clean_slash) simp
  finally show ?thesis
    using below_root [OF assms(1), of "take 2 sha"] sha_segments [OF assms(2), of 2] by simp
qed

lemma temp_not_store: "valid_sha sha \<Longrightarrow> temp_path root r \<noteq> store_path root sha"
proof
  assume sha: "valid_sha sha" and eq: "temp_path root r = store_path root sha"
  obtain c cs where c: "sha = c # cs" using sha by (cases sha) (auto simp: valid_sha_def)
  have "c \<noteq> CHR ''.''" using sha_chars [OF sha] c by auto
  with eq c show False by (auto simp: temp_path_def store_path_def split: if_splits)
qed

lemma dir_prefixes_length: "x \<in> set (dir_prefixes p) \<Longrightarrow> length x \<le> length p"
  by (auto simp: dir_prefixes_def)

lemma prefix_not_store:
  assumes "valid_sha sha" and "x \<in> set (dir_prefixes p)" and "length p < length root + 68"
  shows "x \<noteq> store_path root sha"
  using dir_prefixes_length [OF assms(2)] assms(1,3) by (auto simp: store_path_def valid_sha_def)


subsection \<open>What no call may change\<close>

text \<open>Every entry of the store is a regular file whose content has the digest of its name.\<close>

definition store_ok :: "(string \<Rightarrow> string) \<Rightarrow> string \<Rightarrow> afs \<Rightarrow> bool" where
  "store_ok sha256 root fs \<longleftrightarrow>
     (\<forall>sha i. valid_sha sha \<longrightarrow> names fs (store_path root sha) = Some i \<longrightarrow>
        node_kind (nodes fs i) = Regular \<and> EncodeToString (sha256 (node_data (nodes fs i))) = sha)"

text \<open>Later files have every entry that earlier ones had, with the same content.\<close>

definition extends :: "string \<Rightarrow> afs \<Rightarrow> afs \<Rightarrow> bool" where
  "extends root fs fs' \<longleftrightarrow>
     (\<forall>sha i. valid_sha sha \<longrightarrow> names fs (store_path root sha) = Some i \<longrightarrow>
        names fs' (store_path root sha) = Some i \<and> nodes fs' i = nodes fs i)"

definition bound :: "afs \<Rightarrow> bool" where
  "bound fs \<longleftrightarrow> (\<forall>p i. names fs p = Some i \<longrightarrow> i < top fs)"

definition kept :: "(string \<Rightarrow> string) \<Rightarrow> string \<Rightarrow> afs \<Rightarrow> afs \<Rightarrow> bool" where
  "kept sha256 root fs0 fs \<longleftrightarrow> bound fs \<and> store_ok sha256 root fs \<and> extends root fs0 fs"

text \<open>The temporary file of this call: the only name of its inode, and what it holds.\<close>

definition owned :: "environment \<Rightarrow> string \<Rightarrow> string \<times> nat \<times> string \<Rightarrow> afs \<Rightarrow> bool" where
  "owned env root t fs \<longleftrightarrow>
     (case t of (p, i, bs) \<Rightarrow>
        (\<exists>n. p = temp_path root (random_part env n)) \<and> names fs p = Some i
        \<and> node_kind (nodes fs i) = Regular \<and> node_data (nodes fs i) = bs
        \<and> (\<forall>q. names fs q = Some i \<longrightarrow> q = p))"

definition holds :: "(string \<Rightarrow> string) \<Rightarrow> environment \<Rightarrow> string \<Rightarrow> afs \<Rightarrow> (string \<times> nat \<times> string) option \<Rightarrow> afs \<Rightarrow> bool" where
  "holds sha256 env root fs0 t fs \<longleftrightarrow>
     kept sha256 root fs0 fs \<and> (case t of None \<Rightarrow> True | Some x \<Rightarrow> owned env root x fs)"

text \<open>
  The other processes, other calls of \<open>Put\<close> among them: they may do anything but break or
  remove an entry of the store, and touch this call's temporary files.
\<close>

definition polite :: "(string \<Rightarrow> string) \<Rightarrow> environment \<Rightarrow> string \<Rightarrow> bool" where
  "polite sha256 env root \<longleftrightarrow>
     (\<forall>k fs. bound fs \<and> store_ok sha256 root fs \<longrightarrow>
        kept sha256 root fs (others env k fs)
        \<and> (\<forall>n i. names fs (temp_path root (random_part env n)) = Some i \<longrightarrow>
             names (others env k fs) (temp_path root (random_part env n)) = Some i
             \<and> nodes (others env k fs) i = nodes fs i
             \<and> (\<forall>q. names (others env k fs) q = Some i \<longrightarrow> names fs q = Some i)))"

definition present :: "(string \<Rightarrow> string) \<Rightarrow> string \<Rightarrow> string \<Rightarrow> nat \<Rightarrow> afs \<Rightarrow> bool" where
  "present sha256 root sha n fs \<longleftrightarrow>
     (case names fs (store_path root sha) of
        None \<Rightarrow> False
      | Some i \<Rightarrow> node_kind (nodes fs i) = Regular \<and> length (node_data (nodes fs i)) = n
                  \<and> EncodeToString (sha256 (node_data (nodes fs i))) = sha)"

lemma extends_trans: "extends root a b \<Longrightarrow> extends root b c \<Longrightarrow> extends root a c"
  by (simp add: extends_def)

lemma extends_refl [simp]: "extends root a a"
  by (simp add: extends_def)

lemma present_extends:
  "extends root a b \<Longrightarrow> valid_sha sha \<Longrightarrow> present sha256 root sha n a \<Longrightarrow> present sha256 root sha n b"
  by (auto simp: present_def extends_def split: option.splits)

lemma ownedI:
  assumes "p = temp_path root (random_part env n)" and "names fs p = Some i"
    and "node_kind (nodes fs i) = Regular" and "node_data (nodes fs i) = bs" and "\<And>q. names fs q = Some i \<Longrightarrow> q = p"
  shows "owned env root (p, i, bs) fs"
  unfolding owned_def using assms by blast

lemma ownedE:
  assumes "owned env root t fs"
  obtains p i bs n where "t = (p, i, bs)" "p = temp_path root (random_part env n)" "names fs p = Some i"
    "node_kind (nodes fs i) = Regular" "node_data (nodes fs i) = bs" "\<And>q. names fs q = Some i \<Longrightarrow> q = p"
  using assms unfolding owned_def by blast

lemma others_holds:
  assumes "polite sha256 env root" and "holds sha256 env root fs0 t fs"
  shows "holds sha256 env root fs0 t (others env k fs)"
proof -
  have "bound fs \<and> store_ok sha256 root fs" using assms(2) by (simp add: holds_def kept_def)
  with assms(1) have *: "kept sha256 root fs (others env k fs)"
    and temp: "\<And>n i. names fs (temp_path root (random_part env n)) = Some i \<Longrightarrow>
             names (others env k fs) (temp_path root (random_part env n)) = Some i
             \<and> nodes (others env k fs) i = nodes fs i
             \<and> (\<forall>q. names (others env k fs) q = Some i \<longrightarrow> names fs q = Some i)"
    unfolding polite_def by blast+
  have "kept sha256 root fs0 (others env k fs)"
    using * assms(2) by (auto simp: holds_def kept_def intro: extends_trans)
  moreover have "owned env root x (others env k fs)" if "owned env root x fs" for x
  proof -
    from that obtain p i bs n where x: "x = (p, i, bs)" and n: "p = temp_path root (random_part env n)"
      and i: "names fs p = Some i" and node: "node_kind (nodes fs i) = Regular" "node_data (nodes fs i) = bs"
      and only: "\<And>q. names fs q = Some i \<Longrightarrow> q = p" by (rule ownedE) blast
    note t = temp [OF i [unfolded n], folded n]
    show ?thesis unfolding x
    proof (rule ownedI [OF n])
      show "q = p" if "names (others env k fs) q = Some i" for q using t only that by blast
    qed (use t node in simp_all)
  qed
  ultimately show ?thesis using assms(2) by (auto simp: holds_def split: option.splits)
qed

definition stable :: "environment \<Rightarrow> (afs \<Rightarrow> bool) \<Rightarrow> bool" where
  "stable env P \<longleftrightarrow> (\<forall>k fs. P fs \<longrightarrow> P (others env k fs))"

lemma stable_holds: "polite sha256 env root \<Longrightarrow> stable env (holds sha256 env root fs0 t)"
  by (simp add: stable_def others_holds)

lemma stable_conj: "stable env P \<Longrightarrow> stable env Q \<Longrightarrow> stable env (\<lambda>fs. P fs \<and> Q fs)"
  by (simp add: stable_def)

text \<open>The rule for a system call: what the others keep and what the call makes of it.\<close>

lemma sys_rule:
  assumes "sys env f w = (x, w')" and "P (files w)" and "stable env P"
    and "\<And>fs. P fs \<Longrightarrow> Q (Inl Failed) fs"
    and "\<And>fs y fs'. P fs \<Longrightarrow> f fs = (y, fs') \<Longrightarrow> Q y fs'"
  shows "Q x (files w')"
proof -
  let ?fs = "others env (calls w) (files w)"
  have fs: "P ?fs" using assms(2,3) by (simp add: stable_def)
  obtain y fs' where f: "f ?fs = (y, fs')" by (cases "f ?fs")
  show ?thesis
  proof (cases "fails_at env (calls w)")
    case True
    with assms(1) have "x = Inl Failed" "files w' = ?fs" by (auto simp: sys_def Let_def)
    with assms(4) [OF fs] show ?thesis by simp
  next
    case False
    with assms(1) f have "x = y" "files w' = fs'" by (auto simp: sys_def Let_def)
    with assms(5) [OF fs f] show ?thesis by simp
  qed
qed

text \<open>A call that only looks.\<close>

definition looks :: "(afs \<Rightarrow> 'a \<times> afs) \<Rightarrow> bool" where
  "looks f \<longleftrightarrow> (\<forall>fs. snd (f fs) = fs)"

lemma looking [simp]: "looks (lstat p)" "looks (open_file p)" "looks (fstat i)" "looks (pread i off n)" "looks close_call"
  by (simp_all add: looks_def lstat_def open_file_def fstat_def pread_def close_call_def)

lemma sys_looks:
  assumes "sys env f w = (x, w')" and "looks f" and "P (files w)" and "stable env P"
  shows "P (files w')" and "\<And>v. x = Inr v \<Longrightarrow> f (files w') = (Inr v, files w')"
    and "x = Inl NotExist \<Longrightarrow> f (files w') = (x, files w')"
proof -
  have same: "snd (f fs) = fs" for fs using assms(2) by (simp add: looks_def)
  show "P (files w')"
    using assms(1,3,4) same by (auto simp: sys_def Let_def stable_def split: if_splits prod.splits) (metis snd_conv)
  show "\<And>v. x = Inr v \<Longrightarrow> f (files w') = (Inr v, files w')"
    and "x = Inl NotExist \<Longrightarrow> f (files w') = (x, files w')"
    using assms(1) same by (auto simp: sys_def Let_def split: if_splits prod.splits) (metis snd_conv)+
qed

lemma add_node_holds:
  assumes "holds sha256 env root fs0 t fs" and "names fs p = None"
    and "\<And>sha. valid_sha sha \<Longrightarrow> p \<noteq> store_path root sha"
  shows "holds sha256 env root fs0 t (add_node p nd fs)"
proof -
  have other: "names (add_node p nd fs) (store_path root sha) = names fs (store_path root sha)" if "valid_sha sha" for sha
    using assms(3) [OF that] by (auto simp: add_node_def)
  have old: "i < top fs" if "names fs q = Some i" for q i
    using assms(1) that by (auto simp: holds_def kept_def bound_def)
  then have same: "nodes (add_node p nd fs) i = nodes fs i" if "names fs q = Some i" for q i
    using that by (fastforce simp: add_node_def)
  have "bound (add_node p nd fs)" using old by (fastforce simp: bound_def add_node_def less_Suc_eq)
  moreover have "store_ok sha256 root (add_node p nd fs)"
    using assms(1) unfolding holds_def kept_def store_ok_def by (metis other same)
  moreover have "extends root fs0 (add_node p nd fs)"
    using assms(1) unfolding holds_def kept_def extends_def by (metis other same)
  ultimately have "kept sha256 root fs0 (add_node p nd fs)" by (simp add: kept_def)
  moreover have "owned env root x (add_node p nd fs)" if "owned env root x fs" for x
  proof -
    from that obtain q i bs n where x: "x = (q, i, bs)" and n: "q = temp_path root (random_part env n)"
      and i: "names fs q = Some i" and node: "node_kind (nodes fs i) = Regular" "node_data (nodes fs i) = bs"
      and only: "\<And>r. names fs r = Some i \<Longrightarrow> r = q" by (rule ownedE) blast
    show ?thesis unfolding x
    proof (rule ownedI [OF n])
      show "r = q" if "names (add_node p nd fs) r = Some i" for r
        using only [of r] that old [OF i] by (simp add: add_node_def split: if_splits)
      show "names (add_node p nd fs) q = Some i" using i assms(2) by (auto simp: add_node_def)
    qed (use node same [OF i] in simp_all)
  qed
  ultimately show ?thesis using assms(1) by (auto simp: holds_def split: option.splits)
qed


subsection \<open>What the operations keep\<close>

lemma mkdirs_holds:
  assumes "polite sha256 env root" and "\<And>p sha. p \<in> set ps \<Longrightarrow> valid_sha sha \<Longrightarrow> p \<noteq> store_path root sha"
    and "holds sha256 env root fs0 t (files w)"
  shows "holds sha256 env root fs0 t (files (snd (mkdirs env ps w)))"
  using assms(2,3)
proof (induction ps arbitrary: w)
  case (Cons p ps)
  obtain x w' where step: "sys env (mkdir (clock_time env (calls w)) p) w = (x, w')" by fastforce
  have "holds sha256 env root fs0 t (files w')"
  proof (rule sys_rule [where P = "holds sha256 env root fs0 t" and Q = "\<lambda>_. holds sha256 env root fs0 t", OF step Cons.prems(2) stable_holds [OF assms(1)]])
    fix fs y fs'
    assume fs: "holds sha256 env root fs0 t fs" and "mkdir (clock_time env (calls w)) p fs = (y, fs')"
    then have "fs' = fs \<or> names fs p = None \<and> (\<exists>nd. fs' = add_node p nd fs)"
      by (auto simp: mkdir_def split: sum.splits if_splits)
    with fs show "holds sha256 env root fs0 t fs'" using add_node_holds Cons.prems(1) by force
  qed
  with Cons.IH [of w'] Cons.prems(1) step show ?case by (auto split: sum.split)
qed simp

lemma MkdirAll_holds:
  assumes "polite sha256 env root" and "length p < length root + 68"
    and "MkdirAll env p w = (x, w')" and "holds sha256 env root fs0 t (files w)"
  shows "holds sha256 env root fs0 t (files w')"
  using mkdirs_holds [OF assms(1) _ assms(4), of "dir_prefixes p"] assms(2,3) prefix_not_store
  by (fastforce simp: MkdirAll_def)

lemma create_temp_holds:
  assumes "polite sha256 env root" and "holds sha256 env root fs0 None (files w)"
  shows "case create_temp n env root w of
           (Inl e, w') \<Rightarrow> holds sha256 env root fs0 None (files w')
         | (Inr (p, i), w') \<Rightarrow> holds sha256 env root fs0 (Some (p, i, [])) (files w')"
  using assms(2)
proof (induction n arbitrary: w)
  case (Suc n)
  let ?p = "temp_path root (random_part env (calls w))"
  obtain x w' where step: "sys env (open_excl (clock_time env (calls w)) ?p) w = (x, w')" by fastforce
  define Q where "Q y fs \<longleftrightarrow> holds sha256 env root fs0 (case y of Inl e \<Rightarrow> None | Inr i \<Rightarrow> Some (?p, i, [])) fs"
    for y :: "(sys_error, nat) result" and fs
  have "Q x (files w')"
  proof (rule sys_rule [where P = "holds sha256 env root fs0 None" and Q = Q, OF step Suc.prems stable_holds [OF assms(1)]])
    fix fs y fs'
    assume fs: "holds sha256 env root fs0 None fs" and op: "open_excl (clock_time env (calls w)) ?p fs = (y, fs')"
    show "Q y fs'"
    proof (cases "names fs ?p")
      case None
      define nd where "nd = \<lparr>node_kind = Regular, node_data = [], node_mtime = clock_time env (calls w)\<rparr>"
      from op None have y: "y = Inr (top fs)" "fs' = add_node ?p nd fs" by (auto simp: open_excl_def nd_def)
      have "q = ?p" if "names (add_node ?p nd fs) q = Some (top fs)" for q
        using that fs by (auto simp: add_node_def holds_def kept_def bound_def split: if_splits)
      then have "owned env root (?p, top fs, []) (add_node ?p nd fs)"
        by (rule ownedI [OF refl, rotated 3]) (simp_all add: add_node_def nd_def)
      moreover have "holds sha256 env root fs0 None (add_node ?p nd fs)"
        using add_node_holds [OF fs None] temp_not_store by blast
      ultimately show ?thesis by (simp add: Q_def y holds_def)
    qed (use op fs in \<open>auto simp: open_excl_def Q_def\<close>)
  qed (simp add: Q_def)
  then show ?case
    using step Suc.IH [of w'] by (auto simp: Q_def Let_def split: sum.splits sys_error.splits)
qed simp

lemma pwrite_holds:
  assumes "holds sha256 env root fs0 (Some (p, i, bs)) fs" and "pwrite t i (length bs) c fs = (y, fs')"
  shows "y = Inr (length c) \<and> holds sha256 env root fs0 (Some (p, i, bs @ c)) fs'"
proof -
  define nd where "nd = (nodes fs i)\<lparr>node_data := bs @ c, node_mtime := t\<rparr>"
  have own: "owned env root (p, i, bs) fs" using assms(1) by (simp add: holds_def)
  then obtain n where n: "p = temp_path root (random_part env n)" "names fs p = Some i"
      "node_kind (nodes fs i) = Regular" "node_data (nodes fs i) = bs" and only: "\<And>q. names fs q = Some i \<Longrightarrow> q = p"
    by (rule ownedE) blast
  have fs': "fs' = fs\<lparr>nodes := (nodes fs)(i := nd)\<rparr>" "y = Inr (length c)"
    using assms(2) n(4) by (auto simp: pwrite_def write_at_def nd_def)
  have apart: "names fs (store_path root sha) \<noteq> Some i" if "valid_sha sha" for sha
    using only [of "store_path root sha"] n(1) temp_not_store [OF that, of root] by metis
  have kept: "kept sha256 root fs0 fs" using assms(1) by (simp add: holds_def)
  have "bound fs'" using kept by (simp add: kept_def bound_def fs'(1))
  moreover have "store_ok sha256 root fs'" using kept apart by (simp add: kept_def store_ok_def fs'(1))
  moreover have "extends root fs0 fs'" using kept apart by (auto simp: kept_def extends_def fs'(1))
  moreover have "owned env root (p, i, bs @ c) fs'"
  proof (rule ownedI [OF n(1)])
    show "q = p" if "names fs' q = Some i" for q using only that by (simp add: fs'(1))
  qed (simp_all add: fs'(1) nd_def n(2,3))
  ultimately show ?thesis using fs'(2) by (simp add: holds_def kept_def)
qed

lemma link_holds:
  assumes "holds sha256 env root fs0 (Some (p, i, bs)) fs" and "link p (store_path root sha) fs = (y, fs')"
    and "valid_sha sha" and "EncodeToString (sha256 bs) = sha"
  shows "(\<exists>e. y = Inl e \<and> fs' = fs) \<or> y = Inr () \<and> kept sha256 root fs0 fs' \<and> present sha256 root sha (length bs) fs'"
proof -
  from assms(1) have i: "names fs p = Some i" "node_kind (nodes fs i) = Regular" "node_data (nodes fs i) = bs"
    and kept: "kept sha256 root fs0 fs" by (simp_all add: holds_def owned_def)
  show ?thesis
  proof (cases "names fs (store_path root sha)")
    case None
    with i assms(2) have fs': "fs' = fs\<lparr>names := (names fs)(store_path root sha \<mapsto> i)\<rparr>" "y = Inr ()"
      by (auto simp: link_def)
    have "bound fs'" using kept i(1) by (auto simp: kept_def bound_def fs'(1))
    moreover have "store_ok sha256 root fs'"
      using kept i assms(3,4) by (auto simp: kept_def store_ok_def fs'(1) dest: store_path_inject)
    moreover have "extends root fs0 fs'"
      using kept None by (auto simp: kept_def extends_def fs'(1))
    moreover have "present sha256 root sha (length bs) fs'"
      using i assms(4) by (simp add: present_def fs'(1))
    ultimately show ?thesis using fs'(2) by (simp add: kept_def)
  qed (use assms(2) i(1) in \<open>auto simp: link_def\<close>)
qed

text \<open>Reading a file whose content does not change gives its content.\<close>

lemma read_file_rule:
  assumes "read_file env i bs w = Some (res, w')" and "P (files w)" and "stable env P"
    and "\<And>fs. P fs \<Longrightarrow> node_data (nodes fs i) = d"
    and "take (length bs) d = bs"
  shows "P (files w') \<and> (\<forall>out. res = Inr out \<longrightarrow> out = d)"
proof -
  let ?P = "\<lambda>env' i' bs w out. env' = env \<longrightarrow> i' = i \<longrightarrow> P (files w) \<longrightarrow> take (length bs) d = bs \<longrightarrow>
    P (files (snd out)) \<and> (\<forall>o'. fst out = Inr o' \<longrightarrow> o' = d)"
  have "?P env i bs w (res, w')"
  proof (rule read_file.raw_induct [where P = ?P, OF _ assms(1)], intro impI)
    fix f env' i' bs w out
    assume IH: "\<And>env' i' bs w out. f env' i' bs w = Some out \<Longrightarrow> ?P env' i' bs w out"
      and eq: "(case sys env' (pread i' (length bs) 32768) w of
        (Inl e, w') \<Rightarrow> Some (Inl e, w')
      | (Inr chunk, w') \<Rightarrow> if chunk = [] then Some (Inr bs, w') else f env' i' (bs @ chunk) w') = Some out"
      and same: "env' = env" "i' = i" and P: "P (files w)" and bs: "take (length bs) d = bs"
    obtain x w1 where step: "sys env (pread i (length bs) 32768) w = (x, w1)" by fastforce
    note looks = sys_looks [where P = P, OF step looking(4) P assms(3)]
    show "P (files (snd out)) \<and> (\<forall>o'. fst out = Inr o' \<longrightarrow> o' = d)"
    proof (cases x)
      case (Inl e)
      with eq same step looks(1) show ?thesis by auto
    next
      case (Inr chunk)
      then have chunk: "chunk = take 32768 (drop (length bs) d)"
        using looks(2) [OF Inr] looks(1) assms(4) by (simp add: pread_def)
      show ?thesis
      proof (cases "chunk = []")
        case True
        with chunk have "bs = d" using bs by simp
        with eq same step looks(1) Inr True show ?thesis by auto
      next
        case False
        have "take (length (bs @ chunk)) d = bs @ chunk"
          using bs chunk by (metis append_take_drop_id append_eq_conv_conj take_add length_append length_take
              min.bounded_iff append_eq_append_conv2 take_take min.idem)
        with IH [of env i "bs @ chunk" w1 out] eq same step looks(1) Inr False show ?thesis by simp
      qed
    qed
  qed
  with assms(2,5) show ?thesis by simp
qed


subsection \<open>Validation\<close>

lemma resolve_regular:
  "names fs p = Some i \<Longrightarrow> node_kind (nodes fs i) = Regular \<Longrightarrow> resolve 41 fs p = Inr i"
  using resolve.simps(2) [of 40 fs p] by simp

lemma validate_after_keeps:
  assumes "stable env P" and "P (files w)"
  shows "P (files (snd (validate_after env path i opened w)))"
proof -
  obtain x w1 where one: "sys env (fstat i) w = (x, w1)" by fastforce
  note P1 = sys_looks(1) [where P = P, OF one looking(3) assms(2,1)]
  obtain y w2 where two: "sys env (lstat path) w1 = (y, w2)" by fastforce
  note P2 = sys_looks(1) [where P = P, OF two looking(1) P1 assms(1)]
  show ?thesis
    using P1 P2 by (auto simp: validate_after_def one two split: sum.splits prod.splits)
qed

lemma validate_opened_rule:
  assumes "validate_opened sha256 env path sha n i j w = Some (res, w')" and "stable env P" and "P (files w)"
    and "\<And>fs. P fs \<Longrightarrow> nodes fs i = nd"
  shows "P (files w') \<and> (res = Inr True \<longrightarrow> length (node_data nd) = n \<and> EncodeToString (sha256 (node_data nd)) = sha)"
proof -
  obtain x w1 where one: "sys env (fstat j) w = (x, w1)" by fastforce
  note P1 = sys_looks(1) [where P = P, OF one looking(3) assms(3,2)]
  show ?thesis
  proof (cases "(\<exists>e. x = Inl e) \<or> node_kind (projr x) \<noteq> Regular \<or> \<not> SameFile i j")
    case True
    with P1 assms(1) show ?thesis by (auto simp: validate_opened_def one split: sum.splits if_splits)
  next
    case False
    then obtain opened where x: "x = Inr opened" "node_kind opened = Regular" "j = i"
      by (cases x) (auto simp: SameFile_def)
    note one = one [unfolded x(3)]
    from assms(1) x obtain r w2 where rd: "read_file env i [] w1 = Some (r, w2)"
      by (auto simp: validate_opened_def one SameFile_def split: option.splits)
    note read = read_file_rule [where P = P and d = "node_data nd", OF rd P1 assms(2)]
    have d: "node_data (nodes fs i) = node_data nd" if "P fs" for fs using assms(4) [OF that] by simp
    from read [OF d] have P2: "P (files w2)" and out: "r = Inr bs \<Longrightarrow> bs = node_data nd" for bs by auto
    show ?thesis
    proof (cases r)
      case (Inl e)
      with P2 assms(1) show ?thesis by (auto simp: validate_opened_def one x rd SameFile_def)
    next
      case (Inr bs)
      with out have "bs = node_data nd" by blast
      with Inr assms(1) P2 validate_after_keeps [OF assms(2) P2, of path i opened] show ?thesis
        by (auto simp: validate_opened_def one x rd SameFile_def split: if_splits)
    qed
  qed
qed

lemma validate_holds:
  assumes "polite sha256 env root" and "valid_sha sha" and "holds sha256 env root fs0 t (files w)"
    and "validateStoredArtifact sha256 env (store_path root sha) sha n w = Some (res, w')"
  shows "holds sha256 env root fs0 t (files w') \<and> (res = Inr True \<longrightarrow> present sha256 root sha n (files w'))"
proof -
  let ?path = "store_path root sha"
  obtain x w1 where one: "sys env (lstat ?path) w = (x, w1)" by fastforce
  note stable = stable_holds [OF assms(1)]
  note H1 = sys_looks(1) [where P = "holds sha256 env root fs0 t", OF one looking(1) assms(3) stable]
  show ?thesis
  proof (cases "(\<exists>e. x = Inl e) \<or> node_kind (snd (projr x)) \<noteq> Regular")
    case True
    with H1 assms(4) show ?thesis
      by (auto simp: validateStoredArtifact_def one split: sum.splits sys_error.splits if_splits)
  next
    case False
    then obtain i nd where x: "x = Inr (i, nd)" and reg: "node_kind nd = Regular" by (cases x) auto
    have i: "names (files w1) ?path = Some i" "nodes (files w1) i = nd"
      using sys_looks(2) [where P = "\<lambda>_. True", OF one looking(1)] x
      by (auto simp: stable_def lstat_def split: option.splits)
    define P where "P fs \<longleftrightarrow> holds sha256 env root fs0 t fs \<and> holds sha256 env root (files w1) None fs" for fs
    have P: "stable env P" unfolding P_def by (intro stable_conj stable)
    have P1: "P (files w1)" using H1 by (auto simp: P_def holds_def kept_def)
    have same: "names fs ?path = Some i \<and> nodes fs i = nd" if "P fs" for fs
      using that i assms(2) by (auto simp: P_def holds_def kept_def extends_def)
    obtain y w2 where two: "sys env (open_file ?path) w1 = (y, w2)" by fastforce
    note open2 = sys_looks [where P = P, OF two looking(2) P1 P]
    show ?thesis
    proof (cases y)
      case (Inl e)
      with open2(1) assms(4) reg show ?thesis by (auto simp: validateStoredArtifact_def one x two P_def)
    next
      case (Inr j)
      with open2(2) [OF Inr] same [OF open2(1)] reg have "j = i"
        by (simp add: open_file_def resolve_regular)
      with assms(4) reg Inr have "validate_opened sha256 env ?path sha n i i w2 = Some (res, w')"
        by (simp add: validateStoredArtifact_def one x two)
      from validate_opened_rule [OF this P open2(1), of nd] same
      have "P (files w')" and "res = Inr True \<longrightarrow> length (node_data nd) = n \<and> EncodeToString (sha256 (node_data nd)) = sha"
        by blast+
      with same [of "files w'"] reg show ?thesis by (auto simp: P_def present_def)
    qed
  qed
qed

subsection \<open>Publication\<close>

text \<open>What a call of \<open>publish\<close> leaves: the entries of before, and the new one when it returns one.\<close>

definition publish_ok :: "(string \<Rightarrow> string) \<Rightarrow> string \<Rightarrow> afs \<Rightarrow> artifact \<Rightarrow> (artifact_error, Stored) result \<Rightarrow> afs \<Rightarrow> bool" where
  "publish_ok sha256 root fs0 a res fs \<longleftrightarrow> kept sha256 root fs0 fs
     \<and> (\<forall>st. res = Inr st \<longrightarrow> Artifact st = a \<and> StorePath st = store_path root (SHA256 a)
          \<and> present sha256 root (SHA256 a) (Size a) fs)"

lemma publish_ok_error: "holds sha256 env root fs0 t fs \<Longrightarrow> publish_ok sha256 root fs0 a (Inl e) fs"
  by (simp add: publish_ok_def holds_def)

lemma publish_link:
  assumes "polite sha256 env root" and "valid_sha sha" and "EncodeToString (sha256 bs) = sha" and "length bs = n"
    and w: "holds sha256 env root fs0 (Some (p, i, bs)) (files w)"
    and step: "sys env (link p (store_path root sha)) w = (x, w1)"
  shows "case x of Inl _ \<Rightarrow> holds sha256 env root fs0 (Some (p, i, bs)) (files w1)
    | Inr _ \<Rightarrow> kept sha256 root fs0 (files w1) \<and> present sha256 root sha n (files w1)"
proof (rule sys_rule [where P = "holds sha256 env root fs0 (Some (p, i, bs))"
      and Q = "\<lambda>y fs. case y of Inl _ \<Rightarrow> holds sha256 env root fs0 (Some (p, i, bs)) fs
        | Inr _ \<Rightarrow> kept sha256 root fs0 fs \<and> present sha256 root sha n fs",
      OF step w stable_holds [OF assms(1)]])
  fix fs y fs'
  assume before: "holds sha256 env root fs0 (Some (p, i, bs)) fs"
    and "link p (store_path root sha) fs = (y, fs')"
  from link_holds [OF this assms(2,3)] assms(4) before
  show "case y of Inl _ \<Rightarrow> holds sha256 env root fs0 (Some (p, i, bs)) fs'
    | Inr _ \<Rightarrow> kept sha256 root fs0 fs' \<and> present sha256 root sha n fs'" by auto
qed simp

text \<open>One round of the loop, with \<open>again\<close> for the rounds that follow it.\<close>

lemma publish_round:
  assumes polite: "polite sha256 env root" and a: "valid_sha (SHA256 a)"
    "EncodeToString (sha256 bs) = SHA256 a" "length bs = Size a"
    and sp: "sp = store_path root (SHA256 a)"
    and w: "holds sha256 env root fs0 (Some (p, i, bs)) (files w)"
    and eq: "(if ctx_ended env (calls w) then Some (Inl Canceled, w)
      else case sys env (link p sp) w of
        (Inr _, w1) \<Rightarrow> Some (Inr \<lparr>Artifact = a, StorePath = sp, AlreadyExists = False\<rparr>, w1)
      | (Inl Exist, w1) \<Rightarrow>
          (case validateStoredArtifact sha256 env sp (SHA256 a) (Size a) w1 of
             None \<Rightarrow> None
           | Some (Inl e, w2) \<Rightarrow> Some (Inl e, w2)
           | Some (Inr ex, w2) \<Rightarrow>
               if \<not> ex then again w2
               else Some (Inr \<lparr>Artifact = a, StorePath = sp, AlreadyExists = True\<rparr>, w2))
      | (Inl e, w1) \<Rightarrow> Some (Inl (PublishFailed e), w1)) = Some out"
  shows "publish_ok sha256 root fs0 a (fst out) (files (snd out))
    \<or> (\<exists>w2. holds sha256 env root fs0 (Some (p, i, bs)) (files w2) \<and> again w2 = Some out)"
proof (cases "ctx_ended env (calls w)")
  case True
  with eq w show ?thesis by (auto simp: publish_ok_error)
next
  case run: False
  obtain x w1 where step: "sys env (link p sp) w = (x, w1)" by fastforce
  note link = publish_link [OF polite a w step [unfolded sp]]
  show ?thesis
  proof (cases "x = Inl Exist")
    case False
    with run eq step link sp show ?thesis
      by (auto simp: publish_ok_def holds_def split: sum.splits sys_error.splits)
  next
    case True
    with run eq step obtain v w2 where
      val: "validateStoredArtifact sha256 env sp (SHA256 a) (Size a) w1 = Some (v, w2)"
      by (auto split: option.splits)
    from link True have "holds sha256 env root fs0 (Some (p, i, bs)) (files w1)" by simp
    note after = validate_holds [OF polite a(1) this val [unfolded sp]]
    from eq run step True val after sp show ?thesis
      by (auto simp: publish_ok_error publish_ok_def holds_def split: sum.splits if_splits)
  qed
qed

lemma publish_holds:
  assumes "polite sha256 env root" and "valid_sha (SHA256 a)" and "EncodeToString (sha256 bs) = SHA256 a"
    and "length bs = Size a" and "holds sha256 env root fs0 (Some (p, i, bs)) (files w)"
    and "publish sha256 env p (store_path root (SHA256 a)) a w = Some (res, w')"
  shows "publish_ok sha256 root fs0 a res (files w')"
proof -
  let ?sp = "store_path root (SHA256 a)"
  let ?P = "\<lambda>s e t sp a' (w :: world) out. s = sha256 \<longrightarrow> e = env \<longrightarrow> t = p \<longrightarrow> sp = ?sp \<longrightarrow> a' = a \<longrightarrow>
    holds sha256 env root fs0 (Some (p, i, bs)) (files w) \<longrightarrow> publish_ok sha256 root fs0 a (fst out) (files (snd out))"
  have "?P sha256 env p ?sp a w (res, w')"
  proof (rule publish.raw_induct [where P = ?P, OF _ assms(6)], intro impI, goal_cases)
    case (1 f s e t sp a' w out)
    from publish_round [OF assms(1-4) 1(6,8) 1(2) [unfolded 1(3-5,7)]] 1(1,6) show ?case by blast
  qed
  with assms(5) show ?thesis by simp
qed

subsection \<open>The copy\<close>

text \<open>One round of the copy loop, with \<open>again\<close> for the rounds that follow it.\<close>

lemma copy_from_round:
  assumes I: "I h s"
    and read: "\<And>h s n bs e s1. I h s \<Longrightarrow> rd s n = (bs, e, s1) \<Longrightarrow> I h s1"
    and put: "\<And>h s bs x s1. I h s \<Longrightarrow> multi_write wr s bs = (x, s1) \<Longrightarrow> if x = None then I (h @ bs) s1 else E s1"
    and stop: "\<And>h s. I h s \<Longrightarrow> E s"
    and eq: "(if ctx s then Some (Inl Canceled, s)
      else case rd s copyBufferSize of
        (bs, readErr, s1) \<Rightarrow>
          (case (if bs \<noteq> [] then multi_write wr s1 bs else (None, s1)) of
             (Some e, s2) \<Rightarrow> Some (Inl e, s2)
           | (None, s2) \<Rightarrow>
               (case readErr of
                  None \<Rightarrow> again (h @ bs) s2
                | Some x \<Rightarrow> Some (if is_EOF x then Inr (h @ bs) else Inl (ReadFailed x), s2)))) = Some out"
  shows "(case fst out of Inr bs \<Rightarrow> I bs (snd out) | Inl (e :: artifact_error) \<Rightarrow> E (snd out))
    \<or> (\<exists>h2 s2. I h2 s2 \<and> again h2 s2 = Some out)"
proof (cases "ctx s")
  case True
  with eq stop [OF I] show ?thesis by auto
next
  case False
  obtain bs e s1 where rd: "rd s copyBufferSize = (bs, e, s1)" by (metis prod_cases3)
  obtain x s2 where wr: "(if bs \<noteq> [] then multi_write wr s1 bs else (None, s1)) = (x, s2)" by fastforce
  have after: "if x = None then I (h @ bs) s2 else E s2"
    using wr read [OF I rd] put [OF read [OF I rd], of bs x s2] by (auto split: if_splits)
  have "(case x of Some y \<Rightarrow> Some (Inl y, s2)
      | None \<Rightarrow> (case e of
                None \<Rightarrow> again (h @ bs) s2
              | Some x \<Rightarrow> Some (if is_EOF x then Inr (h @ bs) else Inl (ReadFailed x), s2))) = Some out"
    using eq False by (simp only: rd wr prod.case if_False)
  with after stop [of "h @ bs" s2] show ?thesis
    by (auto split: option.splits if_splits)
qed

lemma copy_from_rule:
  assumes "copy_from ctx rd wr hashed s = Some (res, s')" and "I hashed s"
    and "\<And>h s n bs e s1. I h s \<Longrightarrow> rd s n = (bs, e, s1) \<Longrightarrow> I h s1"
    and "\<And>h s bs x s1. I h s \<Longrightarrow> multi_write wr s bs = (x, s1) \<Longrightarrow> if x = None then I (h @ bs) s1 else E s1"
    and "\<And>h s. I h s \<Longrightarrow> E s"
  shows "case res of Inr bs \<Rightarrow> I bs s' | Inl e \<Rightarrow> E s'"
proof -
  let ?Q = "\<lambda>out. case fst out of Inr bs \<Rightarrow> I bs (snd out) | Inl (e :: artifact_error) \<Rightarrow> E (snd out)"
  let ?P = "\<lambda>ctx' rd' wr' h s out. ctx' = ctx \<longrightarrow> rd' = rd \<longrightarrow> wr' = wr \<longrightarrow> I h s \<longrightarrow> ?Q out"
  have "?P ctx rd wr hashed s (res, s')"
  proof (rule copy_from.raw_induct [where P = ?P, OF _ assms(1)], intro impI, goal_cases)
    case (1 f ctx' rd' wr' h s out)
    have "?Q out \<or> (\<exists>h2 s2. I h2 s2 \<and> f ctx rd wr h2 s2 = Some out)"
      by (rule copy_from_round [where ctx = ctx and rd = rd and wr = wr and again = "f ctx rd wr"])
        (fact 1(6) assms(3-5) 1(2) [unfolded 1(3-5)])+
    with 1(1) show ?case by blast
  qed
  with assms(2) show ?thesis by (cases res) simp_all
qed

lemma pwrite_step_holds:
  assumes "polite sha256 env root" and w: "holds sha256 env root fs0 (Some (p, i, h)) (files w)"
    and step: "sys env (pwrite t i (length h) bs) w = (y, w1)"
  shows "case y of
      Inl _ \<Rightarrow> holds sha256 env root fs0 (Some (p, i, h)) (files w1)
    | Inr n \<Rightarrow> n = length bs \<and> holds sha256 env root fs0 (Some (p, i, h @ bs)) (files w1)"
proof (rule sys_rule [where P = "holds sha256 env root fs0 (Some (p, i, h))"
      and Q = "\<lambda>y fs. case y of
          Inl _ \<Rightarrow> holds sha256 env root fs0 (Some (p, i, h)) fs
        | Inr n \<Rightarrow> n = length bs \<and> holds sha256 env root fs0 (Some (p, i, h @ bs)) fs",
      OF step w stable_holds [OF assms(1)]])
  fix fs y fs'
  assume "holds sha256 env root fs0 (Some (p, i, h)) fs" and "pwrite t i (length h) bs fs = (y, fs')"
  from pwrite_holds [OF this]
  show "case y of
      Inl _ \<Rightarrow> holds sha256 env root fs0 (Some (p, i, h)) fs'
    | Inr n \<Rightarrow> n = length bs \<and> holds sha256 env root fs0 (Some (p, i, h @ bs)) fs'" by simp
qed simp

lemma copy_holds:
  assumes "polite sha256 env root" and "holds sha256 env root fs0 (Some (p, i, [])) (files w)"
    and "copyAndDigest sha256 (ctx_copy env) (src_read rd) (tmp_write env i) (r, w, 0) = Some (res, (r1, w1, off))"
  shows "\<exists>bs. holds sha256 env root fs0 (Some (p, i, bs)) (files w1)
           \<and> (\<forall>sha n. res = Inr (sha, n) \<longrightarrow> sha = EncodeToString (sha256 bs) \<and> n = length bs)"
proof -
  define I where "I h s \<longleftrightarrow> (case s of (r, w, off) \<Rightarrow> holds sha256 env root fs0 (Some (p, i, h)) (files w) \<and> off = length h)"
    for h and s :: "'a copying"
  define E where "E s \<longleftrightarrow> (case s of (r, w, off) \<Rightarrow> \<exists>bs. holds sha256 env root fs0 (Some (p, i, bs)) (files w))"
    for s :: "'a copying"
  obtain out where copy: "copy_from (ctx_copy env) (src_read rd) (tmp_write env i) [] (r, w, 0) = Some (out, (r1, w1, off))"
    and res: "res = (case out of Inl e \<Rightarrow> Inl e | Inr bs \<Rightarrow> Inr (EncodeToString (sha256 bs), length bs))"
    using assms(3) by (auto simp: copyAndDigest_def)
  have "case out of Inr bs \<Rightarrow> I bs (r1, w1, off) | Inl e \<Rightarrow> E (r1, w1, off)"
  proof (rule copy_from_rule [where I = I and E = E, OF copy])
    show "I [] (r, w, 0)" using assms(2) by (simp add: I_def)
  next
    fix h s n bs e s1
    assume "I h s" "src_read rd s n = (bs, e, s1)"
    then show "I h s1" by (auto simp: I_def src_read_def split: prod.splits)
  next
    fix h s bs x s1
    assume I: "I h s" and wr: "multi_write (tmp_write env i) s bs = (x, s1)"
    obtain r w off where s: "s = (r, w, off)" by (cases s)
    with I have w: "holds sha256 env root fs0 (Some (p, i, h)) (files w)" and off: "off = length h"
      by (simp_all add: I_def)
    obtain y w1 where step: "sys env (pwrite (clock_time env (calls w)) i off bs) w = (y, w1)" by fastforce
    note pwrite_step_holds [OF assms(1) w step [unfolded off]]
    with wr step off show "if x = None then I (h @ bs) s1 else E s1"
      by (auto simp: multi_write_def tmp_write_def s I_def E_def split: sum.splits)
  next
    fix h s
    assume "I h s"
    then show "E s" by (auto simp: I_def E_def)
  qed
  then show ?thesis by (cases out) (auto simp: I_def E_def res)
qed


subsection \<open>Put\<close>

definition outcome :: "(string \<Rightarrow> string) \<Rightarrow> string \<Rightarrow> afs \<Rightarrow> (artifact_error, Stored) result \<Rightarrow> afs \<Rightarrow> bool" where
  "outcome sha256 root fs0 res fs \<longleftrightarrow>
     kept sha256 root fs0 fs
     \<and> (\<forall>st. res = Inr st \<longrightarrow> Path root (SHA256 (Artifact st)) = Inr (StorePath st)
          \<and> present sha256 root (SHA256 (Artifact st)) (Size (Artifact st)) fs)"

lemma publish_ok_outcome:
  "publish_ok sha256 root fs0 a res fs \<Longrightarrow> Path root (SHA256 a) = Inr (store_path root (SHA256 a)) \<Longrightarrow>
   outcome sha256 root fs0 res fs"
  by (cases res) (auto simp: publish_ok_def outcome_def)

lemma put_copied_holds:
  assumes "root_ok root" and "polite sha256 env root" and "EncodeToString (sha256 bs) = SHA256 a"
    and "length bs = Size a" and w: "holds sha256 env root fs0 (Some (p, i, bs)) (files w)"
    and put: "put_copied sha256 env root p a w = Some (res, w')"
  shows "outcome sha256 root fs0 res (files w')"
proof (cases "Path root (SHA256 a)")
  case (Inl e)
  with put w show ?thesis by (auto simp: put_copied_def outcome_def holds_def)
next
  case Inr_path: (Inr sp)
  then have sha: "valid_sha (SHA256 a)" and sp: "sp = store_path root (SHA256 a)"
    using Path_Inr [OF assms(1)] by auto
  from put Inr_path obtain v w1 where val: "validateStoredArtifact sha256 env (store_path root (SHA256 a)) (SHA256 a) (Size a) w = Some (v, w1)"
    by (auto simp: put_copied_def sp split: option.splits)
  note h1 = validate_holds [OF assms(2) sha w val]
  then have kept1: "kept sha256 root fs0 (files w1)" by (simp add: holds_def)
  consider e where "v = Inl e" | "v = Inr True" | "v = Inr False" by (cases v) auto
  then show ?thesis
  proof cases
    case 3
    obtain x w2 where mk: "MkdirAll env (Dir sp) w1 = (x, w2)" by fastforce
    have "length (Dir sp) < length root + 68"
      using sha by (simp add: sp Dir_store_path [OF assms(1)])
    note h2 = MkdirAll_holds [OF assms(2) this mk conjunct1 [OF h1]]
    show ?thesis
    proof (cases x)
      case (Inl e)
      with put Inr_path val mk 3 h2 show ?thesis by (auto simp: put_copied_def sp outcome_def holds_def)
    next
      case (Inr u)
      with put val mk 3 Inr_path
      have "publish sha256 env p (store_path root (SHA256 a)) a w2 = Some (res, w')" by (simp add: put_copied_def sp)
      from publish_holds [OF assms(2) sha assms(3,4) h2 this] Inr_path show ?thesis
        by (simp add: publish_ok_outcome sp)
    qed
  next
    case 1
    with put Inr_path val have "res = Inl e" "w' = w1" by (simp_all add: put_copied_def sp)
    with kept1 show ?thesis by (simp add: outcome_def)
  next
    case 2
    with put Inr_path val have "res = Inr \<lparr>Artifact = a, StorePath = sp, AlreadyExists = True\<rparr>" "w' = w1"
      by (simp_all add: put_copied_def sp)
    with kept1 h1 2 Inr_path show ?thesis by (simp add: outcome_def)
  qed
qed

lemma put_temp_holds:
  assumes "root_ok root" and "polite sha256 env root"
    and w: "holds sha256 env root fs0 (Some (p, i, [])) (files w)"
    and put: "put_temp sha256 env rd root path mtime p i r w = Some (res, w')"
  shows "outcome sha256 root fs0 res (files w')"
proof -
  from put obtain v r1 w1 off where
    copy: "copyAndDigest sha256 (ctx_copy env) (src_read rd) (tmp_write env i) (r, w, 0) = Some (v, (r1, w1, off))"
    by (auto simp: put_temp_def split: option.splits)
  from copy_holds [OF assms(2) w copy] obtain bs where h1: "holds sha256 env root fs0 (Some (p, i, bs)) (files w1)"
    and v: "\<And>sha n. v = Inr (sha, n) \<Longrightarrow> sha = EncodeToString (sha256 bs) \<and> n = length bs" by blast
  obtain x w2 where close: "sys env close_call w1 = (x, w2)" by fastforce
  note h2 = sys_looks(1) [where P = "holds sha256 env root fs0 (Some (p, i, bs))", OF close looking(5) h1 stable_holds [OF assms(2)]]
  then have kept2: "kept sha256 root fs0 (files w2)" by (simp add: holds_def)
  show ?thesis
  proof (cases "(\<exists>e. v = Inl e) \<or> (\<exists>e. x = Inl e)")
    case True
    have "(\<exists>e. res = Inl e) \<and> w' = w2"
      using True put copy close by (cases v; cases x) (auto simp: put_temp_def)
    with kept2 show ?thesis by (auto simp: outcome_def)
  next
    case False
    then obtain sha n u where vx: "v = Inr (sha, n)" "x = Inr u" by (cases v; cases x) auto
    let ?a = "\<lparr>art_Path = path, art_Name = Base path, SHA256 = sha, Size = n, ModTime = mtime\<rparr>"
    from put copy close vx have "put_copied sha256 env root p ?a w2 = Some (res, w')" by (simp add: put_temp_def)
    note copied = put_copied_holds [OF assms(1,2) _ _ h2 this]
    show ?thesis by (rule copied) (use v [OF vx(1)] in simp_all)
  qed
qed

lemma remove_temp_keeps:
  assumes "polite sha256 env root" and "outcome sha256 root fs0 res (files w)" and "p = temp_path root r"
    and "root_ok root"
  shows "outcome sha256 root fs0 res (files (snd (sys env (remove p) w)))"
proof -
  obtain x w' where step: "sys env (remove p) w = (x, w')" by fastforce
  define P where "P fs \<longleftrightarrow> holds sha256 env root fs0 None fs \<and> holds sha256 env root (files w) None fs" for fs
  have P: "P (files w)" using assms(2) by (auto simp: P_def holds_def outcome_def kept_def)
  have "P (files w')"
  proof (rule sys_rule [where P = P and Q = "\<lambda>_. P", OF step P])
    show "stable env P" unfolding P_def by (intro stable_conj stable_holds [OF assms(1)])
    fix fs y fs'
    assume "P fs" and rm: "remove p fs = (y, fs')"
    have "names fs' (store_path root sha) = names fs (store_path root sha)" if "valid_sha sha" for sha
      using rm temp_not_store [OF that, of root r] assms(3) by (auto simp: remove_def split: if_splits)
    moreover have "nodes fs' = nodes fs" "bound fs \<Longrightarrow> bound fs'"
      using rm by (auto simp: remove_def bound_def split: if_splits)
    ultimately show "P fs'" using \<open>P fs\<close> by (simp add: P_def holds_def kept_def store_ok_def extends_def)
  qed
  then have "kept sha256 root fs0 (files w')" and "extends root (files w) (files w')"
    by (simp_all add: P_def holds_def kept_def)
  with assms(2) step show ?thesis
    using present_extends [of root "files w" "files w'"] Path_Inr [OF assms(4)] by (auto simp: outcome_def)
qed

lemma Put_outcome:
  assumes "root_ok root" and "polite sha256 env root" and "bound (files w)" and "store_ok sha256 root (files w)"
    and "Put sha256 env rd root path opened w = Some (res, w')"
  shows "outcome sha256 root (files w) res (files w')"
proof -
  have h: "holds sha256 env root (files w) None (files w)"
    using assms(3,4) by (simp add: holds_def kept_def)
  then have unchanged: "outcome sha256 root (files w) (Inl e) (files w1)"
    if "holds sha256 env root (files w) None (files w1)" for e w1
    using that by (simp add: outcome_def holds_def)
  show ?thesis
  proof (cases "\<exists>src mtime. opened = Inr src \<and> src_stat src = Some (Regular, mtime)")
    case False
    with assms(5) unchanged [OF h] show ?thesis by (auto simp: Put_def split: sum.splits option.splits if_splits)
  next
    case True
    then obtain src mtime where src: "opened = Inr src" "src_stat src = Some (Regular, mtime)" by blast
    have "root \<noteq> []" using assms(1) by (simp add: root_ok_def)
    obtain x w1 where mk: "MkdirAll env root w = (x, w1)" by fastforce
    note h1 = MkdirAll_holds [OF assms(2) _ mk h, simplified]
    obtain y w2 where tmp: "CreateTemp env root w1 = (y, w2)" by fastforce
    note h2 = create_temp_holds [OF assms(2) h1, of 10000, folded CreateTemp_def, unfolded tmp, simplified]
    show ?thesis
    proof (cases "(\<exists>e. x = Inl e) \<or> (\<exists>e. y = Inl e)")
      case True
      with assms(5) src mk tmp h1 h2 unchanged \<open>root \<noteq> []\<close> show ?thesis
        by (auto simp: Put_def split: sum.splits)
    next
      case False
      then obtain u p i where xy: "x = Inr u" "y = Inr (p, i)" by (cases x; cases y) auto
      with assms(5) src mk tmp \<open>root \<noteq> []\<close> obtain w3 where
        put: "put_temp sha256 env rd root path mtime p i (src_reader src) w2 = Some (res, w3)"
        and w': "w' = snd (sys env (remove p) w3)"
        by (auto simp: Put_def)
      from h2 xy have h2: "holds sha256 env root (files w) (Some (p, i, [])) (files w2)" by simp
      then obtain n where "p = temp_path root (random_part env n)" by (auto simp: holds_def owned_def)
      with remove_temp_keeps [OF assms(2) put_temp_holds [OF assms(1,2) h2 put] _ assms(1)] w'
      show ?thesis by simp
    qed
  qed
qed

text \<open>
  C8 (invariant): while the other processes, among them other calls of \<open>Put\<close>, keep to the same
  rule, a \<open>Put\<close> never removes or changes an entry of the store, whatever fails and wherever it
  stops, and afterwards every entry still is a regular file whose content has the digest of its
  name. When it succeeds its artifact is in the store under its digest, with its size.
\<close>

theorem Put_keeps_store:
  assumes "root_ok root" and "polite sha256 env root" and "bound (files w)" and "store_ok sha256 root (files w)"
    and "Put sha256 env rd root path opened w = Some (res, w')"
  shows "store_ok sha256 root (files w') \<and> extends root (files w) (files w')
       \<and> (\<forall>st. res = Inr st \<longrightarrow> Path root (SHA256 (Artifact st)) = Inr (StorePath st)
            \<and> present sha256 root (SHA256 (Artifact st)) (Size (Artifact st)) (files w'))"
  using Put_outcome [OF assms] by (simp add: outcome_def kept_def)


subsection \<open>Witnesses\<close>

text \<open>A store in an empty file system, alone, with a digest that is 32 times the same byte.\<close>

definition alone :: environment where
  "alone = \<lparr>others = (\<lambda>k fs. fs), fails_at = (\<lambda>k. False), random_part = (\<lambda>k. replicate k (CHR ''0'')),
     clock_time = int, ctx_ended = (\<lambda>k. False)\<rparr>"

definition no_files :: world where
  "no_files = \<lparr>calls = 0, files = \<lparr>names = Map.empty,
     nodes = (\<lambda>i. \<lparr>node_kind = Special, node_data = [], node_mtime = 0\<rparr>), top = 0\<rparr>\<rparr>"

definition byte_digest :: "string \<Rightarrow> string" where
  "byte_digest bs = replicate 32 (char_of (length bs))"

definition example_source :: "stream source" where
  "example_source = \<lparr>src_stat = Some (Regular, 5), src_reader = (''hello'', [], True)\<rparr>"

definition five :: string where "five = concat (replicate 32 ''05'')"

lemma five_digest: "EncodeToString (byte_digest ''hello'') = five"
  by code_simp

lemma five_path: "Path ''/store'' five = Inr (store_path ''/store'' five)"
  by code_simp

lemma five_dir: "dir_prefixes (Dir (store_path ''/store'' five)) = [''/store'', ''/store/05'']"
  by code_simp

lemma alone_fields [simp]:
  "clock_time alone k = int k" "ctx_ended alone k = False" "random_part alone k = replicate k (CHR ''0'')"
  by (simp_all add: alone_def)

lemma sys_alone:
  "sys alone f w = (case f (files w) of (x, fs) \<Rightarrow> (x, \<lparr>calls = Suc (calls w), files = fs\<rparr>))"
  by (simp add: sys_def alone_def)

definition tmp_name :: string where "tmp_name = ''/store/.tmp-0''"

definition made :: world where
  "made = \<lparr>calls = 1, files = add_node ''/store'' \<lparr>node_kind = Directory, node_data = [], node_mtime = 0\<rparr> (files no_files)\<rparr>"

lemma example_mkdir: "MkdirAll alone ''/store'' no_files = (Inr (), made)"
proof -
  have "dir_prefixes ''/store'' = [''/store'']" by code_simp
  moreover have "resolve 41 (files no_files) ''/store'' = Inl NotExist"
    using resolve.simps(2) [of 40 "files no_files" "''/store''"] by (simp add: no_files_def)
  ultimately show ?thesis
    by (simp add: MkdirAll_def sys_alone mkdir_def made_def) (simp add: no_files_def)
qed

definition opened_tmp :: world where
  "opened_tmp = \<lparr>calls = 2, files = add_node tmp_name \<lparr>node_kind = Regular, node_data = [], node_mtime = 1\<rparr> (files made)\<rparr>"

lemma example_temp: "CreateTemp alone ''/store'' made = (Inr (tmp_name, 1), opened_tmp)"
  using create_temp.simps(2) [of 9999 alone "''/store''" made]
  by (simp add: CreateTemp_def sys_alone open_excl_def made_def opened_tmp_def temp_path_def tmp_name_def
      no_files_def add_node_def Let_def)

definition written :: world where
  "written = \<lparr>calls = 3, files = snd (pwrite 2 1 0 ''hello'' (files opened_tmp))\<rparr>"

lemma example_copy:
  "copyAndDigest byte_digest (ctx_copy alone) (src_read stream_read) (tmp_write alone 1) ((''hello'', [], True), opened_tmp, 0)
     = Some (Inr (five, 5), (([], [], True), written, 5))"
proof -
  have "copy_from (ctx_copy alone) (src_read stream_read) (tmp_write alone 1) [] ((''hello'', [], True), opened_tmp, 0)
     = Some (Inr ''hello'', (([], [], True), written, 5))"
    by (subst copy_from.simps)
       (simp add: ctx_copy_def src_read_def tmp_write_def sys_alone multi_write_def pwrite_def written_def
         copyBufferSize_def is_EOF_def, simp add: opened_tmp_def)
  then show ?thesis by (simp add: copyAndDigest_def five_digest)
qed


text \<open>In the written file system only the root and the temporary file have names.\<close>

definition closed_tmp :: world where
  "closed_tmp = \<lparr>calls = 4, files = files written\<rparr>"

lemma written_names: "names (files written) = [''/store'' \<mapsto> 0, tmp_name \<mapsto> 1]"
  by (simp add: written_def pwrite_def opened_tmp_def made_def add_node_def no_files_def)

lemma written_root: "node_kind (nodes (files written) 0) = Directory"
  by (simp add: written_def pwrite_def opened_tmp_def made_def add_node_def no_files_def)

lemma five_apart: "store_path ''/store'' five \<notin> {''/store'', tmp_name, ''/store/05''}"
  by code_simp

lemma example_validate:
  "validateStoredArtifact byte_digest alone (store_path ''/store'' five) five 5 closed_tmp
     = Some (Inr False, closed_tmp\<lparr>calls := 5\<rparr>)"
proof -
  have "names (files written) (store_path ''/store'' five) = None" using five_apart by (simp add: written_names)
  then show ?thesis by (simp add: validateStoredArtifact_def sys_alone lstat_def closed_tmp_def)
qed

definition made_dir :: world where
  "made_dir = \<lparr>calls = 7, files = add_node ''/store/05'' \<lparr>node_kind = Directory, node_data = [], node_mtime = 6\<rparr> (files written)\<rparr>"

lemma example_mkdir_store:
  "MkdirAll alone (Dir (store_path ''/store'' five)) (closed_tmp\<lparr>calls := 5\<rparr>) = (Inr (), made_dir)"
proof -
  have "resolve 41 (files written) ''/store'' = Inr 0"
    using resolve.simps(2) [of 40 "files written" "''/store''"] by (simp add: written_names tmp_name_def written_root)
  moreover have "resolve 41 (files written) ''/store/05'' = Inl NotExist"
    using resolve.simps(2) [of 40 "files written" "''/store/05''"] by (simp add: written_names tmp_name_def)
  ultimately show ?thesis
    by (simp add: MkdirAll_def five_dir sys_alone mkdir_def closed_tmp_def made_dir_def written_root)
       (simp add: written_names tmp_name_def)
qed

definition example_artifact :: artifact where
  "example_artifact = \<lparr>art_Path = ''/tmp/a'', art_Name = ''a'', SHA256 = five, Size = 5, ModTime = 5\<rparr>"

definition example_stored :: Stored where
  "example_stored = \<lparr>Artifact = example_artifact, StorePath = store_path ''/store'' five, AlreadyExists = False\<rparr>"

lemma example_publish:
  "\<exists>w. publish byte_digest alone tmp_name (store_path ''/store'' five) example_artifact made_dir
         = Some (Inr example_stored, w)"
proof -
  from five_apart show ?thesis
    by (subst publish.simps)
       (simp add: sys_alone link_def made_dir_def add_node_def written_names tmp_name_def example_stored_def)
qed

lemma example_put:
  "\<exists>w. Put byte_digest alone stream_read ''/store'' ''/tmp/a'' (Inr example_source) no_files
         = Some (Inr example_stored, w)"
proof -
  obtain w where "publish byte_digest alone tmp_name (store_path ''/store'' five) example_artifact made_dir
         = Some (Inr example_stored, w)" using example_publish by blast
  then have "put_copied byte_digest alone ''/store'' tmp_name example_artifact closed_tmp = Some (Inr example_stored, w)"
    using example_validate example_mkdir_store five_path by (simp add: put_copied_def example_artifact_def)
  moreover have "Base ''/tmp/a'' = ''a''" by code_simp
  moreover have "sys alone close_call written = (Inr (), closed_tmp)"
    by (simp add: sys_alone close_call_def closed_tmp_def written_def)
  ultimately have "put_temp byte_digest alone stream_read ''/store'' ''/tmp/a'' 5 tmp_name 1 (''hello'', [], True) opened_tmp
      = Some (Inr example_stored, w)"
    by (simp add: put_temp_def example_copy [unfolded One_nat_def] example_artifact_def)
  then show ?thesis
    by (simp add: Put_def example_source_def example_mkdir example_temp)
qed

theorem Put_keeps_store_witness:
  "\<exists>w. Put byte_digest alone stream_read ''/store'' ''/tmp/a'' (Inr example_source) no_files
         = Some (Inr example_stored, w)
     \<and> store_ok byte_digest ''/store'' (files w) \<and> present byte_digest ''/store'' five 5 (files w)"
proof -
  obtain w where put: "Put byte_digest alone stream_read ''/store'' ''/tmp/a'' (Inr example_source) no_files
         = Some (Inr example_stored, w)" using example_put by blast
  have "root_ok ''/store''" by (simp add: root_ok_def dot_free_def plain_def rooted_def)
  moreover have "polite byte_digest alone ''/store''" by (simp add: polite_def alone_def kept_def)
  moreover have "bound (files no_files)" "store_ok byte_digest ''/store'' (files no_files)"
    by (simp_all add: bound_def store_ok_def no_files_def)
  ultimately show ?thesis
    using put Put_keeps_store [OF _ _ _ _ put] by (simp add: example_stored_def example_artifact_def)
qed

end
