(* ===== verification/Jobs.thy ===== *)
theory Jobs
  imports GoStrings
begin

text \<open>
  The job manager of \<open>examples/advanced-jobs/main.go\<close> with its goroutines, and the command line
  and HTTP adapters in front of it. \<open>time.ParseDuration\<close>, \<open>Duration.String\<close> and \<open>strconv.Atoi\<close>
  are arguments.
\<close>

subsection \<open>JobManager\<close>

datatype JobStatus = JobRunning | JobCompleted | JobCanceled

record Job =
  ID :: nat
  Duration :: string
  Status :: JobStatus
  CreatedAt :: int
  EndedAt :: "int option"

text \<open>\<open>cancels\<close>: the ids that have a cancel function, which ends the context of that id.\<close>

record JobManager =
  nextID :: nat
  jobs :: "nat \<Rightarrow> Job option"
  cancels :: "nat set"
  wg :: int

definition NewJobManager :: JobManager where
  "NewJobManager = \<lparr>nextID = 0, jobs = Map.empty, cancels = {}, wg = 0\<rparr>"

definition StartJob :: "int \<Rightarrow> string \<Rightarrow> JobManager \<Rightarrow> Job \<times> JobManager" where
  "StartJob now duration m =
     (let jid = Suc (nextID m);
          job = \<lparr>ID = jid, Duration = duration, Status = JobRunning, CreatedAt = now, EndedAt = None\<rparr>
      in (job, m\<lparr>nextID := jid, jobs := (jobs m)(jid \<mapsto> job), cancels := insert jid (cancels m), wg := wg m + 1\<rparr>))"

text \<open>\<open>CancelJob\<close> looks the function up under the lock and calls it afterwards.\<close>

definition CancelJob :: "nat \<Rightarrow> JobManager \<Rightarrow> bool" where
  "CancelJob jid m \<longleftrightarrow> jid \<in> cancels m"

text \<open>\<open>Jobs\<close>; \<open>order\<close> is the order in which the iteration finds the keys of the map.\<close>

fun collect_jobs :: "JobManager \<Rightarrow> nat list \<Rightarrow> Job list" where
  "collect_jobs m [] = []"
| "collect_jobs m (jid # ids) = (case jobs m jid of None \<Rightarrow> collect_jobs m ids | Some job \<Rightarrow> job # collect_jobs m ids)"

definition Jobs :: "nat list \<Rightarrow> JobManager \<Rightarrow> Job list" where
  "Jobs order m = sort_key ID (collect_jobs m order)"

text \<open>The critical section at the end of \<open>run\<close>.\<close>

definition run_end :: "int \<Rightarrow> nat \<Rightarrow> JobStatus \<Rightarrow> JobManager \<Rightarrow> JobManager" where
  "run_end now jid status m =
     (let m' = (case jobs m jid of
                  None \<Rightarrow> m
                | Some job \<Rightarrow> m\<lparr>jobs := (jobs m)(jid \<mapsto> job\<lparr>Status := status, EndedAt := Some now\<rparr>)\<rparr>)
      in m'\<lparr>cancels := cancels m' - {jid}\<rparr>)"

definition run_done :: "JobManager \<Rightarrow> JobManager" where
  "run_done m = m\<lparr>wg := wg m - 1\<rparr>"

text \<open>Where the goroutine of a job is: in its \<open>select\<close>, past it, or before \<open>wg.Done\<close>.\<close>

datatype run_pc = Selecting | Ending JobStatus | Finishing

text \<open>
  \<open>ended\<close>: the jobs whose context has ended; \<open>fetched\<close>: cancel functions that callers of
  \<open>CancelJob\<close> hold.
\<close>

record job_system =
  mgr :: JobManager
  runs :: "nat \<Rightarrow> run_pc option"
  ended :: "nat set"
  fetched :: "nat list"

definition no_jobs :: job_system where
  "no_jobs = \<lparr>mgr = NewJobManager, runs = Map.empty, ended = {}, fetched = []\<rparr>"

inductive job_step :: "job_system \<Rightarrow> job_system \<Rightarrow> bool" where
  start: "StartJob now duration (mgr s) = (job, m) \<Longrightarrow>
     job_step s (s\<lparr>mgr := m, runs := (runs s)(ID job \<mapsto> Selecting)\<rparr>)"
| timer: "runs s jid = Some Selecting \<Longrightarrow> job_step s (s\<lparr>runs := (runs s)(jid \<mapsto> Ending JobCompleted)\<rparr>)"
| context_done: "runs s jid = Some Selecting \<Longrightarrow> jid \<in> ended s \<Longrightarrow>
     job_step s (s\<lparr>runs := (runs s)(jid \<mapsto> Ending JobCanceled)\<rparr>)"
| run_end: "runs s jid = Some (Ending status) \<Longrightarrow>
     job_step s (s\<lparr>mgr := run_end now jid status (mgr s), runs := (runs s)(jid \<mapsto> Finishing)\<rparr>)"
| run_done: "runs s jid = Some Finishing \<Longrightarrow>
     job_step s (s\<lparr>mgr := run_done (mgr s), runs := (runs s)(jid := None)\<rparr>)"
| cancel_fetch: "CancelJob jid (mgr s) \<Longrightarrow> job_step s (s\<lparr>fetched := jid # fetched s\<rparr>)"
| cancel_call: "fetched s = xs @ jid # ys \<Longrightarrow> job_step s (s\<lparr>ended := insert jid (ended s), fetched := xs @ ys\<rparr>)"
| parent_done: "job_step s (s\<lparr>ended := ended s \<union> ids\<rparr>)"
| stop_cancel: "job_step s (s\<lparr>ended := ended s \<union> cancels (mgr s)\<rparr>)"

text \<open>\<open>Stop\<close> can return \<open>nil\<close> once \<open>wg.Wait\<close> returns.\<close>

definition Stop_waited :: "JobManager \<Rightarrow> bool" where
  "Stop_waited m \<longleftrightarrow> wg m = 0"

subsection \<open>The adapters\<close>

datatype job_output =
    Started nat
  | Listed "(nat \<times> JobStatus \<times> string) list"
  | Canceling int bool
  | CancelUsage
  | InvalidDuration
  | InvalidID
  | CommandList
  | ReadInputError scan_error
  | Usage

text \<open>What a command asks the manager for.\<close>

datatype job_call = CallStart string | CallCancel int | CallShutdown

record durations =
  ParseDuration :: "string \<Rightarrow> int option"
  Duration_String :: "int \<Rightarrow> string"
  Atoi :: "string \<Rightarrow> int option"

definition default_duration :: int where "default_duration = 10000000000"

definition cancel_id :: "int \<Rightarrow> JobManager \<Rightarrow> bool" where
  "cancel_id jid m \<longleftrightarrow> 0 < jid \<and> CancelJob (nat jid) m"

definition cli_start :: "durations \<Rightarrow> int \<Rightarrow> string list \<Rightarrow> JobManager \<Rightarrow> job_output list \<times> job_call list \<times> JobManager" where
  "cli_start d now words m =
     (case (if 1 < length words then ParseDuration d (words ! 1) else Some default_duration) of
        None \<Rightarrow> ([InvalidDuration], [], m)
      | Some dur \<Rightarrow>
          (case StartJob now (Duration_String d dur) m of
             (job, m') \<Rightarrow> ([Started (ID job)], [CallStart (Duration_String d dur)], m')))"

definition cli_cancel :: "durations \<Rightarrow> string list \<Rightarrow> JobManager \<Rightarrow> job_output list \<times> job_call list \<times> JobManager" where
  "cli_cancel d words m =
     (if length words < 2 then ([CancelUsage], [], m)
      else case Atoi d (words ! 1) of
        None \<Rightarrow> ([InvalidID], [], m)
      | Some jid \<Rightarrow> ([Canceling jid (cancel_id jid m)], [CallCancel jid], m))"

text \<open>\<open>JobCLI.handle\<close>: the output, the calls, the manager, and whether the command line ends.\<close>

definition handle ::
  "durations \<Rightarrow> int \<Rightarrow> nat list \<Rightarrow> string list \<Rightarrow> JobManager
     \<Rightarrow> (job_output list \<times> job_call list \<times> JobManager) \<times> bool"
where
  "handle d now order words m =
     (if hd words = ''start'' then (cli_start d now words m, False)
      else if hd words = ''list'' then
        (([Listed (map (\<lambda>j. (ID j, Status j, Duration j)) (Jobs order m))], [], m), False)
      else if hd words = ''cancel'' then (cli_cancel d words m, False)
      else if hd words = ''quit'' \<or> hd words = ''exit'' then (([], [CallShutdown], m), True)
      else (([CommandList], [], m), False))"

text \<open>The HTTP handlers: the status of the response and what they call.\<close>

definition http_start :: "durations \<Rightarrow> int \<Rightarrow> string option \<Rightarrow> JobManager \<Rightarrow> int option \<times> JobManager" where
  "http_start d now bound m =
     (case bound of
        None \<Rightarrow> (None, m)
      | Some duration \<Rightarrow>
          (case (if TrimSpace duration = [] then Some default_duration else ParseDuration d duration) of
             None \<Rightarrow> (Some 400, m)
           | Some dur \<Rightarrow> (Some 201, snd (StartJob now (Duration_String d dur) m))))"

definition http_cancel :: "durations \<Rightarrow> string \<Rightarrow> JobManager \<Rightarrow> int" where
  "http_cancel d param m =
     (case Atoi d param of
        None \<Rightarrow> 400
      | Some jid \<Rightarrow> if \<not> cancel_id jid m then 404 else 202)"

text \<open>
  The routes that \<open>JobHTTP.Start\<close> registers, by the name of their handler: the status, the jobs in
  the response, and whether the application is asked to shut down. A handler that returns an error
  leaves the status to \<open>echo\<close>.
\<close>

datatype job_request = GetJobs "nat list" | PostJobs int "string option" | DeleteJob string | GetHealth | PostShutdown

definition serve :: "durations \<Rightarrow> job_request \<Rightarrow> JobManager \<Rightarrow> (int option \<times> Job list \<times> bool) \<times> JobManager" where
  "serve d req m =
     (case req of
        GetJobs order \<Rightarrow> ((Some 200, Jobs order m, False), m)
      | PostJobs now bound \<Rightarrow> (case http_start d now bound m of (code, m') \<Rightarrow> ((code, [], False), m'))
      | DeleteJob param \<Rightarrow> ((Some (http_cancel d param m), [], False), m)
      | GetHealth \<Rightarrow> ((Some 200, [], False), m)
      | PostShutdown \<Rightarrow> ((Some 202, [], True), m))"

definition countVerbosity :: "string list \<Rightarrow> nat" where
  "countVerbosity args =
     sum_list (map (\<lambda>arg. if 1 < length arg \<and> arg ! 0 = CHR ''-'' then length (filter (\<lambda>r. r = CHR ''v'') (tl arg)) else 0) args)"

subsection \<open>The invariant\<close>

definition active :: "(nat \<Rightarrow> run_pc option) \<Rightarrow> nat set" where
  "active rs = {i \<in> dom rs. rs i \<noteq> Some Finishing}"

text \<open>A job is running exactly as long as it can be canceled; only a job whose context ended is canceled.\<close>

definition job_ok :: "job_system \<Rightarrow> nat \<Rightarrow> Job \<Rightarrow> bool" where
  "job_ok s i job \<longleftrightarrow>
     ID job = i
     \<and> (Status job = JobRunning \<longleftrightarrow> i \<in> cancels (mgr s))
     \<and> (Status job = JobRunning \<longleftrightarrow> EndedAt job = None)
     \<and> (Status job = JobCanceled \<longrightarrow> i \<in> ended s)"

definition pc_ok :: "job_system \<Rightarrow> nat \<Rightarrow> run_pc \<Rightarrow> bool" where
  "pc_ok s i pc \<longleftrightarrow>
     1 \<le> i \<and> i \<le> nextID (mgr s)
     \<and> (\<forall>st. pc = Ending st \<longrightarrow> st = JobCompleted \<or> st = JobCanceled \<and> i \<in> ended s)"

definition job_inv :: "job_system \<Rightarrow> bool" where
  "job_inv s \<longleftrightarrow>
     (\<forall>i. jobs (mgr s) i \<noteq> None \<longleftrightarrow> 1 \<le> i \<and> i \<le> nextID (mgr s))
     \<and> (\<forall>i job. jobs (mgr s) i = Some job \<longrightarrow> job_ok s i job)
     \<and> (\<forall>i pc. runs s i = Some pc \<longrightarrow> pc_ok s i pc)
     \<and> cancels (mgr s) = active (runs s)
     \<and> finite (dom (runs s)) \<and> wg (mgr s) = int (card (dom (runs s)))"

lemma job_inv_no_jobs: "job_inv no_jobs"
  by (simp add: job_inv_def no_jobs_def NewJobManager_def active_def)

lemma active_update:
  "active (rs(i \<mapsto> Selecting)) = insert i (active rs)"
  "active (rs(i \<mapsto> Ending st)) = insert i (active rs)"
  "active (rs(i \<mapsto> Finishing)) = active rs - {i}"
  "active (rs(i := None)) = active rs - {i}"
  by (auto simp: active_def)

lemma job_ok_cong: "cancels (mgr t) = cancels (mgr s) \<Longrightarrow> ended t = ended s \<Longrightarrow> job_ok t = job_ok s"
  by (simp add: job_ok_def fun_eq_iff)

lemma pc_ok_cong: "nextID (mgr t) = nextID (mgr s) \<Longrightarrow> ended t = ended s \<Longrightarrow> pc_ok t = pc_ok s"
  by (simp add: pc_ok_def fun_eq_iff)

lemma start_job_inv:
  assumes inv: "job_inv s" and st: "StartJob now duration (mgr s) = (job, m)"
  shows "job_inv (s\<lparr>mgr := m, runs := (runs s)(ID job \<mapsto> Selecting)\<rparr>)"
proof -
  let ?n = "Suc (nextID (mgr s))"
  have fresh: "runs s ?n = None"
  proof (rule ccontr)
    assume "runs s ?n \<noteq> None"
    with inv have "?n \<le> nextID (mgr s)" by (fastforce simp: job_inv_def pc_ok_def)
    then show False by simp
  qed
  have "int (card (insert ?n (dom (runs s)))) = int (card (dom (runs s))) + 1"
    using fresh inv by (subst card_insert_disjoint) (auto simp: job_inv_def)
  let ?j = "\<lparr>ID = ?n, Duration = duration, Status = JobRunning, CreatedAt = now, EndedAt = None\<rparr>"
  let ?t = "s\<lparr>mgr := m, runs := (runs s)(ID job \<mapsto> Selecting)\<rparr>"
  have m: "job = ?j" "jobs m = (jobs (mgr s))(?n \<mapsto> ?j)" "nextID m = ?n" "cancels m = insert ?n (cancels (mgr s))"
    "wg m = wg (mgr s) + 1" using st by (auto simp: StartJob_def Let_def)
  have "job_ok ?t ?n ?j" by (simp add: job_ok_def m)
  moreover have "job_ok ?t k = job_ok s k" if "k \<noteq> ?n" for k
    using that by (simp add: job_ok_def m fun_eq_iff)
  moreover have "pc_ok ?t ?n Selecting" by (simp add: pc_ok_def m)
  moreover have "pc_ok ?t k pc" if "pc_ok s k pc" for k pc
    using that by (auto simp: pc_ok_def m)
  moreover have "(jobs m i \<noteq> None) = (1 \<le> i \<and> i \<le> ?n)" for i
    using inv by (auto simp: job_inv_def m le_Suc_eq)
  ultimately show ?thesis
    using inv \<open>int (card _) = _\<close> unfolding job_inv_def by (simp add: active_update m)
qed

lemma pc_inv:
  assumes inv: "job_inv s" and pc: "runs s i = Some Selecting"
    and st: "st = JobCompleted \<or> st = JobCanceled \<and> i \<in> ended s"
  shows "job_inv (s\<lparr>runs := (runs s)(i \<mapsto> Ending st)\<rparr>)"
proof -
  have "insert i (dom (runs s)) = dom (runs s)" "insert i (active (runs s)) = active (runs s)"
    using pc by (auto simp: active_def)
  moreover have "pc_ok s i (Ending st)" using inv pc st by (auto simp: job_inv_def pc_ok_def)
  moreover let ?t = "s\<lparr>runs := (runs s)(i \<mapsto> Ending st)\<rparr>"
  have "job_ok ?t = job_ok s" "pc_ok ?t = pc_ok s" by (rule job_ok_cong pc_ok_cong; simp)+
  ultimately show ?thesis
    using inv by (simp add: job_inv_def active_update)
qed

lemma run_end_inv:
  assumes inv: "job_inv s" and pc: "runs s i = Some (Ending st)"
  shows "job_inv (s\<lparr>mgr := run_end now i st (mgr s), runs := (runs s)(i \<mapsto> Finishing)\<rparr>)"
proof -
  have ok: "pc_ok s i (Ending st)" using inv pc by (simp add: job_inv_def)
  with inv have "jobs (mgr s) i \<noteq> None" unfolding job_inv_def pc_ok_def by blast
  then obtain job where job: "jobs (mgr s) i = Some job" by blast
  let ?t = "s\<lparr>mgr := run_end now i st (mgr s), runs := (runs s)(i \<mapsto> Finishing)\<rparr>"
  have same: "pc_ok ?t = pc_ok s" by (rule pc_ok_cong) (simp_all add: run_end_def job)
  have other: "job_ok ?t k = job_ok s k" if "k \<noteq> i" for k
    using that by (simp add: job_ok_def run_end_def job fun_eq_iff)
  have "job_ok s i job" using inv job by (simp add: job_inv_def)
  with ok have this_job: "job_ok ?t i (job\<lparr>Status := st, EndedAt := Some now\<rparr>)"
    by (auto simp: job_ok_def pc_ok_def run_end_def job)
  have "insert i (dom (runs s)) = dom (runs s)" using pc by auto
  moreover have "jobs (mgr ?t) = (jobs (mgr s))(i \<mapsto> job\<lparr>Status := st, EndedAt := Some now\<rparr>)"
    "cancels (mgr ?t) = cancels (mgr s) - {i}" "wg (mgr ?t) = wg (mgr s)" "nextID (mgr ?t) = nextID (mgr s)"
    by (simp_all add: run_end_def job)
  moreover have "pc_ok s i Finishing" using ok by (simp add: pc_ok_def)
  moreover have "1 \<le> i \<and> i \<le> nextID (mgr s)" using ok by (simp add: pc_ok_def)
  ultimately show ?thesis
    using inv other this_job unfolding job_inv_def same by (simp add: active_update)
qed

lemma run_done_inv:
  assumes inv: "job_inv s" and pc: "runs s i = Some Finishing"
  shows "job_inv (s\<lparr>mgr := run_done (mgr s), runs := (runs s)(i := None)\<rparr>)"
proof -
  have fin: "finite (dom (runs s))" and i: "i \<in> dom (runs s)" "i \<notin> active (runs s)"
    using inv pc by (auto simp: job_inv_def active_def)
  from card_Suc_Diff1 [OF fin i(1)]
  have "int (card (dom (runs s) - {i})) = int (card (dom (runs s))) - 1" by linarith
  moreover let ?t = "s\<lparr>mgr := run_done (mgr s), runs := (runs s)(i := None)\<rparr>"
  have "job_ok ?t = job_ok s" "pc_ok ?t = pc_ok s" by (rule job_ok_cong pc_ok_cong; simp add: run_done_def)+
  ultimately show ?thesis
    using inv i fin by (simp add: job_inv_def active_update) (simp add: run_done_def)
qed

lemma ended_inv: "job_inv s \<Longrightarrow> ended s \<subseteq> E \<Longrightarrow> job_inv (s\<lparr>ended := E, fetched := fs\<rparr>)"
  by (fastforce simp: job_inv_def job_ok_def pc_ok_def)

lemma job_step_inv: "job_step s t \<Longrightarrow> job_inv s \<Longrightarrow> job_inv t"
proof (induction rule: job_step.induct)
  case (cancel_fetch i s)
  then show ?case using ended_inv [of s "ended s"] by simp
next
  case (parent_done s js)
  then show ?case using ended_inv [of s "ended s \<union> js" "fetched s"] by simp
next
  case (stop_cancel s)
  then show ?case using ended_inv [of s "ended s \<union> cancels (mgr s)" "fetched s"] by simp
qed (auto intro: start_job_inv pc_inv run_end_inv run_done_inv ended_inv)

interpretation jobs: concurrent_machine job_step job_inv
  by unfold_locales (rule job_step_inv)

text \<open>A job that has ended stays as it is.\<close>

definition ended_as :: "nat \<Rightarrow> Job \<Rightarrow> job_system \<Rightarrow> bool" where
  "ended_as i job s \<longleftrightarrow> job_inv s \<and> jobs (mgr s) i = Some job \<and> Status job \<noteq> JobRunning"

lemma ended_as_step: "job_step s t \<Longrightarrow> ended_as i job s \<Longrightarrow> ended_as i job t"
proof -
  assume step: "job_step s t" and e: "ended_as i job s"
  then have inv: "job_inv s" and job: "jobs (mgr s) i = Some job" "Status job \<noteq> JobRunning"
    by (auto simp: ended_as_def)
  from inv job have "job_ok s i job" "i \<le> nextID (mgr s)" unfolding job_inv_def by blast+
  with job(2) have "i \<notin> cancels (mgr s)" by (simp add: job_ok_def)
  with inv have idle: "runs s i \<noteq> Some (Ending st)" for st by (auto simp: job_inv_def active_def)
  from step have "jobs (mgr t) i = Some job"
  proof (cases rule: job_step.cases)
    case (start now duration j m)
    with job \<open>i \<le> nextID (mgr s)\<close> show ?thesis by (auto simp: StartJob_def Let_def)
  next
    case (run_end k status now)
    with idle have "k \<noteq> i" by auto
    with run_end job show ?thesis by (auto simp: run_end_def Let_def split: option.splits)
  qed (use job in \<open>auto simp: run_done_def\<close>)
  with job_step_inv [OF step inv] job(2) show ?thesis by (simp add: ended_as_def)
qed

interpretation ended_jobs: concurrent_machine job_step "ended_as i job" for i job
  by unfold_locales (rule ended_as_step)


subsection \<open>The contract\<close>

lemma collect_jobs_IDs:
  "job_inv s \<Longrightarrow> set order \<subseteq> dom (jobs (mgr s)) \<Longrightarrow> map ID (collect_jobs (mgr s) order) = order"
  by (induction order) (auto, auto simp: job_inv_def job_ok_def)

lemma Jobs_sorted:
  assumes inv: "job_inv s" and "distinct order" and "set order = dom (jobs (mgr s))"
  shows "map ID (Jobs order (mgr s)) = [1..<Suc (nextID (mgr s))]"
proof -
  have ids: "map ID (collect_jobs (mgr s) order) = order" using collect_jobs_IDs [OF inv] assms(3) by simp
  show ?thesis
  proof (rule sorted_distinct_set_unique)
    have "distinct (map ID (collect_jobs (mgr s) order))" using ids assms(2) by simp
    then show "distinct (map ID (Jobs order (mgr s)))" by (simp add: Jobs_def distinct_map)
    have "set (map ID (Jobs order (mgr s))) = set (map ID (collect_jobs (mgr s) order))" by (simp add: Jobs_def)
    then show "set (map ID (Jobs order (mgr s))) = set [1..<Suc (nextID (mgr s))]"
      unfolding ids using inv assms(3) by (auto simp: job_inv_def dom_def)
  qed (simp_all add: Jobs_def del: upt_Suc)
qed


text \<open>
  C14 (invariant): however starts, cancellations, timers, ends of contexts and \<open>Stop\<close> interleave,
  a job is running exactly as long as \<open>CancelJob\<close> finds it; it is canceled only if its context
  has ended; once it has ended it never changes again; when the wait of \<open>Stop\<close> can return, no job
  is running; and \<open>Jobs\<close> lists every job ever started once, by its id, whatever the order of the
  map.
\<close>

theorem jobs_consistent:
  assumes "job_step\<^sup>*\<^sup>* no_jobs s" and "job_step\<^sup>*\<^sup>* s t" and "jobs (mgr s) i = Some job"
  shows "(Status job = JobRunning \<longleftrightarrow> CancelJob i (mgr s))
       \<and> (Status job = JobCanceled \<longrightarrow> i \<in> ended s)
       \<and> (Status job \<noteq> JobRunning \<longrightarrow> jobs (mgr t) i = Some job)
       \<and> (Stop_waited (mgr s) \<longrightarrow> Status job \<noteq> JobRunning)
       \<and> (distinct order \<and> set order = dom (jobs (mgr s)) \<longrightarrow>
            map ID (Jobs order (mgr s)) = [1..<Suc (nextID (mgr s))])"
proof -
  have inv: "job_inv s" using jobs.steps_inv [OF assms(1) job_inv_no_jobs] .
  with assms(3) have ok: "job_ok s i job" by (simp add: job_inv_def)
  have stays: "jobs (mgr t) i = Some job" if "Status job \<noteq> JobRunning"
    using ended_jobs.steps_inv [OF assms(2), of i job] that inv assms(3) by (simp add: ended_as_def)
  have "cancels (mgr s) = {}" if "Stop_waited (mgr s)"
    using that inv by (auto simp: Stop_waited_def job_inv_def active_def)
  with ok stays Jobs_sorted [OF inv, of order] show ?thesis
    by (auto simp: job_ok_def CancelJob_def simp del: upt_Suc)
qed

text \<open>
  Whatever a client sends, a request or a command changes the manager only by starting jobs, and
  those that were there stay as they are.
\<close>

lemma StartJob_extends: "jobs m i = Some job \<Longrightarrow> i \<le> nextID m \<Longrightarrow> jobs (snd (StartJob now dur m)) i = Some job"
  by (auto simp: StartJob_def Let_def)

lemma serve_extends:
  assumes "job_inv s" and "jobs (mgr s) i = Some job"
  shows "jobs (snd (serve d req (mgr s))) i = Some job"
    and "nextID (snd (serve d req (mgr s))) \<le> Suc (nextID (mgr s))"
    and "nextID (snd (serve d req (mgr s))) = Suc (nextID (mgr s)) \<longleftrightarrow> fst (fst (serve d req (mgr s))) = Some 201"
proof -
  have "i \<le> nextID (mgr s)" using assms unfolding job_inv_def by blast
  with assms(2) show "jobs (snd (serve d req (mgr s))) i = Some job"
    by (auto simp: serve_def http_start_def StartJob_extends split: job_request.split option.split prod.splits)
  show "nextID (snd (serve d req (mgr s))) \<le> Suc (nextID (mgr s))"
    and "nextID (snd (serve d req (mgr s))) = Suc (nextID (mgr s)) \<longleftrightarrow> fst (fst (serve d req (mgr s))) = Some 201"
    by (auto simp: serve_def http_start_def http_cancel_def StartJob_def Let_def
        split: job_request.split option.split prod.splits)
qed

subsection \<open>Witness\<close>

text \<open>A job that is started, canceled, and has ended.\<close>

definition one_started :: job_system where
  "one_started = no_jobs\<lparr>mgr := snd (StartJob 5 ''1s'' NewJobManager), runs := [1 \<mapsto> Selecting]\<rparr>"

definition one_canceled :: job_system where
  "one_canceled = one_started\<lparr>ended := {1}, runs := [1 \<mapsto> Ending JobCanceled]\<rparr>"

definition one_ended :: job_system where
  "one_ended = one_canceled\<lparr>mgr := run_end 7 1 JobCanceled (mgr one_canceled), runs := [1 \<mapsto> Finishing]\<rparr>"

definition one_returned :: job_system where
  "one_returned = one_ended\<lparr>mgr := run_done (mgr one_ended), runs := Map.empty\<rparr>"

lemma reach_one_ended: "job_step\<^sup>*\<^sup>* no_jobs one_ended"
proof -
  let ?held = "one_started\<lparr>fetched := [1]\<rparr>"
  let ?ended = "one_started\<lparr>ended := {1}\<rparr>"
  have "job_step no_jobs one_started"
    using job_step.start [of 5 "''1s''" no_jobs "fst (StartJob 5 ''1s'' NewJobManager)" "snd (StartJob 5 ''1s'' NewJobManager)"]
    by (simp add: one_started_def no_jobs_def StartJob_def NewJobManager_def Let_def)
  moreover have "job_step one_started ?held"
    using job_step.cancel_fetch [of 1 one_started]
    by (simp add: one_started_def no_jobs_def StartJob_def NewJobManager_def CancelJob_def Let_def)
  moreover have "job_step ?held ?ended"
    using job_step.cancel_call [of ?held "[]" 1 "[]"] by (simp add: one_started_def no_jobs_def)
  moreover have "job_step ?ended one_canceled"
    using job_step.context_done [of ?ended 1] by (simp add: one_canceled_def one_started_def)
  moreover have "job_step one_canceled one_ended"
    using job_step.run_end [of one_canceled 1 JobCanceled 7] by (simp add: one_ended_def one_canceled_def)
  ultimately show ?thesis by (meson rtranclp.rtrancl_into_rtrancl rtranclp.rtrancl_refl)
qed

lemma step_one_returned: "job_step one_ended one_returned"
  using job_step.run_done [of one_ended 1] by (simp add: one_returned_def one_ended_def)

theorem jobs_consistent_witness:
  "jobs (mgr one_returned) 1 = Some \<lparr>ID = 1, Duration = ''1s'', Status = JobCanceled, CreatedAt = 5, EndedAt = Some 7\<rparr>
   \<and> \<not> CancelJob 1 (mgr one_ended) \<and> map ID (Jobs [1] (mgr one_ended)) = [1]"
proof -
  let ?job = "\<lparr>ID = 1, Duration = ''1s'', Status = JobCanceled, CreatedAt = 5, EndedAt = Some 7\<rparr>"
  have job: "jobs (mgr one_ended) 1 = Some ?job" and dom: "dom (jobs (mgr one_ended)) = {1}"
    and "nextID (mgr one_ended) = 1"
    by (simp_all add: one_ended_def one_canceled_def one_started_def no_jobs_def NewJobManager_def StartJob_def run_end_def Let_def)
  moreover have "job_step\<^sup>*\<^sup>* one_ended one_returned" using step_one_returned by blast
  ultimately show ?thesis using jobs_consistent [OF reach_one_ended _ job, of one_returned "[1]"]
    by simp
qed

end
