(* ===== verification/JobCli.thy ===== *)
theory JobCli
  imports Jobs "HOL-Library.Multiset"
begin

text \<open>
  The command line of \<open>examples/advanced-jobs/main.go\<close> as it runs: \<open>JobCLI.run\<close>, the goroutine of
  \<open>scanLines\<close> with its two channels, and the job manager that other goroutines use meanwhile. Text
  that goes to the output is a \<open>job_output\<close>; \<open>Usage\<close> is the line of help that \<open>Start\<close> prints.
\<close>

subsection \<open>The two goroutines\<close>

text \<open>\<open>scanLines\<close>: scanning, sending a line on the channel that has no buffer, and its end.\<close>

datatype scan_pc = Scanning | Sending string | Reporting | ClosingErrs | ClosingLines | ScanDone

datatype cli_end = ByContext | ByErrs "scan_error option" | ByLines | ByQuit

text \<open>\<open>run\<close>: in its \<open>select\<close>, with the words of a line, past the call of the manager, and returned.\<close>

datatype cli_pc =
    AtSelect
  | Handling "string list"
  | Answering "job_call list" "job_output list" bool
  | CliReturned cli_end

text \<open>
  \<open>todo\<close> and \<open>scan_result\<close>: the lines that the scanner will still find, and its error at the end.
  \<open>errs\<close> is the buffer of the channel, which holds one error. Ghost \<open>received\<close>: the lines that \<open>run\<close>
  got; \<open>shutdowns\<close>: how often it requested the shutdown.
\<close>

record cli_system =
  sys :: job_system
  todo :: "string list"
  scan_result :: "scan_error option"
  scanner :: scan_pc
  errs :: "scan_error option list"
  errs_closed :: bool
  lines_closed :: bool
  cli :: cli_pc
  runtime_done :: bool
  outputs :: "job_output list"
  received :: "string list"
  shutdowns :: nat

text \<open>\<open>JobCLI.Start\<close>: the input and the output if they are given; the help is printed.\<close>

record 'f JobCLI =
  cli_in :: "'f option"
  cli_out :: "'f option"

definition NewJobCLI :: "'f option \<Rightarrow> 'f option \<Rightarrow> 'f JobCLI" where
  "NewJobCLI i out = \<lparr>cli_in = i, cli_out = out\<rparr>"

definition cli_files :: "'f \<Rightarrow> 'f \<Rightarrow> 'f JobCLI \<Rightarrow> 'f JobCLI" where
  "cli_files stdin stdout c =
     c\<lparr>cli_in := Some (case cli_in c of None \<Rightarrow> stdin | Some f \<Rightarrow> f),
       cli_out := Some (case cli_out c of None \<Rightarrow> stdout | Some f \<Rightarrow> f)\<rparr>"

definition cli_Start :: "nat option \<Rightarrow> string \<Rightarrow> job_system \<Rightarrow> cli_system" where
  "cli_Start err input s =
     (case scan_lines err input of
        (ls, e) \<Rightarrow>
          \<lparr>sys = s, todo = ls, scan_result = e, scanner = Scanning, errs = [], errs_closed = False, lines_closed = False,
           cli = AtSelect, runtime_done = False, outputs = [Usage], received = [], shutdowns = 0\<rparr>)"

text \<open>
  What a command does to the manager and its goroutines: under the lock, and then, for a cancel
  function that was found, when it is called.
\<close>

fun enact :: "job_call \<Rightarrow> job_system \<Rightarrow> job_system" where
  "enact (CallStart _) s = s\<lparr>runs := (runs s)(nextID (mgr s) \<mapsto> Selecting)\<rparr>"
| "enact _ s = s"

fun settle :: "job_output \<Rightarrow> job_system \<Rightarrow> job_system" where
  "settle (Canceling jid True) s = s\<lparr>ended := insert (nat jid) (ended s)\<rparr>"
| "settle _ s = s"

definition take_line :: "string \<Rightarrow> cli_system \<Rightarrow> cli_system" where
  "take_line l w =
     w\<lparr>scanner := Scanning, received := received w @ [l], cli := (if Fields l = [] then AtSelect else Handling (Fields l))\<rparr>"

definition call_manager :: "(job_output list \<times> job_call list \<times> JobManager) \<times> bool \<Rightarrow> cli_system \<Rightarrow> cli_system" where
  "call_manager r w =
     (case r of ((out, calls, m), quit) \<Rightarrow>
        w\<lparr>sys := fold enact calls (sys w\<lparr>mgr := m\<rparr>), cli := Answering calls out quit,
          shutdowns := shutdowns w + count_list calls CallShutdown\<rparr>)"

definition answer :: "job_output list \<Rightarrow> bool \<Rightarrow> cli_system \<Rightarrow> cli_system" where
  "answer out quit w =
     w\<lparr>sys := fold settle out (sys w), outputs := outputs w @ out, cli := (if quit then CliReturned ByQuit else AtSelect)\<rparr>"

definition take_error :: "cli_system \<Rightarrow> cli_system" where
  "take_error w =
     (let e = hd (errs w) in
      w\<lparr>errs := tl (errs w), outputs := outputs w @ leaves (map_option ReadInputError e), cli := CliReturned (ByErrs e)\<rparr>)"

text \<open>The iteration over the map of jobs finds each key once.\<close>

definition iterates :: "nat list \<Rightarrow> JobManager \<Rightarrow> bool" where
  "iterates order m \<longleftrightarrow> distinct order \<and> set order = dom (jobs m)"

inductive cli_step :: "durations \<Rightarrow> cli_system \<Rightarrow> cli_system \<Rightarrow> bool" for d where
  scans: "scanner w = Scanning \<Longrightarrow> todo w = l # ls \<Longrightarrow> cli_step d w (w\<lparr>todo := ls, scanner := Sending l\<rparr>)"
| scanned: "scanner w = Scanning \<Longrightarrow> todo w = [] \<Longrightarrow> cli_step d w (w\<lparr>scanner := Reporting\<rparr>)"
| reports: "scanner w = Reporting \<Longrightarrow> length (errs w) < 1 \<Longrightarrow>
    cli_step d w (w\<lparr>errs := errs w @ [scan_result w], scanner := ClosingErrs\<rparr>)"
| closes_errs: "scanner w = ClosingErrs \<Longrightarrow> cli_step d w (w\<lparr>errs_closed := True, scanner := ClosingLines\<rparr>)"
| closes_lines: "scanner w = ClosingLines \<Longrightarrow> cli_step d w (w\<lparr>lines_closed := True, scanner := ScanDone\<rparr>)"
| takes_line: "cli w = AtSelect \<Longrightarrow> scanner w = Sending l \<Longrightarrow> cli_step d w (take_line l w)"
| calls: "cli w = Handling ws \<Longrightarrow> iterates order (mgr (sys w)) \<Longrightarrow> cli_step d w (call_manager (handle d now order ws (mgr (sys w))) w)"
| answers: "cli w = Answering cs out quit \<Longrightarrow> cli_step d w (answer out quit w)"
| context_done: "cli w = AtSelect \<Longrightarrow> runtime_done w \<Longrightarrow> cli_step d w (w\<lparr>cli := CliReturned ByContext\<rparr>)"
| takes_error: "cli w = AtSelect \<Longrightarrow> errs w \<noteq> [] \<Longrightarrow> cli_step d w (take_error w)"
| errs_over: "cli w = AtSelect \<Longrightarrow> errs w = [] \<Longrightarrow> errs_closed w \<Longrightarrow> cli_step d w (w\<lparr>cli := CliReturned (ByErrs None)\<rparr>)"
| lines_over: "cli w = AtSelect \<Longrightarrow> lines_closed w \<Longrightarrow> cli_step d w (w\<lparr>cli := CliReturned ByLines\<rparr>)"
| runtime_ends: "cli_step d w (w\<lparr>runtime_done := True\<rparr>)"
| others: "job_step (sys w) s \<Longrightarrow> cli_step d w (w\<lparr>sys := s\<rparr>)"

lemmas cli_ops [step_defs] = take_line_def call_manager_def answer_def take_error_def

subsection \<open>The manager sees steps of its own\<close>

definition is_quit :: "string list \<Rightarrow> bool" where
  "is_quit ws \<longleftrightarrow> hd ws = ''quit'' \<or> hd ws = ''exit''"

text \<open>
  What a command is to be answered, and what it does, in the state in which it reaches the manager:
  \<open>start\<close> with a duration, by default of ten seconds, adds one running job under the next id, with
  its goroutine; \<open>list\<close> shows every job once, by id; \<open>cancel\<close> says whether the job could be canceled.
\<close>

definition requested :: "durations \<Rightarrow> string list \<Rightarrow> int option" where
  "requested d ws = (case ws of _ # w # _ \<Rightarrow> ParseDuration d w | _ \<Rightarrow> Some 10000000000)"

definition reply :: "durations \<Rightarrow> string list \<Rightarrow> job_system \<Rightarrow> job_output \<Rightarrow> job_system \<Rightarrow> bool" where
  "reply d ws s out s' \<longleftrightarrow>
     (let m = mgr s; i = nextID m + 1 in
      if hd ws = ''start'' then
        (case requested d ws of
           None \<Rightarrow> out = InvalidDuration \<and> s' = s
         | Some dur \<Rightarrow> out = Started i
             \<and> (\<exists>now. s' = s\<lparr>mgr := \<lparr>nextID = i,
                        jobs = (jobs m)(i \<mapsto> \<lparr>ID = i, Duration = Duration_String d dur, Status = JobRunning,
                                              CreatedAt = now, EndedAt = None\<rparr>),
                        cancels = insert i (cancels m), wg = wg m + 1\<rparr>,
                      runs := (runs s)(i \<mapsto> Selecting)\<rparr>))
      else if hd ws = ''list'' then
        s' = s \<and> (\<exists>js. out = Listed (map (\<lambda>j. (ID j, Status j, Duration j)) js) \<and> sorted (map ID js)
                  \<and> mset js = image_mset (the \<circ> jobs m) (mset_set (dom (jobs m))))
      else if hd ws = ''cancel'' then
        s' = s \<and> (case ws of
                    _ # w # _ \<Rightarrow> (case Atoi d w of None \<Rightarrow> out = InvalidID | Some x \<Rightarrow> out = Canceling x (0 < x \<and> nat x \<in> cancels m))
                  | _ \<Rightarrow> out = CancelUsage)
      else s' = s \<and> out = CommandList \<and> \<not> is_quit ws)"

text \<open>
  The manager from \<open>s0\<close> on: commands reach it one after the other, each answered in the state of that
  moment, and between them it makes steps of its own or for others.
\<close>

inductive served :: "durations \<Rightarrow> job_system \<Rightarrow> string list list \<Rightarrow> job_output list \<Rightarrow> job_system \<Rightarrow> bool" for d s0 where
  nothing: "served d s0 [] [] s0"
| command: "served d s0 cs os s \<Longrightarrow> reply d ws s out s' \<Longrightarrow> served d s0 (cs @ [ws]) (os @ [out]) s'"
| meanwhile: "served d s0 cs os s \<Longrightarrow> job_step s s' \<Longrightarrow> served d s0 cs os s'"

lemma served_steps: "job_step\<^sup>*\<^sup>* s t \<Longrightarrow> served d s0 cs os s \<Longrightarrow> served d s0 cs os t"
  by (induction rule: rtranclp_induct) (auto intro: served.meanwhile)

lemma handle_quit: "is_quit ws \<Longrightarrow> handle d now order ws m = (([], [CallShutdown], m), True)"
  by (auto simp: handle_def is_quit_def)

lemma collect_jobs_map: "set order \<subseteq> dom (jobs m) \<Longrightarrow> collect_jobs m order = map (the \<circ> jobs m) order"
  by (induction order) (auto split: option.split)

lemma mset_Jobs:
  assumes "iterates order m"
  shows "mset (Jobs order m) = image_mset (the \<circ> jobs m) (mset_set (dom (jobs m)))"
proof -
  have "mset_set (dom (jobs m)) = mset order" using assms by (metis iterates_def mset_set_set)
  with assms show ?thesis by (simp add: Jobs_def iterates_def collect_jobs_map)
qed

lemma start_reply:
  assumes "hd ws = ''start''"
  shows "\<exists>out cs m. cli_start d now ws (mgr s) = ([out], cs, m) \<and> reply d ws s out (fold enact cs (s\<lparr>mgr := m\<rparr>))
           \<and> count_list cs CallShutdown = 0 \<and> (\<forall>x b. out \<noteq> Canceling x b)"
proof -
  have "requested d ws = (if 1 < length ws then ParseDuration d (ws ! 1) else Some default_duration)"
    by (auto simp: requested_def default_duration_def split: list.split)
  with assms show ?thesis
    by (cases "mgr s") (auto simp: cli_start_def reply_def StartJob_def Let_def split: option.split intro!: exI [of _ now])
qed

lemma cancel_reply:
  assumes "hd ws = ''cancel''"
  shows "\<exists>out cs. cli_cancel d ws (mgr s) = ([out], cs, mgr s) \<and> reply d ws s out (fold enact cs s)
           \<and> count_list cs CallShutdown = 0"
  using assms
  by (cases ws rule: remdups_adj.cases)
    (auto simp: cli_cancel_def reply_def cancel_id_def CancelJob_def split: option.split)

lemma handle_reply:
  assumes "\<not> is_quit ws" and "iterates order (mgr s)"
  shows "\<exists>out cs m. handle d now order ws (mgr s) = (([out], cs, m), False)
           \<and> reply d ws s out (fold enact cs (s\<lparr>mgr := m\<rparr>)) \<and> count_list cs CallShutdown = 0"
proof -
  consider "hd ws = ''start''" | "hd ws = ''list''" | "hd ws = ''cancel''"
    | "hd ws \<noteq> ''start''" "hd ws \<noteq> ''list''" "hd ws \<noteq> ''cancel''" by blast
  then show ?thesis
  proof cases
    case 1
    with start_reply [OF 1, of d now s] show ?thesis by (auto simp: handle_def)
  next
    case 2
    with mset_Jobs [OF assms(2)] have "reply d ws s (Listed (map (\<lambda>j. (ID j, Status j, Duration j)) (Jobs order (mgr s)))) s"
      by (auto simp: reply_def Let_def Jobs_def intro!: exI [of _ "Jobs order (mgr s)"])
    with 2 show ?thesis by (simp add: handle_def)
  next
    case 3
    with cancel_reply [OF 3, of d s] show ?thesis by (auto simp: handle_def)
  next
    case 4
    with assms(1) show ?thesis by (auto simp: handle_def reply_def is_quit_def)
  qed
qed

lemma settle_cases: "settle out s = s \<or> (\<exists>jid. settle out s = s\<lparr>ended := ended s \<union> {jid}\<rparr>)"
  by (cases "(out, s)" rule: settle.cases) auto

lemma job_step_settle: "job_step\<^sup>*\<^sup>* s (fold settle outs s)"
proof (induction outs arbitrary: s)
  case (Cons out outs)
  have "job_step\<^sup>*\<^sup>* s (settle out s)"
    using settle_cases [of out s] job_step.parent_done by (metis r_into_rtranclp rtranclp.rtrancl_refl)
  with Cons.IH [of "settle out s"] show ?case by simp
qed simp

lemma job_step_handle:
  assumes "handle d now order ws (mgr s) = ((out, cs, m), quit)"
  shows "job_step\<^sup>*\<^sup>* s (fold enact cs (s\<lparr>mgr := m\<rparr>))"
  using assms r_into_rtranclp [of job_step, OF job_step.start [of now _ s]]
  by (auto simp: handle_def cli_start_def cli_cancel_def StartJob_def Let_def split: if_splits option.splits prod.splits)

lemma cli_simulates_jobs: "cli_step d w v \<Longrightarrow> job_step\<^sup>*\<^sup>* (sys w) (sys v)"
proof (induction rule: cli_step.induct)
  case (calls w ws order now)
  obtain out cs m quit where h: "handle d now order ws (mgr (sys w)) = ((out, cs, m), quit)" by (metis surj_pair)
  from job_step_handle [OF h] h show ?case by (simp add: call_manager_def)
qed (auto simp: take_line_def answer_def take_error_def Let_def job_step_settle)

lemma cli_runs_jobs: "(cli_step d)\<^sup>*\<^sup>* w v \<Longrightarrow> job_step\<^sup>*\<^sup>* (sys w) (sys v)"
  by (induction rule: rtranclp_induct) (auto dest: cli_simulates_jobs)

subsection \<open>Order and completeness\<close>

definition commands :: "string list \<Rightarrow> string list list" where
  "commands ls = filter (\<lambda>ws. ws \<noteq> []) (map Fields ls)"

text \<open>
  How far \<open>run\<close> has come with the commands \<open>cs\<close>: what the manager has answered is printed, except for
  the answer in hand; \<open>n\<close> counts the requests for the shutdown.
\<close>

definition canceled_ended :: "job_output list \<Rightarrow> job_system \<Rightarrow> bool" where
  "canceled_ended os s \<longleftrightarrow> (\<forall>x. Canceling x True \<in> set os \<longrightarrow> nat x \<in> ended s)"

definition printed :: "durations \<Rightarrow> job_system \<Rightarrow> string list list \<Rightarrow> job_output list \<Rightarrow> job_system \<Rightarrow> bool" where
  "printed d s0 cs outs s \<longleftrightarrow> (\<exists>os. outs = Usage # os \<and> served d s0 cs os s \<and> canceled_ended os s)"

definition in_hand :: "durations \<Rightarrow> job_system \<Rightarrow> string list list \<Rightarrow> job_output list \<Rightarrow> job_output \<Rightarrow> job_system \<Rightarrow> bool" where
  "in_hand d s0 cs outs x s \<longleftrightarrow> (\<exists>os. outs = Usage # os \<and> served d s0 cs (os @ [x]) s \<and> canceled_ended os s)"

fun stage_ok :: "durations \<Rightarrow> job_system \<Rightarrow> string list list \<Rightarrow> job_output list \<Rightarrow> nat \<Rightarrow> job_system \<Rightarrow> cli_pc \<Rightarrow> bool" where
  "stage_ok d s0 cs outs n s AtSelect = (printed d s0 cs outs s \<and> n = 0)"
| "stage_ok d s0 cs outs n s (Handling ws) = (n = 0 \<and> (\<exists>bs. cs = bs @ [ws] \<and> printed d s0 bs outs s))"
| "stage_ok d s0 cs outs n s (Answering calls out quit) =
     (if quit then out = [] \<and> n = 1 \<and> (\<exists>bs ws. cs = bs @ [ws] \<and> is_quit ws \<and> printed d s0 bs outs s)
      else n = 0 \<and> (\<exists>x. out = [x] \<and> in_hand d s0 cs outs x s))"
| "stage_ok d s0 cs outs n s (CliReturned ByQuit) =
     (n = 1 \<and> (\<exists>bs ws. cs = bs @ [ws] \<and> is_quit ws \<and> printed d s0 bs outs s))"
| "stage_ok d s0 cs outs n s (CliReturned (ByErrs e)) =
     (n = 0 \<and> (\<exists>os. outs = os @ leaves (map_option ReadInputError e) \<and> printed d s0 cs os s))"
| "stage_ok d s0 cs outs n s (CliReturned _) = (printed d s0 cs outs s \<and> n = 0)"

fun finished :: "scan_pc \<Rightarrow> bool" where
  "finished Scanning = False"
| "finished (Sending l) = False"
| "finished Reporting = False"
| "finished _ = True"

fun in_flight :: "scan_pc \<Rightarrow> string list" where
  "in_flight (Sending l) = [l]"
| "in_flight _ = []"

definition pipe_ok :: "string list \<Rightarrow> scan_error option \<Rightarrow> cli_system \<Rightarrow> bool" where
  "pipe_ok ls e w \<longleftrightarrow>
     received w @ in_flight (scanner w) @ todo w = ls \<and> scan_result w = e
     \<and> (scanner w = Reporting \<or> finished (scanner w) \<longrightarrow> todo w = [])
     \<and> (if finished (scanner w) then errs w = [e] \<or> errs w = [] \<and> cli w = CliReturned (ByErrs e)
        else errs w = [] \<and> \<not> errs_closed w \<and> \<not> lines_closed w)
     \<and> (\<forall>x. cli w = CliReturned (ByErrs x) \<longrightarrow> x = e \<and> finished (scanner w))
     \<and> (cli w = CliReturned ByLines \<longrightarrow> finished (scanner w))
     \<and> (cli w = CliReturned ByContext \<longrightarrow> runtime_done w)"

definition cli_ok :: "durations \<Rightarrow> job_system \<Rightarrow> string list \<Rightarrow> scan_error option \<Rightarrow> cli_system \<Rightarrow> bool" where
  "cli_ok d s0 ls e w \<longleftrightarrow>
     pipe_ok ls e w \<and> stage_ok d s0 (commands (received w)) (outputs w) (shutdowns w) (sys w) (cli w)"

lemma commands_snoc: "commands (ls @ [l]) = commands ls @ (if Fields l = [] then [] else [Fields l])"
  by (simp add: commands_def)

lemma ended_mono: "job_step\<^sup>*\<^sup>* s t \<Longrightarrow> ended s \<subseteq> ended t"
proof (induction rule: rtranclp_induct)
  case (step t u)
  from step.hyps(2) have "ended t \<subseteq> ended u" by (induction rule: job_step.induct) auto
  with step.IH show ?case by blast
qed simp

lemma printed_steps: "job_step\<^sup>*\<^sup>* s t \<Longrightarrow> printed d s0 cs outs s \<Longrightarrow> printed d s0 cs outs t"
  using ended_mono [of s t] served_steps [of s t] by (fastforce simp: printed_def canceled_ended_def)

lemma in_hand_steps: "job_step\<^sup>*\<^sup>* s t \<Longrightarrow> in_hand d s0 cs outs x s \<Longrightarrow> in_hand d s0 cs outs x t"
  using ended_mono [of s t] served_steps [of s t] by (fastforce simp: in_hand_def canceled_ended_def)

lemma stage_steps: "job_step\<^sup>*\<^sup>* s t \<Longrightarrow> stage_ok d s0 cs outs n s pc \<Longrightarrow> stage_ok d s0 cs outs n t pc"
  using printed_steps [of s t d s0] in_hand_steps [of s t d s0 cs outs]
  by (cases "(d, s0, cs, outs, n, s, pc)" rule: stage_ok.cases) (auto split: if_splits)

lemma in_hand_printed:
  assumes "in_hand d s0 cs outs x s"
  shows "printed d s0 cs (outs @ [x]) (settle x s)"
proof -
  from assms obtain os where os: "outs = Usage # os" "served d s0 cs (os @ [x]) s" "canceled_ended os s"
    by (auto simp: in_hand_def)
  have steps: "job_step\<^sup>*\<^sup>* s (settle x s)" using job_step_settle [of s "[x]"] by simp
  from os(3) have "canceled_ended (os @ [x]) (settle x s)"
    using ended_mono [OF steps] by (cases "(x, s)" rule: settle.cases) (auto simp: canceled_ended_def)
  with os(1) served_steps [OF steps os(2)] show ?thesis by (auto simp: printed_def)
qed

lemma printed_command: "printed d s0 cs outs s \<Longrightarrow> reply d ws s x t \<Longrightarrow> ended t = ended s \<Longrightarrow> in_hand d s0 (cs @ [ws]) outs x t"
  by (auto simp: printed_def in_hand_def canceled_ended_def intro: served.command)

lemma reply_ended: "reply d ws s x t \<Longrightarrow> ended t = ended s"
  by (auto simp: reply_def Let_def split: if_splits option.splits)

lemma stage_calls:
  assumes "stage_ok d s0 cs outs n (sys w) (Handling ws)" and "iterates order (mgr (sys w))"
    and "handle d now order ws (mgr (sys w)) = ((out, js, m), quit)"
  shows "stage_ok d s0 cs outs (n + count_list js CallShutdown) (fold enact js (sys w\<lparr>mgr := m\<rparr>)) (Answering js out quit)"
proof (cases "is_quit ws")
  case True
  with assms show ?thesis by (auto simp: handle_quit)
next
  case False
  with handle_reply [OF this assms(2), of d now] assms(3) obtain x where x: "out = [x]" "\<not> quit"
    "reply d ws (sys w) x (fold enact js (sys w\<lparr>mgr := m\<rparr>))" "count_list js CallShutdown = 0" by auto
  from assms(1) obtain bs where "n = 0" "cs = bs @ [ws]" "printed d s0 bs outs (sys w)" by auto
  with x printed_command [OF this(3) x(3) reply_ended [OF x(3)]] show ?thesis by simp
qed

lemma cli_step_ok: "cli_step d w v \<Longrightarrow> cli_ok d s0 ls e w \<Longrightarrow> cli_ok d s0 ls e v"
proof (induction rule: cli_step.induct)
  case (takes_line w l)
  then show ?case
    by (cases "Fields l = []") (simp_all add: cli_ok_def pipe_ok_def take_line_def commands_snoc)
next
  case (calls w ws order now)
  obtain out js m quit where h: "handle d now order ws (mgr (sys w)) = ((out, js, m), quit)" by (metis surj_pair)
  from calls(3) have "stage_ok d s0 (commands (received w)) (outputs w) (shutdowns w) (sys w) (Handling ws)"
    by (simp add: cli_ok_def calls(1))
  note stage = stage_calls [OF this calls(2) h]
  have "pipe_ok ls e (call_manager ((out, js, m), quit) w)"
    using calls by (auto simp: cli_ok_def pipe_ok_def call_manager_def split: if_splits)
  with stage show ?case unfolding cli_ok_def h by (simp add: call_manager_def del: stage_ok.simps)
next
  case (answers w js out quit)
  then show ?case by (auto simp: cli_ok_def pipe_ok_def answer_def intro: in_hand_printed split: if_splits)
next
  case (takes_error w)
  then show ?case by (auto simp: cli_ok_def pipe_ok_def take_error_def Let_def split: if_splits)
next
  case (others w s)
  then show ?case
    using stage_steps [OF r_into_rtranclp [of job_step, OF others(1)]] by (auto simp: cli_ok_def pipe_ok_def split: if_splits)
qed (auto simp: cli_ok_def pipe_ok_def split: if_splits)

interpretation command_line: concurrent_machine "cli_step d" "cli_ok d s0 ls e" for d s0 ls e
  by unfold_locales (rule cli_step_ok)

lemma cli_Start_ok: "cli_ok d s (fst (scan_lines err input)) (snd (scan_lines err input)) (cli_Start err input s)"
  by (simp add: cli_ok_def pipe_ok_def cli_Start_def printed_def canceled_ended_def commands_def served.nothing split: prod.split)

text \<open>
  C37 (functional): the command line takes the lines of its input in their order, each once, and
  answers every command with one message, in the same order. Each
  answer is the right one for the state that the manager is in when the command reaches it, whatever
  other goroutines do with the manager before and after, and with it the manager does what the command
  says; a job that is reported to be canceled has its context ended. The command line returns for a
  command that quits, which is the last it took and the only one that requests the shutdown; or because the
  context of the application has ended; or because the input has, and then it has taken every line. It
  reports an error of the scanner only if the scanner had it, as its last message. The manager makes
  only steps of its own, so all that holds of its runs holds with the command line.
\<close>

theorem command_line_runs:
  assumes "(cli_step d)\<^sup>*\<^sup>* (cli_Start err input s) w" and "cli w = CliReturned r"
  shows "received w = take (length (received w)) (fst (scan_lines err input))
       \<and> (\<exists>os. outputs w = Usage # os @ (case r of ByErrs (Some e) \<Rightarrow> [ReadInputError e] | _ \<Rightarrow> [])
            \<and> served d s (if r = ByQuit then butlast (commands (received w)) else commands (received w)) os (sys w)
            \<and> (\<forall>x. Canceling x True \<in> set os \<longrightarrow> nat x \<in> ended (sys w)))
       \<and> (r = ByQuit \<longrightarrow> commands (received w) \<noteq> [] \<and> is_quit (last (commands (received w))))
       \<and> (r = ByContext \<longrightarrow> runtime_done w)
       \<and> (r \<noteq> ByQuit \<and> r \<noteq> ByContext \<longrightarrow> received w = fst (scan_lines err input))
       \<and> (\<forall>e. r = ByErrs e \<longrightarrow> e = snd (scan_lines err input))
       \<and> shutdowns w = of_bool (r = ByQuit)
       \<and> job_step\<^sup>*\<^sup>* s (sys w)"
proof -
  let ?ls = "fst (scan_lines err input)"
  have ok: "cli_ok d s ?ls (snd (scan_lines err input)) w"
    by (rule command_line.steps_inv [OF assms(1) cli_Start_ok])
  then have pipe: "received w @ in_flight (scanner w) @ todo w = ?ls" by (simp add: cli_ok_def pipe_ok_def)
  have "received w = take (length (received w)) ?ls" unfolding pipe [symmetric] by simp
  moreover have "received w = ?ls" if "r \<noteq> ByQuit \<and> r \<noteq> ByContext"
  proof -
    from ok assms(2) that have "finished (scanner w)" by (cases r) (auto simp: cli_ok_def pipe_ok_def)
    moreover from this have "in_flight (scanner w) = []" by (cases "scanner w") simp_all
    moreover have "finished (scanner w) \<longrightarrow> todo w = []" using ok by (simp add: cli_ok_def pipe_ok_def)
    ultimately show ?thesis using pipe by simp
  qed
  moreover have "job_step\<^sup>*\<^sup>* s (sys w)"
    using cli_runs_jobs [OF assms(1)] by (simp add: cli_Start_def split: prod.splits)
  moreover have "\<forall>e. r = ByErrs e \<longrightarrow> e = snd (scan_lines err input)" and "r = ByContext \<longrightarrow> runtime_done w"
    using ok assms(2) by (simp_all add: cli_ok_def pipe_ok_def)
  moreover have "stage_ok d s (commands (received w)) (outputs w) (shutdowns w) (sys w) (CliReturned r)"
    using ok assms(2) by (simp add: cli_ok_def)
  then have "\<exists>os. outputs w = Usage # os @ (case r of ByErrs (Some e) \<Rightarrow> [ReadInputError e] | _ \<Rightarrow> [])
      \<and> served d s (if r = ByQuit then butlast (commands (received w)) else commands (received w)) os (sys w)
      \<and> (\<forall>x. Canceling x True \<in> set os \<longrightarrow> nat x \<in> ended (sys w))"
    and "r = ByQuit \<longrightarrow> commands (received w) \<noteq> [] \<and> is_quit (last (commands (received w)))"
    and "shutdowns w = of_bool (r = ByQuit)"
    by (cases r; auto simp: printed_def canceled_ended_def split: option.split)+
  ultimately show ?thesis by blast
qed

text \<open>One command, from the scan of its line to its answer.\<close>

lemma one_command:
  assumes "scanner w = Scanning" and "todo w = l # ls" and "cli w = AtSelect" and "Fields l \<noteq> []"
    and "iterates order (mgr (sys w))" and "handle d now order (Fields l) (mgr (sys w)) = ((out, cs, m), quit)"
  shows "(cli_step d)\<^sup>*\<^sup>* w (answer out quit (call_manager ((out, cs, m), quit) (take_line l (w\<lparr>todo := ls, scanner := Sending l\<rparr>))))"
proof -
  let ?a = "w\<lparr>todo := ls, scanner := Sending l\<rparr>"
  let ?b = "take_line l ?a"
  let ?c = "call_manager ((out, cs, m), quit) ?b"
  have "cli_step d w ?a" by (rule cli_step.scans [OF assms(1,2)])
  moreover have "cli_step d ?a ?b" by (rule cli_step.takes_line) (simp_all add: assms(3))
  moreover have "cli_step d ?b ?c"
    using cli_step.calls [of ?b "Fields l" order d now] assms(4-6) by (simp add: take_line_def)
  moreover have "cli_step d ?c (answer out quit ?c)" by (rule cli_step.answers) (simp add: call_manager_def)
  ultimately show ?thesis by (meson r_into_rtranclp rtranclp.rtrancl_into_rtrancl)
qed

subsection \<open>What is lost\<close>

text \<open>
  \<open>scanLines\<close> closes the channel of the lines soon after it sent the error. If both have happened
  before the next \<open>select\<close>, that may take the closed channel, and the error is never reported.
\<close>

theorem read_error_lost:
  "\<exists>w. (cli_step d)\<^sup>*\<^sup>* (cli_Start (Some 5) [] s) w \<and> cli w = CliReturned ByLines \<and> outputs w = [Usage]
     \<and> scan_result w = Some (ReadError 5)"
proof -
  let ?w0 = "cli_Start (Some 5) [] s"
  let ?w1 = "?w0\<lparr>scanner := Reporting\<rparr>"
  let ?w2 = "?w1\<lparr>errs := [Some (ReadError 5)], scanner := ClosingErrs\<rparr>"
  let ?w3 = "?w2\<lparr>errs_closed := True, scanner := ClosingLines\<rparr>"
  let ?w4 = "?w3\<lparr>lines_closed := True, scanner := ScanDone\<rparr>"
  let ?w5 = "?w4\<lparr>cli := CliReturned ByLines\<rparr>"
  have start: "scan_lines (Some 5) [] = ([], Some (ReadError 5))" by (simp add: scan_lines.simps)
  have "cli_step d ?w0 ?w1" by (rule cli_step.scanned) (simp_all add: cli_Start_def start)
  moreover have "cli_step d ?w1 ?w2" using cli_step.reports [of ?w1] by (simp add: cli_Start_def start)
  moreover have "cli_step d ?w2 ?w3" by (rule cli_step.closes_errs) simp
  moreover have "cli_step d ?w3 ?w4" by (rule cli_step.closes_lines) simp
  moreover have "cli_step d ?w4 ?w5" by (rule cli_step.lines_over) (simp_all add: cli_Start_def start)
  ultimately have "(cli_step d)\<^sup>*\<^sup>* ?w0 ?w5" by (meson r_into_rtranclp rtranclp.rtrancl_into_rtrancl)
  then show ?thesis by (intro exI [of _ ?w5]) (simp add: cli_Start_def start)
qed

text \<open>
  When the command line has returned, nobody takes the next line: the goroutine of \<open>scanLines\<close>
  that has one stays blocked for ever.
\<close>

definition abandoned :: "string \<Rightarrow> cli_system \<Rightarrow> bool" where
  "abandoned l w \<longleftrightarrow> scanner w = Sending l \<and> (\<exists>r. cli w = CliReturned r)"

lemma abandoned_step: "cli_step d w v \<Longrightarrow> abandoned l w \<Longrightarrow> abandoned l v"
  by (induction rule: cli_step.induct) (auto simp: abandoned_def)

interpretation leaked: concurrent_machine "cli_step d" "abandoned l" for d l
  by unfold_locales (rule abandoned_step)

subsection \<open>Witness\<close>

definition two_lines :: string where "two_lines = ''x'' @ [newline] @ ''quit'' @ [newline, CHR ''y'']"

lemma two_lines_scan: "scan_lines None two_lines = ([''x'', ''quit'', ''y''], None)"
  by (simp add: two_lines_def scan_lines.simps newline_def MaxScanTokenSize_def dropCR_def Let_def)

lemma fields_words: "Fields ''x'' = [''x'']" "Fields ''quit'' = [''quit'']"
  by (simp_all add: Fields_def fields_from.simps(2) space_len.simps(2) ascii_space_def wide_space_def word_of_def)

definition no_durations :: durations where
  "no_durations = \<lparr>ParseDuration = (\<lambda>_. None), Duration_String = (\<lambda>_. []), Atoi = (\<lambda>_. None)\<rparr>"

theorem command_line_runs_witness:
  "\<exists>w. (cli_step no_durations)\<^sup>*\<^sup>* (cli_Start None two_lines no_jobs) w \<and> cli w = CliReturned ByQuit
     \<and> received w = [''x'', ''quit''] \<and> outputs w = [Usage, CommandList] \<and> shutdowns w = 1
     \<and> served no_durations no_jobs [[''x'']] [CommandList] (sys w)"
proof -
  let ?w0 = "cli_Start None two_lines no_jobs"
  let ?r1 = "(([CommandList], [], mgr no_jobs), False)"
  let ?w1 = "answer [CommandList] False (call_manager ?r1 (take_line ''x'' (?w0\<lparr>todo := [''quit'', ''y''], scanner := Sending ''x''\<rparr>)))"
  let ?r2 = "(([], [CallShutdown], mgr no_jobs), True)"
  let ?w2 = "answer [] True (call_manager ?r2 (take_line ''quit'' (?w1\<lparr>todo := [''y''], scanner := Sending ''quit''\<rparr>)))"
  have "(cli_step no_durations)\<^sup>*\<^sup>* ?w0 ?w1"
    by (rule one_command [where now = 0 and order = "[]"])
       (simp_all add: cli_Start_def two_lines_scan fields_words handle_def iterates_def no_jobs_def NewJobManager_def)
  moreover have "(cli_step no_durations)\<^sup>*\<^sup>* ?w1 ?w2"
    by (rule one_command [where now = 0 and order = "[]"])
       (simp_all add: cli_Start_def two_lines_scan fields_words handle_def cli_ops iterates_def no_jobs_def NewJobManager_def)
  moreover define w where "w = ?w2"
  ultimately have run: "(cli_step no_durations)\<^sup>*\<^sup>* ?w0 w" by simp
  have fields: "cli w = CliReturned ByQuit" "received w = [''x'', ''quit'']" "outputs w = [Usage, CommandList]"
    by (simp_all add: w_def cli_Start_def two_lines_scan fields_words cli_ops)
  have "commands (received w) = [[''x''], [''quit'']]" by (simp add: fields commands_def fields_words)
  with command_line_runs [OF run fields(1)] fields(3)
  have "shutdowns w = 1" "served no_durations no_jobs [[''x'']] [CommandList] (sys w)" by auto
  with run fields show ?thesis by blast
qed

end
