(* ===== verification/Nats.thy ===== *)
theory Nats
  imports Prelude
begin

text \<open>
  \<open>Server\<close> of \<open>embeddednats/embeddednats.go\<close>: the life cycle of an embedded server, with the
  goroutine that waits for its shutdown and any number of calls of \<open>Start\<close> and \<open>Stop\<close>. What
  \<open>nats-server\<close> does (whether it can be created, becomes ready, or shuts down) and whether a
  directory can be made or removed is up to the step.
\<close>

subsection \<open>Configuration\<close>

record Options =
  HostName :: string
  Port :: int
  JetStream :: bool
  StoreDir :: string
  DontListen :: bool
  NoLog :: bool
  NoSigs :: bool

definition DefaultOptions :: Options where
  "DefaultOptions = \<lparr>HostName = ''127.0.0.1'', Port = -1, JetStream = True, StoreDir = [], DontListen = False,
     NoLog = True, NoSigs = True\<rparr>"

definition defaultReadyTimeout :: int where "defaultReadyTimeout = 10000000000"

text \<open>
  A started server: its temporary store if it has one, whether it has shut down, whether \<open>done\<close>
  is closed, the error of the removal, whether \<open>Stop\<close> was called, whether the \<open>sync.Once\<close>
  has called \<open>Shutdown\<close>, and whether the goroutine that waited has ended.
\<close>

datatype nats_error = RemoveFailed nat | CreateFailed nat | NewServerFailed nat | NotReady | AlreadyStarted
  | ContextEnded | NotListening | NotRunning

record instance_state =
  temp :: "nat option"
  is_down :: bool
  done_closed :: bool
  stopErr :: "nats_error option"
  stopping :: bool
  shutdown_called :: bool
  checked :: bool

text \<open>
  Where the one call of \<open>Start\<close> past its guard is. \<open>Abandoned\<close>: it has told a server that did not
  become ready to shut down; the flag says whether that server has, for which the call waits.
\<close>

datatype start_pc = NoStart | Entered | Made "nat option" | Serving "nat option" | Abandoned "nat option" bool | Published nat

record nats =
  options :: Options
  readyTimeout :: int
  starting :: bool
  running :: "nat option"
  insts :: "instance_state list"
  phase :: start_pc
  waiting :: "nat list"
  dirs :: "nat set"
  made :: nat
  left :: "nat set"
  reports :: "nat list"

text \<open>\<open>New\<close>; the logger is left out.\<close>

definition New :: "Options option \<Rightarrow> int \<Rightarrow> nats" where
  "New opts timeout =
     \<lparr>options = (case opts of None \<Rightarrow> DefaultOptions | Some o' \<Rightarrow> o'),
      readyTimeout = (if timeout \<le> 0 then defaultReadyTimeout else timeout),
      starting = False, running = None, insts = [], phase = NoStart, waiting = [], dirs = {}, made = 0, left = {},
      reports = []\<rparr>"

subsection \<open>Start\<close>

definition Start_enter :: "nats \<Rightarrow> nats_error option \<times> nats" where
  "Start_enter s =
     (if starting s \<or> running s \<noteq> None then (Some AlreadyStarted, s)
      else (None, s\<lparr>starting := True, phase := Entered\<rparr>))"

text \<open>The deferred end of \<open>Start\<close>.\<close>

definition Start_leave :: "nats \<Rightarrow> nats" where
  "Start_leave s = s\<lparr>starting := False, phase := NoStart\<rparr>"

text \<open>\<open>os.MkdirTemp\<close> gives a new directory; the \<open>n\<close>-th is called \<open>n\<close> here.\<close>

definition Start_mkdir :: "bool \<Rightarrow> nats \<Rightarrow> nats" where
  "Start_mkdir ok s =
     (if JetStream (options s) \<and> StoreDir (options s) = [] then
        (if ok then s\<lparr>dirs := insert (made s) (dirs s), phase := Made (Some (made s)), made := Suc (made s)\<rparr>
         else Start_leave s)
      else s\<lparr>phase := Made None\<rparr>)"

text \<open>\<open>removeTempDir\<close>: the error, and the directories; \<open>left\<close> are those it failed to remove.\<close>

definition removeTempDir :: "bool \<Rightarrow> nat option \<Rightarrow> nats \<Rightarrow> nats_error option \<times> nats" where
  "removeTempDir ok d s =
     (case d of
        None \<Rightarrow> (None, s)
      | Some n \<Rightarrow>
          if ok then (None, s\<lparr>dirs := dirs s - {n}\<rparr>)
          else (Some (RemoveFailed n), s\<lparr>left := insert n (left s)\<rparr>))"

text \<open>\<open>server.NewServer\<close> and \<open>ns.Start\<close>, or the failure of the first.\<close>

definition Start_create :: "bool \<Rightarrow> bool \<Rightarrow> nat option \<Rightarrow> nats \<Rightarrow> nats" where
  "Start_create created removed d s =
     (if created then s\<lparr>phase := Serving d\<rparr> else Start_leave (snd (removeTempDir removed d s)))"

text \<open>\<open>ReadyForConnections\<close>, and the publication, or \<open>Shutdown\<close>.\<close>

definition Start_ready :: "bool \<Rightarrow> nat option \<Rightarrow> nats \<Rightarrow> nats" where
  "Start_ready ready d s =
     (if ready then
        s\<lparr>insts := insts s @ [\<lparr>temp = d, is_down = False, done_closed = False, stopErr = None, stopping = False,
                                shutdown_called = False, checked = False\<rparr>],
          running := Some (length (insts s)), phase := Published (length (insts s))\<rparr>
      else s\<lparr>phase := Abandoned d False\<rparr>)"

text \<open>\<open>WaitForShutdown\<close> has returned: the removal, and the end of the call.\<close>

definition Start_give_up :: "bool \<Rightarrow> nat option \<Rightarrow> nats \<Rightarrow> nats" where
  "Start_give_up removed d s = Start_leave (snd (removeTempDir removed d s))"

subsection \<open>waitForShutdown and Stop\<close>

definition set_inst :: "nat \<Rightarrow> instance_state \<Rightarrow> nats \<Rightarrow> nats" where
  "set_inst i r s = s\<lparr>insts := (insts s)[i := r]\<rparr>"

definition wait_remove :: "bool \<Rightarrow> nat \<Rightarrow> nats \<Rightarrow> nats" where
  "wait_remove ok i s =
     (case removeTempDir ok (temp (insts s ! i)) s of
        (e, s') \<Rightarrow> set_inst i ((insts s ! i)\<lparr>stopErr := e, done_closed := True\<rparr>) s')"

definition wait_report :: "nat \<Rightarrow> nats \<Rightarrow> nats" where
  "wait_report i s =
     (let unexpected = (running s = Some i \<and> \<not> stopping (insts s ! i)) in
      set_inst i ((insts s ! i)\<lparr>checked := True\<rparr>) (if unexpected then s\<lparr>reports := i # reports s\<rparr> else s))"

definition Stop_enter :: "nats \<Rightarrow> nats" where
  "Stop_enter s =
     (case running s of
        None \<Rightarrow> s
      | Some i \<Rightarrow> set_inst i ((insts s ! i)\<lparr>stopping := True, shutdown_called := True\<rparr>) (s\<lparr>waiting := i # waiting s\<rparr>))"

definition Stop_done :: "bool \<Rightarrow> nat \<Rightarrow> nats \<Rightarrow> nats_error list \<times> nats" where
  "Stop_done ctx_ended i s =
     (leaves (stopErr (insts s ! i)) @ (if ctx_ended then [ContextEnded] else []),
      s\<lparr>running := (if running s = Some i then None else running s)\<rparr>)"

subsection \<open>Clients\<close>

definition NATSServer :: "nats \<Rightarrow> nat option" where
  "NATSServer s = running s"

text \<open>\<open>url\<close> is the client URL that \<open>nats-server\<close> gives.\<close>

definition ClientURL :: "(nat \<Rightarrow> string) \<Rightarrow> nats \<Rightarrow> string" where
  "ClientURL url s =
     (if DontListen (options s) then []
      else case NATSServer s of None \<Rightarrow> [] | Some i \<Rightarrow> url i)"

definition Connect :: "(nat \<Rightarrow> string) \<Rightarrow> (string \<Rightarrow> (nats_error, 'c) result) \<Rightarrow> nats \<Rightarrow> (nats_error, 'c) result" where
  "Connect url connect s = (if ClientURL url s = [] then Inl NotListening else connect (ClientURL url s))"

definition ConnectInProcess :: "(nat \<Rightarrow> (nats_error, 'c) result) \<Rightarrow> nats \<Rightarrow> (nats_error, 'c) result" where
  "ConnectInProcess connect s = (case NATSServer s of None \<Rightarrow> Inl NotRunning | Some i \<Rightarrow> connect i)"

subsection \<open>Steps\<close>

inductive nats_step :: "nats \<Rightarrow> nats \<Rightarrow> bool" where
  start: "nats_step s (snd (Start_enter s))"
| mkdir: "phase s = Entered \<Longrightarrow> nats_step s (Start_mkdir ok s)"
| create: "phase s = Made d \<Longrightarrow> nats_step s (Start_create created removed d s)"
| ready: "phase s = Serving d \<Longrightarrow> nats_step s (Start_ready is_ready d s)"
| abandoned_down: "phase s = Abandoned d False \<Longrightarrow> nats_step s (s\<lparr>phase := Abandoned d True\<rparr>)"
| give_up: "phase s = Abandoned d True \<Longrightarrow> nats_step s (Start_give_up removed d s)"
| leave: "phase s = Published i \<Longrightarrow> nats_step s (Start_leave s)"
| down: "i < length (insts s) \<Longrightarrow> nats_step s (set_inst i ((insts s ! i)\<lparr>is_down := True\<rparr>) s)"
| remove: "i < length (insts s) \<Longrightarrow> is_down (insts s ! i) \<Longrightarrow> \<not> done_closed (insts s ! i) \<Longrightarrow>
     nats_step s (wait_remove ok i s)"
| report: "i < length (insts s) \<Longrightarrow> done_closed (insts s ! i) \<Longrightarrow> \<not> checked (insts s ! i) \<Longrightarrow>
     nats_step s (wait_report i s)"
| stop: "nats_step s (Stop_enter s)"
| stop_done: "waiting s = xs @ i # ys \<Longrightarrow> done_closed (insts s ! i) \<Longrightarrow>
     nats_step s ((snd (Stop_done ctx_ended i s))\<lparr>waiting := xs @ ys\<rparr>)"
| stop_context: "waiting s = xs @ i # ys \<Longrightarrow> nats_step s (s\<lparr>waiting := xs @ ys\<rparr>)"

inductive_cases nats_stepE: "nats_step s t"

subsection \<open>The invariant\<close>

text \<open>The store of the call of \<open>Start\<close> in progress, and of a server that is not done.\<close>

fun start_dir :: "start_pc \<Rightarrow> nat set" where
  "start_dir (Made d) = set_option d"
| "start_dir (Serving d) = set_option d"
| "start_dir (Abandoned d b) = set_option d"
| "start_dir _ = {}"

definition inst_dirs :: "instance_state list \<Rightarrow> nat set" where
  "inst_dirs rs = {d. \<exists>i < length rs. temp (rs ! i) = Some d \<and> \<not> done_closed (rs ! i)}"

text \<open>A server that is not done is the running one; a server that is done has shut down.\<close>

definition inst_ok :: "nat option \<Rightarrow> nat \<Rightarrow> instance_state \<Rightarrow> bool" where
  "inst_ok run i r \<longleftrightarrow> (\<not> done_closed r \<longrightarrow> run = Some i) \<and> (done_closed r \<longrightarrow> is_down r)"

definition insts_ok :: "nat option \<Rightarrow> instance_state list \<Rightarrow> bool" where
  "insts_ok run rs \<longleftrightarrow> (\<forall>i < length rs. inst_ok run i (rs ! i)) \<and> set_option run \<subseteq> {..<length rs}"

fun before_publication :: "start_pc \<Rightarrow> bool" where
  "before_publication NoStart = False"
| "before_publication (Published _) = False"
| "before_publication _ = True"

definition nats_inv :: "nats \<Rightarrow> bool" where
  "nats_inv s \<longleftrightarrow>
     (starting s \<longleftrightarrow> phase s \<noteq> NoStart)
     \<and> insts_ok (running s) (insts s)
     \<and> set (waiting s) \<subseteq> {..<length (insts s)}
     \<and> (before_publication (phase s) \<longrightarrow> running s = None)
     \<and> start_dir (phase s) \<union> inst_dirs (insts s) \<subseteq> dirs s
     \<and> dirs s \<subseteq> start_dir (phase s) \<union> inst_dirs (insts s) \<union> left s"

lemma nats_inv_New: "nats_inv (New opts timeout)"
  by (simp add: nats_inv_def New_def inst_dirs_def insts_ok_def)

lemma idle_dirs: "insts_ok None rs \<Longrightarrow> inst_dirs rs = {}"
  by (auto simp: insts_ok_def inst_ok_def inst_dirs_def)

lemma insts_ok_append:
  assumes "insts_ok None rs" and "\<not> done_closed r"
  shows "insts_ok (Some (length rs)) (rs @ [r])" and "inst_dirs (rs @ [r]) = set_option (temp r)"
proof -
  from assms(1) have old: "done_closed (rs ! k) \<and> is_down (rs ! k)" if "k < length rs" for k
    using that by (auto simp: insts_ok_def inst_ok_def)
  show "insts_ok (Some (length rs)) (rs @ [r])"
    using assms(2) old by (simp add: insts_ok_def inst_ok_def nth_append less_Suc_eq)
  show "inst_dirs (rs @ [r]) = set_option (temp r)"
    using assms(2) old by (auto simp: inst_dirs_def nth_append less_Suc_eq)
qed

lemma insts_ok_update:
  assumes "insts_ok run rs" and "inst_ok run i r"
  shows "insts_ok run (rs[i := r])"
proof -
  have "inst_ok run k (rs[i := r] ! k)" if "k < length rs" for k
    using assms that by (cases "k = i") (simp_all add: insts_ok_def)
  with assms(1) show ?thesis by (simp add: insts_ok_def)
qed

lemma inst_dirs_update:
  "temp r = temp (rs ! i) \<Longrightarrow> done_closed r = done_closed (rs ! i) \<Longrightarrow> inst_dirs (rs[i := r]) = inst_dirs rs"
  by (cases "i < length rs") (auto simp: inst_dirs_def nth_list_update split: if_splits)

lemma insts_ok_release:
  assumes "insts_ok run rs" and "done_closed (rs ! i)"
  shows "insts_ok (if run = Some i then None else run) rs"
proof (cases "run = Some i")
  case True
  have "inst_ok None k (rs ! k)" if "k < length rs" for k
  proof -
    have "inst_ok run k (rs ! k)" using assms(1) that by (simp add: insts_ok_def)
    with True assms(2) show ?thesis by (cases "k = i") (simp_all add: inst_ok_def)
  qed
  with True show ?thesis by (simp add: insts_ok_def)
qed (use assms in simp)

lemma insts_ok_only:
  assumes "insts_ok run rs" and "i < length rs" and "\<not> done_closed (rs ! i)"
  shows "run = Some i" and "inst_dirs rs = set_option (temp (rs ! i))"
    and "done_closed r \<Longrightarrow> inst_dirs (rs[i := r]) = {}"
proof -
  have "inst_ok run k (rs ! k)" if "k < length rs" for k using assms(1) that by (simp add: insts_ok_def)
  then have only: "k < length rs \<Longrightarrow> \<not> done_closed (rs ! k) \<Longrightarrow> run = Some k" for k by (simp add: inst_ok_def)
  show run: "run = Some i" by (rule only [OF assms(2,3)])
  have same: "k = i" if "k < length rs" "\<not> done_closed (rs ! k)" for k using only [OF that] run by simp
  then show "inst_dirs rs = set_option (temp (rs ! i))"
    using assms(2,3) unfolding inst_dirs_def set_eq_iff mem_Collect_eq elem_set by metis
  show "inst_dirs (rs[i := r]) = {}" if "done_closed r"
  proof -
    have "done_closed (rs[i := r] ! k)" if "k < length rs" for k
      using same [OF that] \<open>done_closed r\<close> that by (cases "k = i") auto
    then show ?thesis by (auto simp: inst_dirs_def)
  qed
qed

subsection \<open>Every step keeps it\<close>

lemma inst_update_inv:
  assumes "nats_inv s" and "temp r = temp (insts s ! i)" and "done_closed r = done_closed (insts s ! i)"
    and "i < length (insts s)" and "is_down (insts s ! i) \<Longrightarrow> is_down r" and "set ws \<subseteq> {..<length (insts s)}"
  shows "nats_inv (set_inst i r (s\<lparr>waiting := ws, reports := rs\<rparr>))"
proof -
  have "inst_ok (running s) i (insts s ! i)" using assms(1,4) by (simp add: nats_inv_def insts_ok_def)
  with assms(3,5) have "inst_ok (running s) i r" by (auto simp: inst_ok_def)
  with assms show ?thesis
    by (simp add: nats_inv_def set_inst_def insts_ok_update inst_dirs_update)
qed

lemma nats_Start_enter_inv: "nats_inv s \<Longrightarrow> nats_inv (snd (Start_enter s))"
  by (auto simp: nats_inv_def Start_enter_def)

lemma Start_mkdir_inv:
  assumes "nats_inv s" and "phase s = Entered"
  shows "nats_inv (Start_mkdir ok s)"
  using assms by (auto simp: Start_mkdir_def Start_leave_def nats_inv_def)

text \<open>Giving up before the publication: the store is removed, or stays and is reported.\<close>

lemma give_up_inv:
  assumes "nats_inv s" and "phase s = Made d \<or> phase s = Abandoned d b"
  shows "nats_inv (Start_leave (snd (removeTempDir ok d s)))"
proof -
  have "start_dir (phase s) = set_option d" "running s = None" "inst_dirs (insts s) = {}"
    using assms idle_dirs by (auto simp: nats_inv_def)
  with assms(1) show ?thesis
    by (cases d) (auto simp: nats_inv_def Start_leave_def removeTempDir_def)
qed

lemma Start_ready_inv:
  assumes "nats_inv s" and "phase s = Serving d"
  shows "nats_inv (Start_ready ready d s)"
proof (cases ready)
  case True
  have "insts_ok None (insts s)" "inst_dirs (insts s) = {}" "starting s"
    using assms idle_dirs by (auto simp: nats_inv_def)
  with assms True show ?thesis
    by (auto simp: nats_inv_def Start_ready_def insts_ok_append)
next
  case False
  with assms show ?thesis by (auto simp: nats_inv_def Start_ready_def)
qed

lemma wait_remove_inv:
  assumes inv: "nats_inv s" and i: "i < length (insts s)" "is_down (insts s ! i)" "\<not> done_closed (insts s ! i)"
  shows "nats_inv (wait_remove ok i s)"
proof -
  let ?r = "\<lambda>e. (insts s ! i)\<lparr>stopErr := e, done_closed := True\<rparr>"
  have ok: "insts_ok (running s) (insts s)" using inv by (simp add: nats_inv_def)
  note only = insts_ok_only [OF ok i(1,3)]
  have "\<not> before_publication (phase s)" using inv only(1) by (auto simp: nats_inv_def)
  then have "start_dir (phase s) = {}" by (cases "phase s") auto
  moreover have "insts_ok (running s) ((insts s)[i := ?r e])" for e
    using ok i(2) by (simp add: insts_ok_update inst_ok_def)
  moreover have "inst_dirs ((insts s)[i := ?r e]) = {}" for e by (rule only(3)) simp
  ultimately show ?thesis
    using inv only(2)
    by (cases "temp (insts s ! i)") (auto simp: wait_remove_def removeTempDir_def nats_inv_def set_inst_def)
qed

lemma Stop_enter_inv:
  assumes inv: "nats_inv s"
  shows "nats_inv (Stop_enter s)"
proof (cases "running s")
  case (Some i)
  with inv have "set (i # waiting s) \<subseteq> {..<length (insts s)}" "i < length (insts s)"
    by (auto simp: nats_inv_def insts_ok_def)
  with inst_update_inv [OF inv, of "(insts s ! i)\<lparr>stopping := True, shutdown_called := True\<rparr>" i "i # waiting s" "reports s"]
  show ?thesis by (simp add: Stop_enter_def Some)
qed (use inv in \<open>simp add: Stop_enter_def\<close>)

lemma Stop_done_inv:
  assumes "nats_inv s" and "done_closed (insts s ! i)" and "set ws \<subseteq> set (waiting s)"
  shows "nats_inv ((snd (Stop_done ctx_ended i s))\<lparr>waiting := ws\<rparr>)"
  using assms insts_ok_release [of "running s" "insts s" i]
  by (auto simp: nats_inv_def Stop_done_def)

lemma nats_step_inv: "nats_step s t \<Longrightarrow> nats_inv s \<Longrightarrow> nats_inv t"
proof (induction rule: nats_step.induct)
  case (start s)
  then show ?case by (rule nats_Start_enter_inv)
next
  case (mkdir s ok)
  then show ?case by (simp add: Start_mkdir_inv)
next
  case (create s d created removed)
  show ?case
  proof (cases created)
    case True
    with create show ?thesis by (auto simp: Start_create_def nats_inv_def)
  next
    case False
    with give_up_inv [OF create(2)] create(1) show ?thesis by (simp add: Start_create_def)
  qed
next
  case (ready s d)
  then show ?case by (simp add: Start_ready_inv)
next
  case (abandoned_down s d)
  then show ?case by (auto simp: nats_inv_def)
next
  case (give_up s d removed)
  then show ?case by (simp add: Start_give_up_def give_up_inv)
next
  case (leave s i)
  then show ?case by (auto simp: nats_inv_def Start_leave_def)
next
  case (down i s)
  then have "set (waiting s) \<subseteq> {..<length (insts s)}" by (simp add: nats_inv_def)
  with inst_update_inv [OF down(2), of "(insts s ! i)\<lparr>is_down := True\<rparr>" i "waiting s" "reports s"] down(1)
  show ?case by simp
next
  case (remove i s)
  then show ?case by (simp add: wait_remove_inv)
next
  case (report i s)
  then have ws: "set (waiting s) \<subseteq> {..<length (insts s)}" by (simp add: nats_inv_def)
  note update = inst_update_inv [OF report(4), of "(insts s ! i)\<lparr>checked := True\<rparr>" i "waiting s"]
  from update [of "reports s"] update [of "i # reports s"] report(1) ws
  show ?case by (simp add: wait_report_def Let_def)
next
  case (stop s)
  then show ?case by (rule Stop_enter_inv)
next
  case (stop_done s xs i ys)
  then show ?case by (intro Stop_done_inv) auto
next
  case (stop_context s xs i ys)
  then show ?case by (auto simp: nats_inv_def)
qed

interpretation nats: concurrent_machine nats_step nats_inv
  by unfold_locales (rule nats_step_inv)


subsection \<open>The contract\<close>

text \<open>
  C38 (safety): however calls of \<open>Start\<close> and \<open>Stop\<close> overlap, whichever of them fail or give up,
  and whenever the server goes down by itself, at most one server has not released its store, and
  it is the one that \<open>NATSServer\<close> gives; the temporary store of a server that has not shut down
  is never removed, and neither is that of one that \<open>Start\<close> has started and gives up because it is not
  ready, before it has shut down; and when nothing is running or starting, every temporary store that was made
  has been removed, but for those whose removal failed.
\<close>

theorem stores_accounted:
  assumes "nats_step\<^sup>*\<^sup>* (New opts timeout) s"
  shows "(\<forall>i r. i < length (insts s) \<and> r = insts s ! i \<longrightarrow>
            (\<not> done_closed r \<longrightarrow> NATSServer s = Some i) \<and> (\<not> is_down r \<longrightarrow> set_option (temp r) \<subseteq> dirs s))
       \<and> (\<forall>d. phase s = Serving d \<or> phase s = Abandoned d False \<longrightarrow> set_option d \<subseteq> dirs s)
       \<and> (NATSServer s = None \<and> \<not> starting s \<longrightarrow> dirs s \<subseteq> left s)"
proof -
  have inv: "nats_inv s" using nats.steps_inv [OF assms nats_inv_New] .
  have ok: "inst_ok (running s) i (insts s ! i)" if "i < length (insts s)" for i
    using inv that by (simp add: nats_inv_def insts_ok_def)
  have store: "set_option (temp (insts s ! i)) \<subseteq> dirs s"
    if "i < length (insts s)" "\<not> is_down (insts s ! i)" for i
  proof -
    have "\<not> done_closed (insts s ! i)" using ok [OF that(1)] that(2) by (auto simp: inst_ok_def)
    with that(1) have "set_option (temp (insts s ! i)) \<subseteq> inst_dirs (insts s)" by (auto simp: inst_dirs_def)
    with inv show ?thesis by (auto simp: nats_inv_def)
  qed
  have "dirs s \<subseteq> left s" if "running s = None" "\<not> starting s"
  proof -
    have "inst_dirs (insts s) = {}" using inv that(1) idle_dirs by (auto simp: nats_inv_def)
    with inv that show ?thesis by (auto simp: nats_inv_def)
  qed
  moreover have "set_option d \<subseteq> dirs s" if "phase s = Serving d \<or> phase s = Abandoned d False" for d
    using inv that by (auto simp: nats_inv_def)
  ultimately show ?thesis using ok store by (auto simp: NATSServer_def inst_ok_def)
qed

subsection \<open>Witness\<close>

text \<open>A server with a temporary store, started, then stopped.\<close>

definition serving :: nats where
  "serving = snd (Start_enter (New None 0))\<lparr>made := 1, dirs := {0}, phase := Serving (Some 0)\<rparr>"

definition started_one :: nats where
  "started_one = Start_leave (Start_ready True (Some 0) serving)"

lemma reach_started_one: "nats_step\<^sup>*\<^sup>* (New None 0) started_one"
proof -
  let ?a = "snd (Start_enter (New None 0))"
  let ?b = "Start_mkdir True ?a"
  let ?c = "Start_create True True (Some 0) ?b"
  let ?d = "Start_ready True (Some 0) ?c"
  have "nats_step (New None 0) ?a" by (rule nats_step.start)
  moreover have "nats_step ?a ?b" by (rule nats_step.mkdir) (simp add: Start_enter_def New_def)
  moreover have "nats_step ?b ?c"
    by (rule nats_step.create) (simp add: Start_mkdir_def Start_enter_def New_def DefaultOptions_def)
  moreover have "nats_step ?c ?d" by (rule nats_step.ready) (simp add: Start_create_def)
  moreover have "nats_step ?d (Start_leave ?d)"
    by (rule nats_step.leave [of _ "length (insts ?c)"]) (simp add: Start_ready_def)
  moreover have "?c = serving"
    by (simp add: Start_create_def Start_mkdir_def Start_enter_def New_def DefaultOptions_def serving_def)
  ultimately show ?thesis unfolding started_one_def by (metis converse_rtranclp_into_rtranclp rtranclp.rtrancl_refl)
qed

theorem stores_accounted_witness:
  "NATSServer started_one = Some 0 \<and> dirs started_one = {0} \<and> \<not> is_down (insts started_one ! 0)
   \<and> set_option (temp (insts started_one ! 0)) \<subseteq> dirs started_one"
proof -
  have shape: "length (insts started_one) = 1" "dirs started_one = {0}" "\<not> is_down (insts started_one ! 0)"
    "NATSServer started_one = Some 0"
    by (simp_all add: started_one_def serving_def Start_leave_def Start_ready_def Start_enter_def New_def NATSServer_def)
  with stores_accounted [OF reach_started_one] show ?thesis by auto
qed

end
