(* ===== verification/HttpServer.thy ===== *)
theory HttpServer
  imports Prelude
begin

text \<open>
  \<open>httpserver/httpserver.go\<close> and \<open>echoserver/echoserver.go\<close>: a server of \<open>net/http\<close> with its
  listener, and the echo server that is built on it. What the network, \<open>Serve\<close>, \<open>Shutdown\<close> and
  \<open>Close\<close> answer is an argument; \<open>Start\<close> and \<open>Stop\<close> are called by the application one after the
  other, the goroutine around \<open>Serve\<close> ends at any time in between.
\<close>

subsection \<open>Configuration\<close>

record Config =
  Addr :: string
  ReadTimeout :: int
  ReadHeaderTimeout :: int
  WriteTimeout :: int
  IdleTimeout :: int

datatype handler = NotFoundHandler | Handler nat

datatype logger = DefaultLogger | Logger nat

datatype http_error =
    HttpAlreadyStarted
  | ListenFailed nat
  | ServeFailed nat
  | ShutdownFailed nat
  | CloseFailed nat
  | ContextErr nat

text \<open>
  \<open>http_server\<close> is the configuration and the handler of the \<open>http.Server\<close> once there is one;
  \<open>serve_done\<close> is \<open>None\<close> before \<open>Start\<close>, then whether the channel is closed.
\<close>

record Server =
  cfg :: Config
  server_handler :: handler
  listener :: "string option"
  http_server :: "(Config \<times> handler) option"
  serve_done :: "bool option"
  server_logger :: logger
  serveErr :: "http_error option"
  shutdown_requests :: nat

type_synonym server_option = "Server \<Rightarrow> Server"

text \<open>A listener is the address it is bound to.\<close>

definition WithListener :: "string option \<Rightarrow> server_option" where
  "WithListener l s = s\<lparr>listener := l\<rparr>"

definition WithLogger :: "logger option \<Rightarrow> server_option" where
  "WithLogger l s = (case l of None \<Rightarrow> s | Some lg \<Rightarrow> s\<lparr>server_logger := lg\<rparr>)"

definition New :: "Config \<Rightarrow> handler option \<Rightarrow> server_option list \<Rightarrow> Server" where
  "New c h opts =
     foldl (\<lambda>s opt. opt s)
       \<lparr>cfg = (if Addr c = [] then c\<lparr>Addr := '':8080''\<rparr> else c),
        server_handler = (case h of None \<Rightarrow> NotFoundHandler | Some x \<Rightarrow> x),
        listener = None, http_server = None, serve_done = None, server_logger = DefaultLogger, serveErr = None,
        shutdown_requests = 0\<rparr> opts"

definition Addr_of :: "Server \<Rightarrow> string option" where
  "Addr_of s = listener s"

subsection \<open>Start and Stop\<close>

text \<open>\<open>listen\<close>: what \<open>net.Listen\<close> gives for the configured address.\<close>

definition Start :: "(string \<Rightarrow> (nat, string) result) \<Rightarrow> Server \<Rightarrow> http_error option \<times> Server" where
  "Start listen s =
     (if http_server s \<noteq> None then (Some HttpAlreadyStarted, s)
      else
        let serve = (\<lambda>s'. (None, s'\<lparr>http_server := Some (cfg s', server_handler s'), serve_done := Some False\<rparr>)) in
        case listener s of
          Some l \<Rightarrow> serve s
        | None \<Rightarrow>
            (case listen (Addr (cfg s)) of
               Inl e \<Rightarrow> (Some (ListenFailed e), s)
             | Inr l \<Rightarrow> serve (s\<lparr>listener := Some l\<rparr>)))"

text \<open>
  The goroutine: an error of \<open>Serve\<close> other than \<open>http.ErrServerClosed\<close> is kept and the shutdown of the
  application requested; at the end the channel is closed. \<open>res\<close> is the error of \<open>Serve\<close>, \<open>None\<close> for
  \<open>http.ErrServerClosed\<close>.
\<close>

definition record_failure :: "nat \<Rightarrow> Server \<Rightarrow> Server" where
  "record_failure e s = s\<lparr>serveErr := Some (ServeFailed e)\<rparr>"

definition request_shutdown :: "Server \<Rightarrow> Server" where
  "request_shutdown s = s\<lparr>shutdown_requests := Suc (shutdown_requests s)\<rparr>"

definition close_done :: "Server \<Rightarrow> Server" where
  "close_done s = s\<lparr>serve_done := Some True\<rparr>"

definition serve_ends :: "nat option \<Rightarrow> Server \<Rightarrow> Server" where
  "serve_ends res s =
     (case res of None \<Rightarrow> close_done s | Some e \<Rightarrow> close_done (request_shutdown (record_failure e s)))"

text \<open>
  The wait of \<open>Stop\<close> for the goroutine, and what it makes of the error of \<open>Shutdown\<close>: \<open>ctx\<close> is the
  error of the context if that has ended, and \<open>pick\<close> which of the two the \<open>select\<close> takes when both have
  happened. \<open>None\<close>: neither has.
\<close>

definition await_serve :: "nat option \<Rightarrow> bool \<Rightarrow> http_error list \<Rightarrow> Server \<Rightarrow> http_error list option" where
  "await_serve ctx pick shutdownErr s =
     (if serve_done s = None \<or> serve_done s = Some True \<and> (ctx = None \<or> \<not> pick) then Some shutdownErr
      else map_option (\<lambda>e. shutdownErr @ [ContextErr e]) ctx)"

definition stop_errors :: "http_error list \<Rightarrow> http_error list \<Rightarrow> Server \<Rightarrow> http_error list" where
  "stop_errors shutdownErr closeErr s = shutdownErr @ closeErr @ leaves (serveErr s)"

text \<open>One \<open>Stop\<close>; \<open>served\<close> is the end of \<open>Serve\<close> if it comes while \<open>Stop\<close> waits.\<close>

definition Stop ::
  "nat option \<Rightarrow> nat option \<Rightarrow> nat option option \<Rightarrow> nat option \<Rightarrow> bool \<Rightarrow> Server \<Rightarrow> (http_error list \<times> Server) option"
where
  "Stop shutdown close served ctx pick s =
     (if http_server s = None then Some ([], s)
      else
        let shutdownErr = leaves (map_option ShutdownFailed shutdown);
            closeErr = (if shutdown \<noteq> None then leaves (map_option CloseFailed close) else []);
            s' = (case served of
                    Some res \<Rightarrow> if serve_done s = Some False then serve_ends res s else s
                  | None \<Rightarrow> s)
        in map_option (\<lambda>errs. (stop_errors errs closeErr s', s')) (await_serve ctx pick shutdownErr s'))"

lemmas serve_ops [step_defs] =
  record_failure_def request_shutdown_def close_done_def serve_ends_def await_serve_def stop_errors_def

subsection \<open>The echo server\<close>

record EchoServer =
  echo_cfg :: Config
  echo_listener :: "string option"
  transport :: "Server option"

definition echo_New :: "Config \<Rightarrow> EchoServer" where
  "echo_New c = \<lparr>echo_cfg = (if Addr c = [] then c\<lparr>Addr := '':8080''\<rparr> else c), echo_listener = None, transport = None\<rparr>"

definition echo_Start :: "nat \<Rightarrow> (string \<Rightarrow> (nat, string) result) \<Rightarrow> EchoServer \<Rightarrow> http_error option \<times> EchoServer" where
  "echo_Start router listen s =
     (let opts = (if echo_listener s \<noteq> None then [WithListener (echo_listener s)] else []);
          t = New \<lparr>Addr = Addr (echo_cfg s), ReadTimeout = ReadTimeout (echo_cfg s),
                   ReadHeaderTimeout = ReadHeaderTimeout (echo_cfg s), WriteTimeout = WriteTimeout (echo_cfg s),
                   IdleTimeout = IdleTimeout (echo_cfg s)\<rparr> (Some (Handler router)) opts
      in case Start listen t of (e, t') \<Rightarrow> (e, s\<lparr>transport := Some t'\<rparr>))"

definition echo_Stop ::
  "nat option \<Rightarrow> nat option \<Rightarrow> nat option option \<Rightarrow> nat option \<Rightarrow> bool \<Rightarrow> EchoServer \<Rightarrow> (http_error list \<times> EchoServer) option"
where
  "echo_Stop shutdown close served ctx pick s =
     (case transport s of
        None \<Rightarrow> Some ([], s)
      | Some t \<Rightarrow> map_option (\<lambda>(es, t'). (es, s\<lparr>transport := Some t'\<rparr>)) (Stop shutdown close served ctx pick t))"

subsection \<open>What the life cycle gives\<close>

lemma Start_running:
  assumes "Start listen s = (None, s')"
  shows "http_server s = None \<and> http_server s' = Some (cfg s, server_handler s) \<and> serve_done s' = Some False
       \<and> listener s' \<noteq> None \<and> (\<exists>e. fst (Start listen s') = Some e)"
  using assms by (cases "http_server s") (auto simp: Start_def Let_def split: if_splits option.splits sum.splits)

text \<open>
  A \<open>Stop\<close> that reports nothing has shut the server down and seen the goroutine end without an
  error; one whose context has not ended only returns after the goroutine has.
\<close>

lemma Stop_clean:
  assumes "Stop shutdown close served ctx pick s = Some (es, s')" and "http_server s \<noteq> None" and "serve_done s \<noteq> None"
  shows "(es = [] \<longrightarrow> shutdown = None \<and> serve_done s' = Some True \<and> serveErr s' = None)
       \<and> ((\<forall>e. ContextErr e \<notin> set es) \<longrightarrow> serve_done s' = Some True)
       \<and> (\<forall>e. serveErr s' = Some e \<longrightarrow> e \<in> set es)"
proof -
  define t where "t = (case served of Some res \<Rightarrow> if serve_done s = Some False then serve_ends res s else s | None \<Rightarrow> s)"
  have "serve_done t \<noteq> None" using assms(3) by (auto simp: t_def serve_ops split: option.splits)
  with assms(1,2) show ?thesis
    unfolding Stop_def t_def [symmetric] Let_def await_serve_def stop_errors_def
    by (cases "serve_done t = Some False") (auto split: if_splits)
qed

lemma echo_Start_once:
  "echo_Start router listen s = (None, s') \<Longrightarrow>
     \<exists>t. transport s' = Some t \<and> server_handler t = Handler router \<and> http_server t \<noteq> None
       \<and> (echo_listener s \<noteq> None \<longrightarrow> Addr_of t = echo_listener s)"
  by (auto simp: echo_Start_def Start_def New_def WithListener_def Addr_of_def Let_def
      split: if_splits option.splits sum.splits)

end
