(* ===== verification/HttpServing.thy ===== *)
theory HttpServing
  imports HttpServer
begin

text \<open>
  The server of HttpServer while it runs: the goroutine that \<open>Start\<close> leaves behind and any number
  of calls of \<open>Stop\<close>, interleaved step by step. \<open>Serve\<close> may fail at any time; it returns
  \<open>http.ErrServerClosed\<close> only after \<open>Shutdown\<close> or \<open>Close\<close>, as \<open>net/http\<close> documents.
\<close>

subsection \<open>The steps\<close>

datatype serve_pc = NotServing | Serving | Failing nat | Recorded | Leaving | Ended

datatype stop_pc =
    NoStop | NothingToStop | ShuttingDown
  | Awaiting "http_error list" "http_error list"
  | Joining "http_error list" "http_error list"
  | Stopped "http_error list"

text \<open>Ghost: \<open>failure\<close>, the error that \<open>Serve\<close> returned; \<open>shutting\<close>, that \<open>Shutdown\<close> has been called.\<close>

record serving =
  server :: Server
  serve :: serve_pc
  calls :: "stop_pc list"
  shutting :: bool
  failure :: "nat option"

definition set_call :: "nat \<Rightarrow> stop_pc \<Rightarrow> serving \<Rightarrow> serving" where
  "set_call i c w = w\<lparr>calls := (calls w)[i := c]\<rparr>"

definition at :: "nat \<Rightarrow> stop_pc \<Rightarrow> serving \<Rightarrow> bool" where
  "at i c w \<longleftrightarrow> i < length (calls w) \<and> calls w ! i = c"

text \<open>The application never calls \<open>Start\<close> while a \<open>Stop\<close> is under way.\<close>

fun quiescent :: "stop_pc \<Rightarrow> bool" where
  "quiescent NoStop = True"
| "quiescent NothingToStop = True"
| "quiescent (Stopped _) = True"
| "quiescent _ = False"

definition started :: "http_error option \<times> Server \<Rightarrow> serving \<Rightarrow> serving" where
  "started r w = w\<lparr>server := snd r, serve := if fst r = None then Serving else serve w\<rparr>"

inductive serving_step :: "serving \<Rightarrow> serving \<Rightarrow> bool" where
  start: "list_all quiescent (calls w) \<Longrightarrow> serving_step w (started (Start listen (server w)) w)"
| serve_closed: "serve w = Serving \<Longrightarrow> shutting w \<Longrightarrow> serving_step w (w\<lparr>serve := Leaving\<rparr>)"
| serve_fails: "serve w = Serving \<Longrightarrow> serving_step w (w\<lparr>serve := Failing e, failure := Some e\<rparr>)"
| records: "serve w = Failing e \<Longrightarrow> serving_step w (w\<lparr>serve := Recorded, server := record_failure e (server w)\<rparr>)"
| requests: "serve w = Recorded \<Longrightarrow> serving_step w (w\<lparr>serve := Leaving, server := request_shutdown (server w)\<rparr>)"
| closes: "serve w = Leaving \<Longrightarrow> serving_step w (w\<lparr>serve := Ended, server := close_done (server w)\<rparr>)"
| stop_nothing: "at i NoStop w \<Longrightarrow> http_server (server w) = None \<Longrightarrow> serving_step w (set_call i NothingToStop w)"
| stop: "at i NoStop w \<Longrightarrow> http_server (server w) \<noteq> None \<Longrightarrow>
    serving_step w (set_call i ShuttingDown (w\<lparr>shutting := True\<rparr>))"
| shut_down: "at i ShuttingDown w \<Longrightarrow> serving_step w (set_call i (Awaiting [] []) w)"
| shut_fails: "at i ShuttingDown w \<Longrightarrow>
    serving_step w (set_call i (Awaiting [ShutdownFailed e] (leaves (map_option CloseFailed c))) w)"
| awaits: "at i (Awaiting es cs) w \<Longrightarrow> await_serve ctx pick es (server w) = Some es' \<Longrightarrow>
    serving_step w (set_call i (Joining es' cs) w)"
| joins: "at i (Joining es cs) w \<Longrightarrow> serving_step w (set_call i (Stopped (stop_errors es cs (server w))) w)"

definition serving_init :: "Server \<Rightarrow> nat \<Rightarrow> serving" where
  "serving_init s k = \<lparr>server = s, serve = NotServing, calls = replicate k NoStop, shutting = False, failure = None\<rparr>"

subsection \<open>What every state satisfies\<close>

text \<open>A call that did not give up waiting has seen the goroutine end, and reports its failure.\<close>

fun call_ok :: "serving \<Rightarrow> stop_pc \<Rightarrow> bool" where
  "call_ok w NoStop = True"
| "call_ok w NothingToStop = True"
| "call_ok w ShuttingDown = (shutting w \<and> serve w \<noteq> NotServing)"
| "call_ok w (Awaiting es cs) = (shutting w \<and> serve w \<noteq> NotServing)"
| "call_ok w (Joining es cs) = (serve w \<noteq> NotServing \<and> ((\<forall>e. ContextErr e \<notin> set es) \<longrightarrow> serve w = Ended))"
| "call_ok w (Stopped es) =
     ((\<forall>e. ContextErr e \<notin> set es) \<longrightarrow> serve w = Ended \<and> (\<forall>e. failure w = Some e \<longrightarrow> ServeFailed e \<in> set es))"

text \<open>What the goroutine has written agrees with where it is.\<close>

definition written :: "Server \<Rightarrow> bool \<Rightarrow> nat option \<Rightarrow> nat \<Rightarrow> bool" where
  "written s ended err n \<longleftrightarrow>
     http_server s \<noteq> None \<and> serve_done s = Some ended \<and> serveErr s = map_option ServeFailed err \<and> shutdown_requests s = n"

fun phase_ok :: "serve_pc \<Rightarrow> Server \<Rightarrow> bool \<Rightarrow> nat option \<Rightarrow> bool" where
  "phase_ok NotServing s sh f =
     (f = None \<and> http_server s = None \<and> serve_done s = None \<and> serveErr s = None \<and> shutdown_requests s = 0)"
| "phase_ok Serving s sh f = (f = None \<and> written s False None 0)"
| "phase_ok (Failing e) s sh f = (f = Some e \<and> written s False None 0)"
| "phase_ok Recorded s sh f = (f \<noteq> None \<and> written s False f 0)"
| "phase_ok Leaving s sh f = ((f = None \<longrightarrow> sh) \<and> written s False f (of_bool (f \<noteq> None)))"
| "phase_ok Ended s sh f = ((f = None \<longrightarrow> sh) \<and> written s True f (of_bool (f \<noteq> None)))"

definition serving_ok :: "serving \<Rightarrow> bool" where
  "serving_ok w \<longleftrightarrow> phase_ok (serve w) (server w) (shutting w) (failure w) \<and> (\<forall>c \<in> set (calls w). call_ok w c)"

lemma set_call_simps [simp]:
  "server (set_call i c w) = server w" "serve (set_call i c w) = serve w" "shutting (set_call i c w) = shutting w"
  "failure (set_call i c w) = failure w" "length (calls (set_call i c w)) = length (calls w)"
  by (simp_all add: set_call_def)

lemma call_ok_calls [simp]: "call_ok (w\<lparr>calls := cs\<rparr>) c = call_ok w c" "call_ok (set_call i d w) c = call_ok w c"
  by (cases c; simp add: set_call_def)+

text \<open>A step of a call: the goroutine is where it was, and the call is right where it gets to.\<close>

lemma serving_ok_call:
  assumes "serving_ok w" and "call_ok w c"
  shows "serving_ok (set_call i c w)"
  using assms set_update_subset_insert [of "calls w" i c] by (auto simp: serving_ok_def set_call_def)

lemma serving_ok_at: "serving_ok w \<Longrightarrow> at i c w \<Longrightarrow> call_ok w c"
  by (auto simp: serving_ok_def at_def)

text \<open>A step of the goroutine.\<close>

lemma serving_ok_moves:
  assumes "serving_ok w" and "serve w \<notin> {NotServing, Ended}" and "serve v \<noteq> NotServing"
    and "phase_ok (serve v) (server v) (shutting v) (failure v)" and "shutting v = shutting w" and "calls v = calls w"
  shows "serving_ok v"
proof -
  have moves: "call_ok w c \<Longrightarrow> call_ok v c" for c using assms(2,3,5) by (cases c) auto
  have "\<forall>c \<in> set (calls v). call_ok v c" using assms(1,6) by (simp add: serving_ok_def moves)
  with assms(4) show ?thesis by (simp add: serving_ok_def)
qed

lemma started_ok:
  assumes "serving_ok w" and "list_all quiescent (calls w)"
  shows "serving_ok (started (Start listen (server w)) w)"
proof (cases "http_server (server w)")
  case None
  with assms(1) have idle: "serve w = NotServing"
    by (cases "serve w") (auto simp: serving_ok_def written_def)
  have "call_ok v c" if "call_ok w c" "quiescent c" for v c using that idle by (cases c) auto
  with assms idle show ?thesis
    by (auto simp: serving_ok_def list_all_iff started_def Start_def written_def Let_def split: option.split sum.split)
next
  case (Some x)
  then have "started (Start listen (server w)) w = w" by (simp add: started_def Start_def)
  with assms(1) show ?thesis by simp
qed

lemma await_serve_cases:
  "await_serve ctx pick es s = Some es' \<Longrightarrow> serve_done s \<noteq> None \<Longrightarrow>
     es' = es \<and> serve_done s = Some True \<or> (\<exists>e. es' = es @ [ContextErr e])"
  by (auto simp: await_serve_def split: if_splits)

lemma serving_step_ok: "serving_step w v \<Longrightarrow> serving_ok w \<Longrightarrow> serving_ok v"
proof (induction rule: serving_step.induct)
  case (start w listen)
  then show ?case by (simp add: started_ok)
next
  case (serve_closed w)
  then show ?case by - (rule serving_ok_moves [of w], auto simp: serving_ok_def)
next
  case (serve_fails w e)
  then show ?case by - (rule serving_ok_moves [of w], auto simp: serving_ok_def)
next
  case (records w e)
  then show ?case by - (rule serving_ok_moves [of w], auto simp: serving_ok_def written_def record_failure_def)
next
  case (requests w)
  then show ?case by - (rule serving_ok_moves [of w], auto simp: serving_ok_def written_def request_shutdown_def)
next
  case (closes w)
  then show ?case by - (rule serving_ok_moves [of w], auto simp: serving_ok_def written_def close_done_def)
next
  case (stop_nothing i w)
  then show ?case by - (rule serving_ok_call, simp_all)
next
  case (stop i w)
  have running: "serve w \<noteq> NotServing" using stop by (auto simp: serving_ok_def)
  have shut: "call_ok (w\<lparr>shutting := True\<rparr>) c" if "call_ok w c" for c using that by (cases c) auto
  have "phase_ok p s True f" if "phase_ok p s b f" for p s b f using that by (cases p) auto
  with shut stop(3) have "serving_ok (w\<lparr>shutting := True\<rparr>)" by (auto simp: serving_ok_def)
  then show ?case by (rule serving_ok_call) (simp add: running)
next
  case (shut_down i w)
  from serving_ok_at [OF shut_down(2,1)] have "call_ok w (Awaiting [] [])" by simp
  with shut_down(2) show ?case by (rule serving_ok_call)
next
  case (shut_fails i w e c)
  from serving_ok_at [OF shut_fails(2,1)] have "call_ok w (Awaiting es cs)" for es cs by simp
  with shut_fails(2) show ?case by (rule serving_ok_call)
next
  case (awaits i es cs w ctx pick es')
  from serving_ok_at [OF awaits(3,1)] have running: "serve w \<noteq> NotServing" by simp
  with awaits(3) have "serve_done (server w) \<noteq> None"
    and "serve_done (server w) = Some True \<Longrightarrow> serve w = Ended"
    by (cases "serve w"; simp add: serving_ok_def written_def)+
  with await_serve_cases [OF awaits(2)] running have "call_ok w (Joining es' cs)" by auto
  with awaits(3) show ?case by (rule serving_ok_call)
next
  case (joins i es cs w)
  from serving_ok_at [OF joins(2,1)] have "(\<forall>e. ContextErr e \<notin> set es) \<longrightarrow> serve w = Ended" by simp
  moreover have "serve w = Ended \<Longrightarrow> serveErr (server w) = map_option ServeFailed (failure w)"
    using joins(2) by (simp add: serving_ok_def written_def)
  ultimately have "call_ok w (Stopped (stop_errors es cs (server w)))" by (auto simp: stop_errors_def)
  with joins(2) show ?case by (rule serving_ok_call)
qed

interpretation serving: concurrent_machine serving_step serving_ok
  by unfold_locales (rule serving_step_ok)

subsection \<open>The contract\<close>

definition http_option :: "server_option \<Rightarrow> bool" where
  "http_option opt \<longleftrightarrow> (\<exists>l. opt = WithListener l) \<or> (\<exists>l. opt = WithLogger l)"

lemma fresh_serving:
  assumes "\<forall>opt \<in> set opts. http_option opt"
  shows "serving_ok (serving_init (New c h opts) k)"
proof -
  have "phase_ok NotServing (foldl (\<lambda>s opt. opt s) s opts) False None" if "phase_ok NotServing s False None" for s
    using assms that
    by (induction opts arbitrary: s) (auto simp: http_option_def WithListener_def WithLogger_def split: option.split)
  then show ?thesis by (simp add: serving_ok_def serving_init_def New_def)
qed

text \<open>
  C39 (safety): however the goroutine of the HTTP server and the calls of its \<open>Stop\<close> interleave,
  serving never ends unnoticed: once the goroutine is over, either a \<open>Stop\<close> was called, or \<open>Serve\<close>
  failed and the shutdown of the application was requested; it is requested only then, and once. A
  \<open>Stop\<close> that reports no end of its context returns after the goroutine, with the error of \<open>Serve\<close>
  if there was one.
\<close>

theorem serving_reported:
  assumes "serving_step\<^sup>*\<^sup>* (serving_init (New c h opts) k) w" and "\<forall>opt \<in> set opts. http_option opt"
  shows "(serve w = Ended \<longrightarrow> (if failure w = None then shutting w else shutdown_requests (server w) = 1))
       \<and> shutdown_requests (server w) \<le> of_bool (failure w \<noteq> None)
       \<and> (at i (Stopped es) w \<and> (\<forall>e. ContextErr e \<notin> set es) \<longrightarrow>
            serve w = Ended \<and> (\<forall>e. failure w = Some e \<longrightarrow> ServeFailed e \<in> set es))"
proof -
  have ok: "serving_ok w" by (rule serving.steps_inv [OF assms(1) fresh_serving [OF assms(2)]])
  then have "phase_ok (serve w) (server w) (shutting w) (failure w)" by (simp add: serving_ok_def)
  moreover from ok have "call_ok w (Stopped es)" if "at i (Stopped es) w" using that by (rule serving_ok_at)
  ultimately show ?thesis by (cases "serve w") (auto simp: written_def)
qed

text \<open>
  A \<open>Stop\<close> is never stuck: whatever the goroutine is doing when \<open>Shutdown\<close> has returned, it can come
  to its end, and then \<open>Stop\<close> returns, also if its context never ends.
\<close>

lemma serve_can_end:
  assumes "shutting w" and "serve w \<noteq> NotServing" and "serve w = Ended \<Longrightarrow> serve_done (server w) = Some True"
  shows "\<exists>v. serving_step\<^sup>*\<^sup>* w v \<and> serve_done (server v) = Some True \<and> calls v = calls w"
proof -
  have leaving: "\<exists>v. serving_step\<^sup>*\<^sup>* u v \<and> serve_done (server v) = Some True \<and> calls v = calls u" if "serve u = Leaving" for u
    using serving_step.closes [OF that] by (intro exI conjI, rule r_into_rtranclp) (simp_all add: close_done_def)
  have recorded: "\<exists>v. serving_step\<^sup>*\<^sup>* u v \<and> serve_done (server v) = Some True \<and> calls v = calls u" if "serve u = Recorded" for u
    using serving_step.requests [OF that] leaving [of "u\<lparr>serve := Leaving, server := request_shutdown (server u)\<rparr>"]
    by (auto intro: converse_rtranclp_into_rtranclp)
  show ?thesis
  proof (cases "serve w")
    case Serving
    with serving_step.serve_closed [OF _ assms(1)] leaving [of "w\<lparr>serve := Leaving\<rparr>"] show ?thesis
      by (auto intro: converse_rtranclp_into_rtranclp)
  next
    case (Failing e)
    with serving_step.records [OF Failing] recorded [of "w\<lparr>serve := Recorded, server := record_failure e (server w)\<rparr>"]
    show ?thesis by (auto intro: converse_rtranclp_into_rtranclp)
  qed (use assms leaving recorded in auto)
qed

lemma stop_not_stuck:
  assumes "serving_ok w" and "at i (Awaiting es cs) w"
  shows "\<exists>v es'. serving_step\<^sup>*\<^sup>* w v \<and> at i (Stopped es') v"
proof -
  from serving_ok_at [OF assms] have "shutting w" "serve w \<noteq> NotServing" by simp_all
  moreover have "serve w = Ended \<Longrightarrow> serve_done (server w) = Some True" using assms(1) by (simp add: serving_ok_def written_def)
  ultimately obtain u where u: "serving_step\<^sup>*\<^sup>* w u" "serve_done (server u) = Some True" "calls u = calls w"
    using serve_can_end by blast
  have "serving_step u (set_call i (Joining es cs) u)"
    by (rule serving_step.awaits [where ctx = None and pick = False]) (use assms(2) u in \<open>simp_all add: at_def await_serve_def\<close>)
  moreover have at: "at i (Joining es cs) (set_call i (Joining es cs) u)" using assms(2) u by (simp add: at_def set_call_def)
  moreover note serving_step.joins [OF at]
  moreover have "at i (Stopped es') (set_call i (Stopped es') (set_call i (Joining es cs) u))" for es'
    using assms(2) u by (simp add: at_def set_call_def)
  ultimately show ?thesis using u(1) by (meson rtranclp.rtrancl_into_rtrancl)
qed

text \<open>
  The \<open>Stop\<close> of HttpServer, one call as a whole, gives what a run of the steps gives; the goroutine
  is in \<open>Serve\<close> or over when it begins.
\<close>

lemma serve_ends_run:
  assumes "serve w = Serving" and "res = None \<longrightarrow> shutting w"
  shows "\<exists>v. serving_step\<^sup>*\<^sup>* w v \<and> server v = serve_ends res (server w) \<and> calls v = calls w"
proof (cases res)
  case None
  let ?l = "w\<lparr>serve := Leaving\<rparr>"
  let ?e = "?l\<lparr>serve := Ended, server := close_done (server ?l)\<rparr>"
  have "serving_step w ?l" using serving_step.serve_closed [OF assms(1)] assms(2) None by simp
  moreover have "serving_step ?l ?e" by (rule serving_step.closes) simp
  ultimately have "serving_step\<^sup>*\<^sup>* w ?e" by (meson r_into_rtranclp rtranclp.rtrancl_into_rtrancl)
  then show ?thesis using None by (intro exI [of _ ?e]) (simp add: serve_ends_def)
next
  case (Some e)
  let ?f = "w\<lparr>serve := Failing e, failure := Some e\<rparr>"
  let ?r = "?f\<lparr>serve := Recorded, server := record_failure e (server ?f)\<rparr>"
  let ?l = "?r\<lparr>serve := Leaving, server := request_shutdown (server ?r)\<rparr>"
  let ?e = "?l\<lparr>serve := Ended, server := close_done (server ?l)\<rparr>"
  have "serving_step w ?f" by (rule serving_step.serve_fails [OF assms(1)])
  moreover have "serving_step ?f ?r" by (rule serving_step.records) simp
  moreover have "serving_step ?r ?l" by (rule serving_step.requests) simp
  moreover have "serving_step ?l ?e" by (rule serving_step.closes) simp
  ultimately have "serving_step\<^sup>*\<^sup>* w ?e" by (meson r_into_rtranclp rtranclp.rtrancl_into_rtrancl)
  then show ?thesis using Some by (intro exI [of _ ?e]) (simp add: serve_ends_def)
qed

lemma Stop_run:
  assumes "Stop shutdown close served ctx pick (server w) = Some (es, s')" and "http_server (server w) \<noteq> None"
    and "at i NoStop w" and "serve_done (server w) = Some False \<longrightarrow> serve w = Serving"
  shows "\<exists>v. serving_step\<^sup>*\<^sup>* w v \<and> at i (Stopped es) v \<and> server v = s'"
proof -
  define se where "se = leaves (map_option ShutdownFailed shutdown)"
  define ce where "ce = (if shutdown \<noteq> None then leaves (map_option CloseFailed close) else [])"
  define w1 where "w1 = set_call i ShuttingDown (w\<lparr>shutting := True\<rparr>)"
  define w2 where "w2 = set_call i (Awaiting se ce) w1"
  have 1: "serving_step w w1" unfolding w1_def by (rule serving_step.stop [OF assms(3,2)])
  have at1: "at i ShuttingDown w1" using assms(3) by (simp add: w1_def at_def set_call_def)
  have 2: "serving_step w1 w2"
    unfolding w2_def se_def ce_def
    using serving_step.shut_down [OF at1] serving_step.shut_fails [OF at1, of _ close] by (cases shutdown) auto
  define s2 where "s2 = (case served of Some res \<Rightarrow> if serve_done (server w) = Some False then serve_ends res (server w) else server w
                          | None \<Rightarrow> server w)"
  have w2: "server w2 = server w" "shutting w2" "serve w2 = serve w" by (simp_all add: w2_def w1_def)
  have "\<exists>v. serving_step\<^sup>*\<^sup>* w2 v \<and> server v = s2 \<and> calls v = calls w2"
    using serve_ends_run [of w2] assms(4) w2 by (auto simp: s2_def split: option.split)
  then obtain w3 where 3: "serving_step\<^sup>*\<^sup>* w2 w3" "server w3 = s2" "calls w3 = calls w2" by blast
  from assms(1,2) obtain es' where es': "await_serve ctx pick se s2 = Some es'" "es = stop_errors es' ce s2" "s' = s2"
    unfolding Stop_def s2_def [symmetric] se_def [symmetric] ce_def [symmetric] Let_def by auto
  have at3: "at i (Awaiting se ce) w3" using assms(3) 3(3) by (simp add: at_def w2_def w1_def set_call_def)
  define w4 where "w4 = set_call i (Joining es' ce) w3"
  have 4: "serving_step w3 w4" unfolding w4_def using serving_step.awaits [OF at3] es'(1) 3(2) by blast
  have at4: "at i (Joining es' ce) w4" using at3 by (simp add: at_def w4_def set_call_def)
  define w5 where "w5 = set_call i (Stopped es) w4"
  have 5: "serving_step w4 w5"
    unfolding w5_def using serving_step.joins [OF at4] es'(2) 3(2) by (simp add: w4_def)
  have "at i (Stopped es) w5 \<and> server w5 = s'" using at4 es'(3) 3(2) by (simp add: at_def w5_def w4_def set_call_def)
  moreover have "serving_step\<^sup>*\<^sup>* w w5"
    using 1 2 3(1) 4 5 by (meson converse_rtranclp_into_rtranclp rtranclp.rtrancl_into_rtrancl)
  ultimately show ?thesis by blast
qed

subsection \<open>Witness\<close>

text \<open>A server whose \<open>Serve\<close> fails, and is stopped after that.\<close>

definition small_http :: HttpServer.Config where
  "small_http = \<lparr>Addr = '':80'', ReadTimeout = 0, ReadHeaderTimeout = 0, WriteTimeout = 0, IdleTimeout = 0\<rparr>"

definition failed_server :: Server where
  "failed_server = serve_ends (Some 7) (snd (Start (\<lambda>a. Inr a) (New small_http None [])))"

lemma failed_server_fields:
  "http_server failed_server \<noteq> None" "serve_done failed_server = Some True"
  "serveErr failed_server = Some (ServeFailed 7)"
  by (simp_all add: failed_server_def serve_ops Start_def New_def small_http_def)

theorem serving_reported_witness:
  "\<exists>w. at 0 (Stopped [ServeFailed 7]) w \<and> server w = failed_server \<and> serve w = Ended \<and> failure w \<in> {None, Some 7}"
proof -
  let ?w0 = "serving_init (New small_http None []) 1"
  define w1 where "w1 = started (Start (\<lambda>a. Inr a) (server ?w0)) ?w0"
  have 1: "serving_step ?w0 w1" unfolding w1_def by (rule serving_step.start) (simp add: serving_init_def)
  have w1: "serve w1 = Serving" "calls w1 = [NoStop]" "server w1 = snd (Start (\<lambda>a. Inr a) (New small_http None []))"
    by (simp_all add: w1_def started_def serving_init_def Start_def New_def small_http_def)
  obtain w2 where 2: "serving_step\<^sup>*\<^sup>* w1 w2" "server w2 = failed_server" "calls w2 = [NoStop]"
    using serve_ends_run [OF w1(1), of "Some 7"] w1(2,3) by (auto simp: failed_server_def)
  have "Stop None None None None False (server w2) = Some ([ServeFailed 7], failed_server)"
    using failed_server_fields by (simp add: 2(2) Stop_def await_serve_def stop_errors_def)
  then obtain w3 where 3: "serving_step\<^sup>*\<^sup>* w2 w3" "at 0 (Stopped [ServeFailed 7]) w3" "server w3 = failed_server"
    using Stop_run [of None None None None False w2 _ _ 0] failed_server_fields(1,2) 2(2,3) by (auto simp: at_def)
  have "serving_step\<^sup>*\<^sup>* ?w0 w3" using 1 2(1) 3(1) by (meson converse_rtranclp_into_rtranclp rtranclp_trans)
  from serving_reported [OF this, where es = "[ServeFailed 7]"] 3(2)
  have "serve w3 = Ended" and "\<forall>e. failure w3 = Some e \<longrightarrow> e = 7" by simp_all
  then have "serve w3 = Ended \<and> failure w3 \<in> {None, Some 7}" by (cases "failure w3") simp_all
  with 3(2,3) show ?thesis by blast
qed

end
