(* ===== verification/ProcessControl.thy ===== *)
theory ProcessControl
  imports Process
begin

text \<open>
  How a process of \<open>process/process.go\<close> comes to its end: the context that \<open>Start\<close> makes from the
  caller's and the timeout, \<open>cmd.Cancel\<close> and \<open>cmd.WaitDelay\<close>, \<open>Stop\<close> and \<open>Kill\<close>, with \<open>cancelProcess\<close>
  of both platforms. \<open>os/exec\<close> is modelled as it is documented: when the context ends it calls
  \<open>Cancel\<close>, and when the child or somebody who holds its pipes is still there after \<open>WaitDelay\<close>, it
  kills the child and closes the pipes. Times are in nanoseconds since the start of the process;
  up to the return of \<open>cmd.Wait\<close> the steps of the program take none, and \<open>collect\<close> reads the context
  twice at any times after that.
\<close>

subsection \<open>Start\<close>

record spec =
  Path :: string
  Timeout :: int
  KillTimeout :: int

datatype ctx_error = ContextCanceled | DeadlineExceeded

text \<open>A context that ends: when, and with which error.\<close>

type_synonym ctx_end = "(int \<times> ctx_error) option"

definition defaultKillTimeout :: int where "defaultKillTimeout = 2000000000"

definition wait_delay :: "spec \<Rightarrow> int" where
  "wait_delay sp = (if KillTimeout sp \<le> 0 then defaultKillTimeout else KillTimeout sp)"

text \<open>\<open>context.WithTimeout\<close> and \<open>context.WithCancel\<close>; \<open>collect\<close> cancels it only after \<open>Wait\<close>.\<close>

definition cmd_context :: "spec \<Rightarrow> ctx_end \<Rightarrow> ctx_end" where
  "cmd_context sp caller =
     (if Timeout sp > 0 then
        (case caller of
           Some (t, e) \<Rightarrow> if t \<le> Timeout sp then Some (t, e) else Some (Timeout sp, DeadlineExceeded)
         | None \<Rightarrow> Some (Timeout sp, DeadlineExceeded))
      else caller)"

datatype start_refusal = NoPath | EndedContext ctx_error | CommandFailed nat

text \<open>\<open>cmd.Start\<close> refuses a context that has ended; \<open>spawn\<close> is the error of the system.\<close>

definition Start_control :: "nat option \<Rightarrow> spec \<Rightarrow> ctx_end \<Rightarrow> (start_refusal, ctx_end \<times> int) result" where
  "Start_control spawn sp caller =
     (if Path sp = [] then Inl NoPath
      else case cmd_context sp caller of
        Some (t, e) \<Rightarrow>
          if t \<le> 0 then Inl (EndedContext e)
          else (case spawn of Some n \<Rightarrow> Inl (CommandFailed n) | None \<Rightarrow> Inr (Some (t, e), wait_delay sp))
      | None \<Rightarrow> (case spawn of Some n \<Rightarrow> Inl (CommandFailed n) | None \<Rightarrow> Inr (None, wait_delay sp)))"

subsection \<open>Signals\<close>

datatype platform = Unix | Windows

datatype signal = Interrupt | KillSignal

definition cancelProcess :: "platform \<Rightarrow> signal" where
  "cancelProcess os = (case os of Unix \<Rightarrow> Interrupt | Windows \<Rightarrow> KillSignal)"

text \<open>
  A child: when it exits by itself, how long after an interrupt (if it heeds one), how long after
  its end another process holds its pipes, and its exit code by itself and by signal.
\<close>

record child =
  by_itself :: "int option"
  heeds :: "int option"
  pipes_held :: "int option"   \<comment> \<open>\<open>None\<close>: for ever\<close>
  own_code :: int
  signal_code :: int

text \<open>
  The program's calls on the process. Each sends its signal to a child that is still there; on
  one that has ended it does nothing to the child.
\<close>

datatype call = Stop | Kill

definition call_signal :: "platform \<Rightarrow> call \<Rightarrow> signal" where
  "call_signal os c = (case c of Stop \<Rightarrow> cancelProcess os | Kill \<Rightarrow> KillSignal)"

fun earlier :: "int option \<Rightarrow> int option \<Rightarrow> int option" where
  "earlier None y = y"
| "earlier x None = x"
| "earlier (Some a) (Some b) = Some (min a b)"

definition ends_by :: "child \<Rightarrow> int \<times> signal \<Rightarrow> int option" where
  "ends_by c s = (case s of (t, Interrupt) \<Rightarrow> map_option (\<lambda>d. t + d) (heeds c) | (t, KillSignal) \<Rightarrow> Some t)"

definition exit_time :: "child \<Rightarrow> (int \<times> signal) list \<Rightarrow> int option" where
  "exit_time c sigs = foldr (\<lambda>s x. earlier (ends_by c s) x) sigs (by_itself c)"

subsection \<open>Waiting\<close>

definition context_signals :: "platform \<Rightarrow> int \<Rightarrow> ctx_end \<Rightarrow> (int \<times> signal) list" where
  "context_signals os delay ctx =
     (case ctx of None \<Rightarrow> [] | Some (d, _) \<Rightarrow> [(d, cancelProcess os), (d + delay, KillSignal)])"

definition all_signals :: "platform \<Rightarrow> int \<Rightarrow> ctx_end \<Rightarrow> (int \<times> call) list \<Rightarrow> (int \<times> signal) list" where
  "all_signals os delay ctx calls = map (\<lambda>(t, c). (t, call_signal os c)) calls @ context_signals os delay ctx"

text \<open>
  When the copying of the output is over, for a child that exits at \<open>x\<close>: at the end of the pipes,
  or when the timer closes them, which runs from the end of the context if that came first.
\<close>

definition copying_ends :: "child \<Rightarrow> int \<Rightarrow> ctx_end \<Rightarrow> int \<Rightarrow> int" where
  "copying_ends c delay ctx x =
     (let limit = (case ctx of Some (d, _) \<Rightarrow> if d \<le> x then d + delay else x + delay | None \<Rightarrow> x + delay)
      in case pipes_held c of None \<Rightarrow> limit | Some h \<Rightarrow> min (x + h) limit)"

datatype wait_error = ExitError int | CtxError ctx_error | ErrWaitDelay

record wait_result =
  wait_exit :: int
  wait_end :: int
  wait_code :: int
  wait_error :: "wait_error option"

text \<open>\<open>cmd.Wait\<close>; \<open>None\<close> when the child never ends. A child that a signal ended has its code.\<close>

definition cmd_Wait :: "platform \<Rightarrow> child \<Rightarrow> int \<Rightarrow> ctx_end \<Rightarrow> (int \<times> call) list \<Rightarrow> wait_result option" where
  "cmd_Wait os c delay ctx calls =
     (case exit_time c (all_signals os delay ctx calls) of
        None \<Rightarrow> None
      | Some x \<Rightarrow>
          (let code = (if by_itself c = Some x then own_code c else signal_code c);
               e = copying_ends c delay ctx x;
               cut = (case pipes_held c of None \<Rightarrow> True | Some h \<Rightarrow> e < x + h);
               canceled = (case ctx of Some (d, err) \<Rightarrow> if d \<le> x then Some err else None | None \<Rightarrow> None)
           in Some \<lparr>wait_exit = x, wait_end = e, wait_code = code,
                    wait_error = (if code \<noteq> 0 then Some (ExitError code)
                                  else case canceled of
                                    Some err \<Rightarrow> Some (CtxError err)
                                  | None \<Rightarrow> if cut then Some ErrWaitDelay else None)\<rparr>))"

text \<open>
  \<open>collect\<close>: it reads the context's error after \<open>Wait\<close>, at \<open>now1\<close>, for the error of the result, and
  again at \<open>now2\<close> for \<open>Canceled\<close>. Errors are the numbers that \<open>result_of\<close> takes.
\<close>

definition ctx_number :: "ctx_error \<Rightarrow> nat" where
  "ctx_number e = (case e of ContextCanceled \<Rightarrow> 1 | DeadlineExceeded \<Rightarrow> 2)"

definition wait_number :: "wait_error \<Rightarrow> nat" where
  "wait_number e = (case e of ExitError _ \<Rightarrow> 0 | CtxError c \<Rightarrow> ctx_number c | ErrWaitDelay \<Rightarrow> 3)"

definition ctx_Err :: "ctx_end \<Rightarrow> int \<Rightarrow> nat option" where
  "ctx_Err ctx now = (case ctx of Some (d, e) \<Rightarrow> if d \<le> now then Some (ctx_number e) else None | None \<Rightarrow> None)"

definition collect_result :: "int \<Rightarrow> ctx_end \<Rightarrow> int \<Rightarrow> int \<Rightarrow> wait_result \<Rightarrow> proc_result" where
  "collect_result i ctx now1 now2 w =
     result_of i (map_option wait_number (wait_error w)) (ctx_Err ctx now1) (ctx_Err ctx now2) (wait_code w)"

subsection \<open>Ends\<close>

lemma earlier_None [simp]: "earlier x None = x"
  by (cases x) simp_all

lemma earlier_Some_le:
  "\<exists>z. earlier (Some a) y = Some z \<and> z \<le> a" "\<exists>z. earlier x (Some b) = Some z \<and> z \<le> b"
  by (cases y; simp) (cases x; simp)

lemma exit_time_simps [simp]:
  "exit_time c [] = by_itself c"
  "exit_time c (s # sigs) = earlier (ends_by c s) (exit_time c sigs)"
  by (simp_all add: exit_time_def)

lemma exit_time_by:
  "s \<in> set sigs \<Longrightarrow> ends_by c s = Some t \<Longrightarrow> \<exists>x. exit_time c sigs = Some x \<and> x \<le> t"
proof (induction sigs)
  case (Cons r sigs)
  show ?case
  proof (cases "s = r")
    case True
    with Cons.prems(2) show ?thesis using earlier_Some_le(1) [of t] by auto
  next
    case False
    with Cons obtain x where "exit_time c sigs = Some x" "x \<le> t" by auto
    then show ?thesis using earlier_Some_le(2) [of "ends_by c r" x] by (auto intro: order_trans)
  qed
qed simp

lemma exit_time_natural: "by_itself c = Some t \<Longrightarrow> \<exists>x. exit_time c sigs = Some x \<and> x \<le> t"
proof (induction sigs)
  case (Cons r sigs)
  then obtain x where "exit_time c sigs = Some x" "x \<le> t" by auto
  then show ?case using earlier_Some_le(2) [of "ends_by c r" x] by (auto intro: order_trans)
qed simp

lemma wait_delay_positive: "0 < wait_delay sp"
  by (simp add: wait_delay_def defaultKillTimeout_def)

lemma copying_bound:
  assumes "0 \<le> delay"
  shows "copying_ends c delay ctx x \<le> x + delay"
    and "ctx = Some (d, e) \<Longrightarrow> x \<le> d + delay \<Longrightarrow> copying_ends c delay ctx x \<le> d + delay"
  using assms by (auto simp: copying_ends_def Let_def split: option.split)

lemma cmd_Wait_at:
  assumes "exit_time c (all_signals os delay ctx calls) = Some x"
  obtains w where "cmd_Wait os c delay ctx calls = Some w" "wait_exit w = x" "wait_end w = copying_ends c delay ctx x"
  using assms by (simp add: cmd_Wait_def Let_def)

subsection \<open>The contract\<close>

lemma Wait_bounds:
  assumes "Start_control spawn sp caller = Inr (ctx, delay)"
  shows "0 < delay"
    and "ctx = Some (d, e) \<Longrightarrow> \<exists>w. cmd_Wait os c delay ctx calls = Some w \<and> wait_exit w \<le> d + delay \<and> wait_end w \<le> d + delay
           \<and> (\<forall>r. os = Unix \<and> heeds c = Some r \<longrightarrow> wait_exit w \<le> d + r)"
    and "ctx = Some (d, e) \<Longrightarrow> 0 < Timeout sp \<Longrightarrow> d \<le> Timeout sp"
    and "(t, Kill) \<in> set calls \<Longrightarrow> \<exists>w. cmd_Wait os c delay ctx calls = Some w \<and> wait_exit w \<le> t"
    and "cmd_Wait os c delay ctx calls = Some w \<Longrightarrow> wait_end w \<le> wait_exit w + delay"
proof -
  have start: "delay = wait_delay sp" "ctx = cmd_context sp caller"
    using assms by (auto simp: Start_control_def split: if_splits option.splits)
  show pos: "0 < delay" by (simp add: start wait_delay_positive)
  let ?sigs = "all_signals os delay ctx calls"
  show "\<exists>w. cmd_Wait os c delay ctx calls = Some w \<and> wait_exit w \<le> d + delay \<and> wait_end w \<le> d + delay
           \<and> (\<forall>r. os = Unix \<and> heeds c = Some r \<longrightarrow> wait_exit w \<le> d + r)" if ctx: "ctx = Some (d, e)"
  proof -
    have "(d + delay, KillSignal) \<in> set ?sigs" by (simp add: all_signals_def context_signals_def ctx)
    from exit_time_by [OF this] obtain x where x: "exit_time c ?sigs = Some x" "x \<le> d + delay"
      by (auto simp: ends_by_def)
    obtain w where w: "cmd_Wait os c delay ctx calls = Some w" "wait_exit w = x" "wait_end w = copying_ends c delay ctx x"
      by (rule cmd_Wait_at [OF x(1)])
    have "x \<le> d + r" if "os = Unix" "heeds c = Some r" for r
      using exit_time_by [of "(d, Interrupt)" ?sigs c "d + r"] that x(1)
      by (simp add: all_signals_def context_signals_def ctx ends_by_def cancelProcess_def)
    then show ?thesis using x(2) w copying_bound(2) [OF _ ctx x(2)] pos by auto
  qed
  show "d \<le> Timeout sp" if "ctx = Some (d, e)" "0 < Timeout sp"
    using that by (auto simp: start(2) cmd_context_def split: option.splits if_splits)
  show "\<exists>w. cmd_Wait os c delay ctx calls = Some w \<and> wait_exit w \<le> t" if kill: "(t, Kill) \<in> set calls"
  proof -
    from kill have "(t, KillSignal) \<in> set ?sigs" by (force simp: all_signals_def call_signal_def)
    from exit_time_by [OF this] obtain x where "exit_time c ?sigs = Some x" "x \<le> t" by (auto simp: ends_by_def)
    then show ?thesis by (metis cmd_Wait_at)
  qed
  assume w: "cmd_Wait os c delay ctx calls = Some w"
  then obtain x where x: "exit_time c ?sigs = Some x" by (auto simp: cmd_Wait_def split: option.splits)
  from cmd_Wait_at [OF this] w have at: "wait_exit w = x" "wait_end w = copying_ends c delay ctx x" by auto
  then show "wait_end w \<le> wait_exit w + delay" using copying_bound(1) pos by simp
qed

lemma collect_result_Canceled: "Canceled (collect_result i ctx now1 now2 w) \<longleftrightarrow> (\<exists>d e. ctx = Some (d, e) \<and> d \<le> now2)"
  by (auto simp: collect_result_def result_of_def ctx_Err_def split: option.split)

text \<open>
  What a result without an error says. It may still be \<open>Canceled\<close>: when the context ended between
  the two readings.
\<close>

lemma collect_result_ok:
  assumes "cmd_Wait os c delay ctx calls = Some w" and "result_Err (collect_result i ctx now1 now2 w) = []"
  shows "result_ExitCode (collect_result i ctx now1 now2 w) = 0"
    and "\<exists>h. pipes_held c = Some h \<and> wait_end w = wait_exit w + h"
    and "ctx = Some (d, e) \<Longrightarrow> now1 < d"
proof -
  obtain x where x: "exit_time c (all_signals os delay ctx calls) = Some x"
    using assms(1) by (auto simp: cmd_Wait_def split: option.splits)
  from cmd_Wait_at [OF this] assms(1) have at: "wait_exit w = x" "wait_end w = copying_ends c delay ctx x" by auto
  from assms(2) have none: "ctx_Err ctx now1 = None" "wait_error w = None"
    by (auto simp: collect_result_def result_of_def leaves_def split: option.splits)
  from none(2) x assms(1) have "wait_code w = 0" "\<exists>h. pipes_held c = Some h \<and> x + h \<le> wait_end w"
    by (auto simp: cmd_Wait_def Let_def split: option.splits if_splits)
  moreover have "wait_end w \<le> x + h" if "pipes_held c = Some h" for h
    using that by (simp add: at copying_ends_def Let_def)
  ultimately show "result_ExitCode (collect_result i ctx now1 now2 w) = 0"
    and "\<exists>h. pipes_held c = Some h \<and> wait_end w = wait_exit w + h"
    using at(1) by (auto simp: collect_result_def result_of_def intro: antisym)
  show "now1 < d" if "ctx = Some (d, e)"
    using none(1) that by (simp add: ctx_Err_def split: if_splits)
qed

text \<open>
  C19 (bounds): a process whose context ends, by the timeout or by the caller, is over and
  \<open>cmd.Wait\<close> has returned within the kill timeout after that, whatever the child ignores and whoever
  holds its pipes; a child that heeds an interrupt has that long after the signal. Where no such
  end comes, \<open>Wait\<close> returns within the kill timeout after the child's end, which \<open>Kill\<close> brings about at
  once. The kill timeout is positive whatever the configuration says. A result without an error
  is that of a child that exited with code 0, with its output complete, and its context had not
  ended when \<open>collect\<close> first read it; a result is \<open>Canceled\<close> exactly if the context had ended when
  \<open>collect\<close> read it again, so that one without an error is \<open>Canceled\<close> only if it ended in between.
\<close>

theorem Wait_bounded:
  assumes "Start_control spawn sp caller = Inr (ctx, delay)"
  shows "0 < delay
       \<and> (\<forall>d e. ctx = Some (d, e) \<longrightarrow>
            (\<exists>w. cmd_Wait os c delay ctx calls = Some w \<and> wait_exit w \<le> d + delay \<and> wait_end w \<le> d + delay
               \<and> (\<forall>r. os = Unix \<and> heeds c = Some r \<longrightarrow> wait_exit w \<le> d + r))
            \<and> (0 < Timeout sp \<longrightarrow> d \<le> Timeout sp))
       \<and> (\<forall>t. (t, Kill) \<in> set calls \<longrightarrow> (\<exists>w. cmd_Wait os c delay ctx calls = Some w \<and> wait_exit w \<le> t))
       \<and> (\<forall>w. cmd_Wait os c delay ctx calls = Some w \<longrightarrow>
            wait_end w \<le> wait_exit w + delay
            \<and> (\<forall>now1 now2. wait_end w \<le> now1 \<and> now1 \<le> now2 \<longrightarrow>
                 (Canceled (collect_result i ctx now1 now2 w) \<longleftrightarrow> (\<exists>d e. ctx = Some (d, e) \<and> d \<le> now2))
                 \<and> (result_Err (collect_result i ctx now1 now2 w) = [] \<longrightarrow>
                      result_ExitCode (collect_result i ctx now1 now2 w) = 0
                      \<and> (\<exists>h. pipes_held c = Some h \<and> wait_end w = wait_exit w + h)
                      \<and> (\<forall>d e. ctx = Some (d, e) \<longrightarrow> now1 < d))))"
  by (intro conjI allI impI Wait_bounds [OF assms])
    (auto simp: collect_result_Canceled intro: Wait_bounds(5) [OF assms] collect_result_ok)

subsection \<open>Witness\<close>

text \<open>A child that runs for ever, ignores interrupts, and has five seconds.\<close>

definition stubborn :: child where
  "stubborn = \<lparr>by_itself = None, heeds = None, pipes_held = None, own_code = 0, signal_code = -1\<rparr>"

definition five_seconds :: spec where
  "five_seconds = \<lparr>Path = ''/bin/sleep'', Timeout = 5000000000, KillTimeout = 0\<rparr>"

theorem Wait_bounded_witness:
  "\<exists>w. cmd_Wait Unix stubborn 2000000000 (Some (5000000000, DeadlineExceeded)) [(1, Stop)] = Some w \<and> wait_end w \<le> 7000000000"
proof -
  have "Start_control None five_seconds None = Inr (Some (5000000000, DeadlineExceeded), 2000000000)"
    by (simp add: Start_control_def cmd_context_def five_seconds_def wait_delay_def defaultKillTimeout_def)
  from Wait_bounded [OF this, of Unix stubborn "[(1, Stop)]"] obtain w where
    "cmd_Wait Unix stubborn 2000000000 (Some (5000000000, DeadlineExceeded)) [(1, Stop)] = Some w"
    "wait_end w \<le> 5000000000 + 2000000000" by blast
  then show ?thesis by simp
qed

end
