(* ===== verification/EchoExample.thy ===== *)
theory EchoExample
  imports StrictDecode
begin

text \<open>
  \<open>examples/localgateway-echo/main.go\<close>: the handler of the echo gateway, the client's call, and the
  choice between the two. The JSON of a message is an argument, as encoding by reflection is
  elsewhere; the reading of the request is that of \<open>io.ReadAll\<close> on \<open>io.LimitReader\<close>.
\<close>

subsection \<open>Messages\<close>

text \<open>
  \<open>marshal_message\<close>: \<open>json.Marshal\<close>, and what \<open>json.Encoder\<close> writes before its newline.
  \<open>decode_message\<close>: \<open>Decode\<close> of a decoder on some bytes, with or without \<open>DisallowUnknownFields\<close>:
  the message and the bytes that were not used.
\<close>

record codec =
  marshal_message :: "string \<Rightarrow> (nat, string) result"
  decode_message :: "bool \<Rightarrow> string \<Rightarrow> (nat, string \<times> string) result"

text \<open>A second \<open>Decode\<close> gives \<open>io.EOF\<close> exactly when nothing but white space is left.\<close>

definition json_space :: "char \<Rightarrow> bool" where
  "json_space c \<longleftrightarrow> c \<in> {CHR '' '', CHR 0x09, CHR 0x0A, CHR 0x0D}"

definition at_EOF :: "string \<Rightarrow> bool" where
  "at_EOF rest \<longleftrightarrow> list_all json_space rest"

definition line_feed :: char where "line_feed = CHR 0x0A"

subsection \<open>The handler\<close>

record response =
  status :: int
  body :: string

definition invalid_message :: response where
  "invalid_message = \<lparr>status = 400, body = ''invalid message'' @ [line_feed]\<rparr>"

definition echo_data :: "codec \<Rightarrow> string \<Rightarrow> response" where
  "echo_data codec data =
     (if length data > 4096 then invalid_message
      else case decode_message codec True data of
        Inl _ \<Rightarrow> invalid_message
      | Inr (msg, rest) \<Rightarrow>
          if msg = [] \<or> \<not> at_EOF rest then invalid_message
          else \<lparr>status = 200, body = (case marshal_message codec msg of Inl _ \<Rightarrow> [] | Inr out \<Rightarrow> out @ [line_feed])\<rparr>)"

text \<open>\<open>None\<close>: the request body never ends.\<close>

definition echo_handler :: "codec \<Rightarrow> (nat \<Rightarrow> nat) \<Rightarrow> 'r read \<Rightarrow> 'r \<Rightarrow> (response \<times> 'r) option" where
  "echo_handler codec spare rd r =
     (case read_all (limited_read rd) spare [] (r, 4097) of
        None \<Rightarrow> None
      | Some (Inl _, (r', N)) \<Rightarrow> Some (invalid_message, r')
      | Some (Inr data, (r', N)) \<Rightarrow> Some (echo_data codec data, r'))"

subsection \<open>The client\<close>

datatype call_error = MarshalFailed nat | RequestFailed nat | GatewayReturned int | BadOutput nat

text \<open>
  \<open>exchange\<close>: what \<open>client.Do\<close> gives for a request with this body. The decoder reads the response
  through a limit, and only as far as its value goes.
\<close>

definition echo_call :: "codec \<Rightarrow> (string \<Rightarrow> (nat, response) result) \<Rightarrow> string \<Rightarrow> (call_error, string) result" where
  "echo_call codec exchange value =
     (case marshal_message codec value of
        Inl e \<Rightarrow> Inl (MarshalFailed e)
      | Inr bs \<Rightarrow>
          (case exchange bs of
             Inl e \<Rightarrow> Inl (RequestFailed e)
           | Inr resp \<Rightarrow>
               if status resp \<noteq> 200 then Inl (GatewayReturned (status resp))
               else (case decode_message codec False (take 4097 (body resp)) of
                       Inl e \<Rightarrow> Inl (BadOutput e)
                     | Inr (msg, _) \<Rightarrow> Inr msg)))"

datatype echo_mode = Usage | Serve | Echo string

text \<open>\<open>main\<close>, on \<open>os.Args\<close>.\<close>

definition echo_mode_of :: "string list \<Rightarrow> echo_mode" where
  "echo_mode_of argv =
     (if length argv < 2 then Usage
      else if argv ! 1 = ''serve'' then Serve
      else if argv ! 1 = ''echo'' then (if length argv \<noteq> 3 then Usage else Echo (argv ! 2))
      else Usage)"

subsection \<open>The contract\<close>

lemma echo_handler_stream:
  "\<exists>r'. echo_handler codec spare stream_read (data, cuts, eager) = Some (echo_data codec (take 4097 data), r')"
proof -
  obtain r' where "read_all (limited_read stream_read) spare [] ((data, cuts, eager), 4097)
      = Some (Inr (take 4097 data), (r', 4097 - length data))"
    using stream.read_all_limited [of spare "[]" "(data, cuts, eager)" 4097] by auto
  then show ?thesis by (cases r') (simp add: echo_handler_def)
qed

text \<open>Whatever a client sends, the handler takes at most 4097 bytes of it, and returns if it ends.\<close>

lemma echo_handler_reads_at_most:
  "\<exists>resp s' bs. echo_handler codec spare script_read s = Some (resp, s')
     \<and> script_bytes s = bs @ script_bytes s' \<and> length bs \<le> 4097"
proof -
  have "read_all (limited_read script_read) spare [] (s, 4097) \<noteq> None"
    using progressing_reader.read_all_returns [OF script.limited_progress, of spare "[]" "(s, 4097)"] by auto
  then obtain res s' N where all: "read_all (limited_read script_read) spare [] (s, 4097) = Some (res, (s', N))" by auto
  from script.read_all_budget [OF all] obtain bs where "script_bytes s = bs @ script_bytes s'" "length bs + N = 4097" by blast
  moreover from all have "\<exists>resp. echo_handler codec spare script_read s = Some (resp, s')"
    by (cases res) (auto simp: echo_handler_def)
  ultimately show ?thesis by (metis le_add1)
qed

text \<open>
  C40 (roundtrip): calling the echo gateway gives the value back, however the connection cuts the
  request, exactly when its message is at most 4096 bytes long: the limit of the handler and the
  limit of the client on the response, one newline longer, agree. A longer message is refused
  with status 400, an empty value too. The encoding has to be one that decoding inverts, before
  the end of the data and before a newline, with and without unknown fields.
\<close>

theorem echo_returns_value:
  assumes "marshal_message codec value = Inr bs"
    and "\<And>strict rest. rest \<in> {[], [line_feed]} \<Longrightarrow> decode_message codec strict (bs @ rest) = Inr (value, rest)"
  shows "echo_call codec (\<lambda>req. case echo_handler codec spare stream_read (req, cuts, eager) of
             None \<Rightarrow> Inl 0 | Some (resp, _) \<Rightarrow> Inr resp) value
         = (if value \<noteq> [] \<and> length bs \<le> 4096 then Inr value else Inl (GatewayReturned 400))"
proof -
  obtain r' where h: "echo_handler codec spare stream_read (bs, cuts, eager) = Some (echo_data codec (take 4097 bs), r')"
    using echo_handler_stream by blast
  have eof: "at_EOF []" by (simp add: at_EOF_def)
  show ?thesis
  proof (cases "length bs \<le> 4096")
    case True
    then have "take 4097 bs = bs" "take 4097 (bs @ [line_feed]) = bs @ [line_feed]" by simp_all
    with True h eof assms(1) assms(2) [of "[]" True] assms(2) [of "[line_feed]" False] show ?thesis
      by (simp add: echo_call_def echo_data_def invalid_message_def)
  next
    case False
    then have "length (take 4097 bs) > 4096" by simp
    with False h assms(1) show ?thesis by (simp add: echo_call_def echo_data_def invalid_message_def)
  qed
qed

subsection \<open>Witness\<close>

text \<open>The JSON of messages without quotes, backslashes and control characters.\<close>

definition plain_codec :: codec where
  "plain_codec =
     \<lparr>marshal_message = (\<lambda>v. Inr (''{\"message\":\"'' @ v @ ''\"}'')),
      decode_message = (\<lambda>strict data.
        if take 12 data = ''{\"message\":\"'' then
          (let v = takeWhile (\<lambda>c. c \<noteq> CHR 0x22) (drop 12 data) in Inr (v, drop (length v + 14) data))
        else Inl 1)\<rparr>"

theorem echo_returns_value_witness:
  "echo_call plain_codec (\<lambda>req. case echo_handler plain_codec (\<lambda>n. n) stream_read (req, [3, 0], True) of
       None \<Rightarrow> Inl 0 | Some (resp, _) \<Rightarrow> Inr resp) ''hello'' = Inr ''hello''"
proof -
  let ?bs = "''{\"message\":\"hello\"}''"
  have "marshal_message plain_codec ''hello'' = Inr ?bs" by (simp add: plain_codec_def)
  moreover have "decode_message plain_codec strict (?bs @ rest) = Inr (''hello'', rest)" for strict rest
    by (simp add: plain_codec_def Let_def)
  ultimately show ?thesis
    using echo_returns_value [of plain_codec "''hello''" ?bs "\<lambda>n. n" "[3, 0]" True] by simp
qed

end
