(* ===== verification/Ai.thy ===== *)
theory Ai
  imports GoStrings
begin

text \<open>
  \<open>ai/ai.go\<close>, a client of a language model, and the command line of \<open>examples/ai-cli/main.go\<close> that
  uses it. The provider and its models are arguments: what making one gives, and what an agent, a
  model with an optional system prompt, answers.
\<close>

record ai_config =
  APIKey :: string
  Model :: string
  SystemPrompt :: string

record 'm agent =
  agent_model :: 'm
  system_prompt :: "string option"

record 'm client =
  client_cfg :: ai_config
  client_agent :: "'m agent option"

datatype ai_error = KeyRequired | CreateProvider nat | CreateModel nat | NotStarted | GenerateFailed nat

definition ai_New :: "ai_config \<Rightarrow> 'm client" where
  "ai_New cfg = \<lparr>client_cfg = (if Model cfg = [] then cfg\<lparr>Model := ''gpt-4.1-mini''\<rparr> else cfg), client_agent = None\<rparr>"

text \<open>\<open>provider\<close>: \<open>openai.New\<close> for a key; \<open>language_model\<close>: the model of a name, from the provider.\<close>

definition ai_Start ::
  "(string \<Rightarrow> (nat, 'p) result) \<Rightarrow> ('p \<Rightarrow> string \<Rightarrow> (nat, 'm) result) \<Rightarrow> 'm client \<Rightarrow> ai_error option \<times> 'm client"
where
  "ai_Start provider language_model c =
     (let cfg = client_cfg c in
      if APIKey cfg = [] then (Some KeyRequired, c)
      else case provider (APIKey cfg) of
        Inl e \<Rightarrow> (Some (CreateProvider e), c)
      | Inr p \<Rightarrow>
          (case language_model p (Model cfg) of
             Inl e \<Rightarrow> (Some (CreateModel e), c)
           | Inr m \<Rightarrow>
               (None, c\<lparr>client_agent := Some \<lparr>agent_model = m,
                  system_prompt = (if SystemPrompt cfg \<noteq> [] then Some (SystemPrompt cfg) else None)\<rparr>\<rparr>)))"

definition ai_Generate :: "('m agent \<Rightarrow> string \<Rightarrow> (nat, string) result) \<Rightarrow> 'm client \<Rightarrow> string \<Rightarrow> (ai_error, string) result" where
  "ai_Generate generate c prompt =
     (case client_agent c of
        None \<Rightarrow> Inl NotStarted
      | Some a \<Rightarrow> (case generate a prompt of Inl e \<Rightarrow> Inl (GenerateFailed e) | Inr t \<Rightarrow> Inr t))"

subsection \<open>The command line\<close>

definition nonFlagArgs :: "string list \<Rightarrow> string list" where
  "nonFlagArgs args = filter (\<lambda>arg. take 1 arg \<noteq> ''-'') args"

definition ai_getenv :: "(string \<Rightarrow> string) \<Rightarrow> string \<Rightarrow> string \<Rightarrow> string" where
  "ai_getenv env key fallback = (if env key = [] then fallback else env key)"

text \<open>
  The configuration and the prompt of \<open>main\<close>, from the environment and the arguments: those that
  are no flags, joined by spaces.
\<close>

fun join_spaces :: "string list \<Rightarrow> string" where
  "join_spaces [] = []"
| "join_spaces [a] = a"
| "join_spaces (a # as) = a @ CHR '' '' # join_spaces as"

definition ai_main_config :: "(string \<Rightarrow> string) \<Rightarrow> ai_config" where
  "ai_main_config env =
     \<lparr>APIKey = env ''OPENAI_API_KEY'', Model = ai_getenv env ''OPENAI_MODEL'' ''gpt-4.1-mini'',
      SystemPrompt = ''You are a concise assistant used in a Go lifecycle example.''\<rparr>"

definition ai_prompt :: "string list \<Rightarrow> string" where
  "ai_prompt args =
     (let p = TrimSpace (join_spaces (nonFlagArgs args))
      in if p = [] then ''Say hello from a go-app component in one sentence.'' else p)"

subsection \<open>What the client does\<close>

text \<open>
  A client answers exactly after a \<open>Start\<close> that succeeded: with the model of its configuration, never
  an empty name, and its system prompt. A \<open>Start\<close> that fails leaves it as it was.
\<close>

lemma ai_started:
  assumes "ai_Start provider language_model c = (r, c')"
  shows "r \<noteq> None \<Longrightarrow> c' = c"
    and "r = None \<Longrightarrow> APIKey (client_cfg c) \<noteq> [] \<and> client_cfg c' = client_cfg c
           \<and> (\<exists>p a. provider (APIKey (client_cfg c)) = Inr p \<and> client_agent c' = Some a
                \<and> language_model p (Model (client_cfg c)) = Inr (agent_model a)
                \<and> (\<forall>t. ai_Generate generate c' prompt = Inr t \<longleftrightarrow> generate a prompt = Inr t))"
  using assms by (auto simp: ai_Start_def ai_Generate_def Let_def split: if_splits sum.splits)

lemma ai_not_started: "ai_Generate generate (ai_New cfg) prompt = Inl NotStarted" "Model (client_cfg (ai_New cfg)) \<noteq> []"
  by (simp_all add: ai_Generate_def ai_New_def)

end
