(* ===== verification/WindowsPipe.thy ===== *)
theory WindowsPipe
  imports Prelude "HOL-Library.Word"
begin

unbundle bit_operations_syntax

text \<open>
  \<open>localgateway/endpoint_windows.go\<close>: the named pipe of the gateway and the identity checks of
  both ends. The Windows calls are fields of the records below; a security identifier is a pointer
  that may be nil, to a value that may be invalid. The thread of the caller is part of the state:
  it impersonates the client for the duration of the check.
\<close>

subsection \<open>Identities\<close>

record sid =
  sid_valid :: bool
  sid_string :: string

type_synonym sid_ptr = "sid option"

definition sameWindowsSID :: "sid_ptr \<Rightarrow> sid_ptr \<Rightarrow> bool" where
  "sameWindowsSID left right =
     (case (left, right) of
        (Some l, Some r) \<Rightarrow> sid_valid l \<and> sid_valid r \<and> sid_string l = sid_string r
      | _ \<Rightarrow> False)"

datatype pipe_error =
    EndpointPrefix
  | HandleUnavailable
  | HandleInvalid
  | UserUnavailable
  | Rejected string
  | ReadIdentity nat
  | ClientUnavailable
  | ServerSecurityUnavailable
  | ServerOwnerUnavailable
  | OtherServerUser
  | WinError nat

text \<open>\<open>errors.Is(err, errPipeClientRejected)\<close>.\<close>

definition is_rejected :: "pipe_error \<Rightarrow> bool" where
  "is_rejected e = (case e of Rejected _ \<Rightarrow> True | _ \<Rightarrow> False)"

text \<open>\<open>currentUserSID\<close>: \<open>process_user\<close> is what the token of the process says.\<close>

definition currentUserSID :: "nat option \<Rightarrow> (nat, sid_ptr) result \<Rightarrow> (nat, sid) result \<Rightarrow> (pipe_error, sid) result" where
  "currentUserSID open_failure process_user copied =
     (case open_failure of
        Some e \<Rightarrow> Inl (WinError e)
      | None \<Rightarrow>
          (case process_user of
             Inl e \<Rightarrow> Inl (WinError e)
           | Inr None \<Rightarrow> Inl UserUnavailable
           | Inr (Some s) \<Rightarrow> (case copied of Inl e \<Rightarrow> Inl (WinError e) | Inr s' \<Rightarrow> Inr s')))"

definition securityDescriptorForUser :: "sid_ptr \<Rightarrow> (pipe_error, string) result" where
  "securityDescriptorForUser user =
     (case user of
        None \<Rightarrow> Inl UserUnavailable
      | Some u \<Rightarrow>
          if \<not> sid_valid u then Inl UserUnavailable
          else Inr (''O:'' @ sid_string u @ ''D:P(A;;GA;;;'' @ sid_string u @ '')''))"

subsection \<open>The client of a connection\<close>

text \<open>
  A connection as the server sees it: its handle (\<open>None\<close> when it has none, \<open>Some None\<close> when it is
  invalid), what the calls on it give, and whether reverting works.
\<close>

record pipe_conn =
  conn_number :: nat
  conn_handle :: "nat option option"
  impersonates :: bool
  opens_token :: bool
  token_user :: "(nat, sid_ptr) result"
  reverts :: bool

record thread =
  locked :: bool
  impersonating :: bool
  panicked :: bool

definition plain_thread :: thread where
  "plain_thread = \<lparr>locked = False, impersonating = False, panicked = False\<rparr>"

definition revertPipeClientImpersonation :: "pipe_conn \<Rightarrow> thread \<Rightarrow> thread" where
  "revertPipeClientImpersonation c t =
     (if \<not> reverts c then t\<lparr>panicked := True\<rparr> else t\<lparr>impersonating := False, locked := False\<rparr>)"

text \<open>What is decided while the thread impersonates the client.\<close>

definition client_decision :: "pipe_conn \<Rightarrow> sid_ptr \<Rightarrow> pipe_error option" where
  "client_decision c expected =
     (if \<not> opens_token c then Some (Rejected ''client token is unavailable'')
      else case token_user c of
        Inl e \<Rightarrow> Some (ReadIdentity e)
      | Inr None \<Rightarrow> Some ClientUnavailable
      | Inr (Some client) \<Rightarrow>
          if \<not> sid_valid client then Some ClientUnavailable
          else if \<not> sameWindowsSID (Some client) expected then Some (Rejected ''client belongs to another user'')
          else None)"

definition verifyCurrentUserPipeClient :: "pipe_conn \<Rightarrow> sid_ptr \<Rightarrow> thread \<Rightarrow> pipe_error option \<times> thread" where
  "verifyCurrentUserPipeClient c expected t =
     (case conn_handle c of
        None \<Rightarrow> (Some HandleUnavailable, t)
      | Some None \<Rightarrow> (Some HandleInvalid, t)
      | Some (Some h) \<Rightarrow>
          if h = 0 then (Some HandleInvalid, t)
          else if (case expected of None \<Rightarrow> True | Some u \<Rightarrow> \<not> sid_valid u) then (Some UserUnavailable, t)
          else
            let t1 = t\<lparr>locked := True\<rparr> in
            if \<not> impersonates c then (Some (Rejected ''identify client''), t1\<lparr>locked := False\<rparr>)
            else (client_decision c expected, revertPipeClientImpersonation c (t1\<lparr>impersonating := True\<rparr>)))"

text \<open>
  \<open>peerListener.Accept\<close> on what the pipe listener gives, call after call: the connection or the
  error, the connections it closed, and the thread. \<open>None\<close>: it still waits.
\<close>

fun pipe_accept ::
  "sid_ptr \<Rightarrow> (nat, pipe_conn) result list \<Rightarrow> thread \<Rightarrow> (pipe_error, pipe_conn) result option \<times> pipe_conn list \<times> thread"
where
  "pipe_accept expected [] t = (None, [], t)"
| "pipe_accept expected (Inl e # cs) t = (Some (Inl (WinError e)), [], t)"
| "pipe_accept expected (Inr c # cs) t =
     (case verifyCurrentUserPipeClient c expected t of
        (None, t') \<Rightarrow> (if panicked t' then None else Some (Inr c), [], t')
      | (Some e, t') \<Rightarrow>
          if panicked t' then (None, [], t')
          else if \<not> is_rejected e then (Some (Inl e), [c], t')
          else case pipe_accept expected cs t' of (res, closed, t'') \<Rightarrow> (res, c # closed, t''))"

subsection \<open>The two ends of the pipe\<close>

definition pipe_prefix :: string where "pipe_prefix = [CHR 0x5C, CHR 0x5C, CHR ''.'', CHR 0x5C] @ ''pipe'' @ [CHR 0x5C]"

definition has_pipe_prefix :: "(string \<Rightarrow> string) \<Rightarrow> string \<Rightarrow> bool" where
  "has_pipe_prefix ToLower endpoint \<longleftrightarrow> take (length pipe_prefix) (ToLower endpoint) = pipe_prefix"

record PipeConfig =
  SecurityDescriptor :: string
  MessageMode :: bool
  InputBufferSize :: int
  OutputBufferSize :: int

text \<open>
  \<open>listenLocal\<close>: the call of \<open>winio.ListenPipe\<close> it makes and the user whose clients it accepts;
  there is no cleanup. \<open>user\<close> is the result of \<open>currentUserSID\<close>.
\<close>

definition pipe_listenLocal ::
  "(string \<Rightarrow> string) \<Rightarrow> string \<Rightarrow> int \<Rightarrow> int \<Rightarrow> (pipe_error, sid) result \<Rightarrow> (string \<Rightarrow> PipeConfig \<Rightarrow> (nat, 'l) result)
     \<Rightarrow> (pipe_error, 'l \<times> sid) result"
where
  "pipe_listenLocal ToLower endpoint inputBytes outputBytes user ListenPipe =
     (if \<not> has_pipe_prefix ToLower endpoint then Inl EndpointPrefix
      else case user of
        Inl e \<Rightarrow> Inl e
      | Inr u \<Rightarrow>
      (case securityDescriptorForUser (Some u) of
        Inl e \<Rightarrow> Inl e
      | Inr descriptor \<Rightarrow>
          (case ListenPipe endpoint \<lparr>SecurityDescriptor = descriptor, MessageMode = False,
                                     InputBufferSize = inputBytes, OutputBufferSize = outputBytes\<rparr> of
             Inl e \<Rightarrow> Inl (WinError e)
           | Inr l \<Rightarrow> Inr (l, u))))"

text \<open>
  A connection as the client sees it: whether it has a handle, the descriptor's owner (with
  whether it is defaulted), \<open>None\<close> where the call fails or the descriptor is not valid.
\<close>

record server_end =
  has_handle :: bool
  server_owner :: "(sid_ptr \<times> bool) option option"

definition verifyCurrentUserPipeServer :: "server_end \<Rightarrow> (pipe_error, sid) result \<Rightarrow> pipe_error option" where
  "verifyCurrentUserPipeServer c currentUser =
     (if \<not> has_handle c then Some HandleUnavailable
      else case server_owner c of
        None \<Rightarrow> Some ServerSecurityUnavailable
      | Some None \<Rightarrow> Some ServerOwnerUnavailable
      | Some (Some (serverUser, defaulted)) \<Rightarrow>
          if (case serverUser of None \<Rightarrow> True | Some u \<Rightarrow> defaulted \<or> \<not> sid_valid u) then Some ServerOwnerUnavailable
          else case currentUser of
            Inl _ \<Rightarrow> Some OtherServerUser
          | Inr u \<Rightarrow> if \<not> sameWindowsSID serverUser (Some u) then Some OtherServerUser else None)"

text \<open>
  \<open>dialed\<close>: what \<open>winio.DialPipeAccessImpLevel\<close> gives for the endpoint, the access and the level of
  impersonation asked for. The second component are the connections that were closed.
\<close>

datatype imp_level = PipeImpLevelAnonymous | PipeImpLevelIdentification | PipeImpLevelImpersonation | PipeImpLevelDelegation

definition GENERIC_READ_WRITE :: "32 word" where "GENERIC_READ_WRITE = 0x80000000 OR 0x40000000"

definition pipe_dialLocal ::
  "(string \<Rightarrow> string) \<Rightarrow> string \<Rightarrow> (string \<Rightarrow> 32 word \<Rightarrow> imp_level \<Rightarrow> (nat, server_end) result) \<Rightarrow>
     (pipe_error, sid) result \<Rightarrow> (pipe_error, server_end) result \<times> server_end list"
where
  "pipe_dialLocal ToLower endpoint DialPipe user =
     (if \<not> has_pipe_prefix ToLower endpoint then (Inl EndpointPrefix, [])
      else case DialPipe endpoint GENERIC_READ_WRITE PipeImpLevelIdentification of
        Inl e \<Rightarrow> (Inl (WinError e), [])
      | Inr conn \<Rightarrow>
          (case verifyCurrentUserPipeServer conn user of
             Some e \<Rightarrow> (Inl e, [conn])
           | None \<Rightarrow> (Inr conn, [])))"

subsection \<open>Only the same user is on the other end\<close>

lemma sameWindowsSID_Some:
  "sameWindowsSID a b \<longleftrightarrow> (\<exists>l r. a = Some l \<and> b = Some r \<and> sid_valid l \<and> sid_valid r \<and> sid_string l = sid_string r)"
  by (auto simp: sameWindowsSID_def split: option.splits)

text \<open>What the system says of the client when it can be identified: the user it is to be.\<close>

definition same_user :: "sid_ptr \<Rightarrow> pipe_conn \<Rightarrow> bool" where
  "same_user expected c \<longleftrightarrow>
     (\<exists>h. conn_handle c = Some (Some h) \<and> h \<noteq> 0) \<and> impersonates c \<and> opens_token c
     \<and> (\<exists>client. token_user c = Inr (Some client) \<and> sameWindowsSID (Some client) expected)"

lemma verify_client:
  assumes "verifyCurrentUserPipeClient c expected t = (res, t')" and "t = plain_thread"
  shows "panicked t' \<or> t' = plain_thread" and "res = None \<longleftrightarrow> same_user expected c"
  using assms
  by (auto simp: verifyCurrentUserPipeClient_def client_decision_def revertPipeClientImpersonation_def same_user_def
      sameWindowsSID_Some plain_thread_def Let_def split: option.splits if_splits sum.splits)

text \<open>
  What a call of \<open>Accept\<close> has made of the connections \<open>before\<close> and of the last thing it was given.
\<close>

fun accept_outcome :: "sid_ptr \<Rightarrow> (nat, pipe_conn) result \<Rightarrow> (pipe_error, pipe_conn) result \<Rightarrow> pipe_conn list \<Rightarrow> bool" where
  "accept_outcome expected (Inl e) res closed \<longleftrightarrow> res = Inl (WinError e) \<and> closed = []"
| "accept_outcome expected (Inr c) res closed \<longleftrightarrow>
     (if same_user expected c then res = Inr c \<and> closed = [] else (\<exists>e. res = Inl e) \<and> closed = [c])"

text \<open>
  C17 (safety): \<open>Accept\<close> returns the first connection whose client is identified as the expected user,
  unless an error ends it before. Every connection it took and did not return is closed, in their
  order and no other; none of them is the expected user's. No thread is left impersonating.
\<close>

theorem pipe_accept_only_same_user:
  assumes "pipe_accept expected cs plain_thread = (Some res, closed, t)"
  shows "t = plain_thread
       \<and> (\<exists>before x after last. cs = map Inr before @ x # after \<and> closed = before @ last
            \<and> accept_outcome expected x res last \<and> (\<forall>c \<in> set closed. \<not> same_user expected c))"
  using assms
proof (induction cs arbitrary: closed)
  case (Cons x cs)
  show ?case
  proof (cases x)
    case (Inl e)
    with Cons.prems have "x # cs = map Inr [] @ x # cs \<and> closed = [] @ [] \<and> accept_outcome expected x res []" by simp
    with Cons.prems Inl show ?thesis by (auto intro!: exI [of _ "[]"])
  next
    case (Inr c)
    obtain v t' where ver: "verifyCurrentUserPipeClient c expected plain_thread = (v, t')" by fastforce
    note facts = verify_client [OF ver refl]
    have live: "\<not> panicked t'" using Cons.prems Inr ver by (auto split: option.splits if_splits)
    with facts(1) have t': "t' = plain_thread" by blast
    consider "v = None" | e where "v = Some e" "\<not> is_rejected e" | e where "v = Some e" "is_rejected e" by (cases v) auto
    then show ?thesis
    proof cases
      case 1
      with Cons.prems Inr ver live t' facts(2) show ?thesis by (auto intro!: exI [of _ "[]"])
    next
      case 2
      with Cons.prems Inr ver live t' facts(2) show ?thesis by (auto intro!: exI [of _ "[]"])
    next
      case 3
      with Cons.prems Inr ver live t' obtain closed' where
        rest: "pipe_accept expected cs plain_thread = (Some res, closed', t)" and closed: "closed = c # closed'"
        by (auto split: prod.splits)
      from Cons.IH [OF rest] obtain before y after last where "t = plain_thread" "cs = map Inr before @ y # after"
        "closed' = before @ last" "accept_outcome expected y res last" "\<forall>c \<in> set closed'. \<not> same_user expected c" by blast
      moreover have "\<not> same_user expected c" using facts(2) 3 by simp
      moreover have "x # cs = map Inr (c # before) @ y # after" "closed = (c # before) @ last"
        using Inr closed \<open>cs = _\<close> \<open>closed' = _\<close> by simp_all
      ultimately show ?thesis unfolding closed by (metis set_ConsD)
    qed
  qed
qed simp

text \<open>
  The other end: a connection is returned only when the owner of the pipe is the user of the
  process, one that is not returned was closed, and the server never gets more than the right to
  identify the client.
\<close>

lemma pipe_dial_same_user:
  assumes "pipe_dialLocal ToLower endpoint DialPipe user = (r, closed)"
  shows "r = Inr conn \<Longrightarrow> closed = [] \<and>
      (\<exists>owner u. server_owner conn = Some (Some (owner, False)) \<and> user = Inr u \<and> sameWindowsSID owner (Some u))"
    and "DialPipe endpoint GENERIC_READ_WRITE PipeImpLevelIdentification = Inr conn \<Longrightarrow> has_pipe_prefix ToLower endpoint
      \<Longrightarrow> r = Inr conn \<or> closed = [conn]"
  using assms
  by (auto simp: pipe_dialLocal_def verifyCurrentUserPipeServer_def split: if_splits sum.splits option.splits prod.splits)

subsection \<open>Witness\<close>

text \<open>A client of another user, then one of the expected user.\<close>

definition user_sid :: "string \<Rightarrow> sid" where "user_sid s = \<lparr>sid_valid = True, sid_string = s\<rparr>"

definition client_of :: "nat \<Rightarrow> string \<Rightarrow> pipe_conn" where
  "client_of n s = \<lparr>conn_number = n, conn_handle = Some (Some 4), impersonates = True, opens_token = True,
     token_user = Inr (Some (user_sid s)), reverts = True\<rparr>"

theorem pipe_accept_only_same_user_witness:
  "pipe_accept (Some (user_sid ''S-1'')) [Inr (client_of 1 ''S-2''), Inr (client_of 2 ''S-1'')] plain_thread
     = (Some (Inr (client_of 2 ''S-1'')), [client_of 1 ''S-2''], plain_thread)
   \<and> \<not> same_user (Some (user_sid ''S-1'')) (client_of 1 ''S-2'')"
proof -
  have run: "pipe_accept (Some (user_sid ''S-1'')) [Inr (client_of 1 ''S-2''), Inr (client_of 2 ''S-1'')] plain_thread
     = (Some (Inr (client_of 2 ''S-1'')), [client_of 1 ''S-2''], plain_thread)"
    by (simp add: client_of_def user_sid_def plain_thread_def verifyCurrentUserPipeClient_def client_decision_def
        sameWindowsSID_def is_rejected_def revertPipeClientImpersonation_def Let_def)
  from pipe_accept_only_same_user [OF run] have "\<not> same_user (Some (user_sid ''S-1'')) (client_of 1 ''S-2'')" by auto
  with run show ?thesis by blast
qed

end
