(* ===== verification/WindowsFiles.thy ===== *)
theory WindowsFiles
  imports WindowsAcl LockLife
begin

text \<open>
  The files behind the Windows policies: \<open>ensure\<close> and \<open>validate\<close> of \<open>privatedir/privatedir_windows.go\<close>,
  \<open>acquire\<close> and \<open>release\<close> of \<open>processlock/lock_windows.go\<close>, and with LockLife the locks they make. An
  open handle that shares nothing excludes every other one on its file: this, and no lock call, is
  what makes the lock. \<open>canon\<close> takes a path to the file it names (Windows ignores case), \<open>Dir\<close> is
  \<open>filepath.Dir\<close> with its rules for volumes; both are arguments.
\<close>

subsection \<open>Files and handles\<close>

record win_file =
  FileAttributes :: "32 word"
  NumberOfLinks :: "32 word"
  file_security :: "descriptor option"

type_synonym win_files = "string \<Rightarrow> win_file option"

definition FILE_ATTRIBUTE_DIRECTORY :: "32 word" where "FILE_ATTRIBUTE_DIRECTORY = 0x10"
definition FILE_ATTRIBUTE_NORMAL :: "32 word" where "FILE_ATTRIBUTE_NORMAL = 0x80"
definition FILE_ATTRIBUTE_REPARSE_POINT :: "32 word" where "FILE_ATTRIBUTE_REPARSE_POINT = 0x400"

definition ERROR_FILE_NOT_FOUND :: win_error where "ERROR_FILE_NOT_FOUND = WinError 2"
definition ERROR_SHARING_VIOLATION :: win_error where "ERROR_SHARING_VIOLATION = WinError 32"
definition ERROR_ALREADY_EXISTS :: win_error where "ERROR_ALREADY_EXISTS = WinError 183"
definition EINVAL :: win_error where "EINVAL = WinError 0x20000016"

datatype file_error =
    System win_error | NotStableDirectory | LockNotRegular | LockMultipleLinks | Acl acl_error
  | LockHeld

text \<open>\<open>windows.UTF16PtrFromString\<close> refuses a string with a zero byte.\<close>

definition utf16_error :: "string \<Rightarrow> win_error option" where
  "utf16_error path = (if CHR 0x00 \<in> set path then Some EINVAL else None)"

text \<open>What the calls that open and examine a file report beside what the file decides.\<close>

record probe =
  on_open :: "win_error option"
  on_info :: "win_error option"
  on_security :: "win_error option"

text \<open>
  A directory is opened for its attributes and its descriptor only, sharing everything: no other
  handle is in the way, and a reparse point is opened itself.
\<close>

definition directorySecurityDescriptor ::
  "(string \<Rightarrow> string) \<Rightarrow> probe \<Rightarrow> win_files \<Rightarrow> string \<Rightarrow> (file_error, descriptor option) result"
where
  "directorySecurityDescriptor canon pr fs path =
     (case utf16_error path of
        Some e \<Rightarrow> Inl (System e)
      | None \<Rightarrow>
     (case on_open pr of
        Some e \<Rightarrow> Inl (System e)
      | None \<Rightarrow>
     (case fs (canon path) of
        None \<Rightarrow> Inl (System ERROR_FILE_NOT_FOUND)
      | Some f \<Rightarrow>
          (case on_info pr of
             Some e \<Rightarrow> Inl (System e)
           | None \<Rightarrow>
               if FileAttributes f AND FILE_ATTRIBUTE_DIRECTORY = 0
                \<or> FileAttributes f AND FILE_ATTRIBUTE_REPARSE_POINT \<noteq> 0 then Inl NotStableDirectory
               else (case on_security pr of Some e \<Rightarrow> Inl (System e) | None \<Rightarrow> Inr (file_security f))))))"

text \<open>
  \<open>currentUserSecurityDescriptor\<close>: the descriptor that the string for this user denotes, with the
  flags of its one entry (\<open>OICI\<close> for a directory, none for a lock file).
\<close>

definition user_descriptor :: "8 word \<Rightarrow> principal \<Rightarrow> descriptor" where
  "user_descriptor flags user =
     \<lparr>IsValid = True, Owner = Inr (Some (SID user), False),
      DACL = Inr (Some [Inr \<lparr>AceType = AccessAllowed, AceFlags = flags, Mask = GENERIC_ALL, SidStart = SID user\<rparr>])\<rparr>"

definition currentUserSecurityDescriptor ::
  "8 word \<Rightarrow> (win_error, principal) result \<Rightarrow> win_error option \<Rightarrow> (win_error, descriptor) result"
where
  "currentUserSecurityDescriptor flags current failure =
     (case current of
        Inl e \<Rightarrow> Inl e
      | Inr user \<Rightarrow> (case failure of Some e \<Rightarrow> Inl e | None \<Rightarrow> Inr (user_descriptor flags user)))"

subsection \<open>Private directories\<close>

definition dir_check ::
  "(descriptor option \<Rightarrow> acl_error option) \<Rightarrow> (file_error, descriptor option) result \<Rightarrow> file_error option"
where
  "dir_check policy d = (case d of Inl e \<Rightarrow> Some e | Inr desc \<Rightarrow> map_option Acl (policy desc))"

definition validateCreationParent ::
  "(string \<Rightarrow> string) \<Rightarrow> (win_error, principal) result \<Rightarrow> probe \<Rightarrow> win_files \<Rightarrow> string \<Rightarrow> file_error option"
where
  "validateCreationParent canon current pr fs path =
     dir_check (\<lambda>d. validateCreationSecurity d current) (directorySecurityDescriptor canon pr fs path)"

definition win_validate ::
  "(string \<Rightarrow> string) \<Rightarrow> (win_error, principal) result \<Rightarrow> probe \<Rightarrow> win_files \<Rightarrow> string \<Rightarrow> file_error option"
where
  "win_validate canon current pr fs path =
     dir_check (\<lambda>d. validatePrivateSecurity d current) (directorySecurityDescriptor canon pr fs path)"

definition CreateDirectory :: "win_error option \<Rightarrow> descriptor \<Rightarrow> win_files \<Rightarrow> string \<Rightarrow> win_error option \<times> win_files" where
  "CreateDirectory failure d fs name =
     (case failure of
        Some e \<Rightarrow> (Some e, fs)
      | None \<Rightarrow>
          if fs name \<noteq> None then (Some ERROR_ALREADY_EXISTS, fs)
          else (None, fs(name \<mapsto> \<lparr>FileAttributes = FILE_ATTRIBUTE_DIRECTORY, NumberOfLinks = 1, file_security = Some d\<rparr>)))"

text \<open>What happens to one call of \<open>ensure\<close>: its system calls, and the others between them.\<close>

record ensure_env =
  parent_probe :: probe
  after_parent :: "win_files \<Rightarrow> win_files"
  descriptor_failure :: "win_error option"
  create_failure :: "win_error option"
  after_create :: "win_files \<Rightarrow> win_files"
  own_probe :: probe

definition win_ensure ::
  "(string \<Rightarrow> string) \<Rightarrow> (string \<Rightarrow> string) \<Rightarrow> (win_error, principal) result \<Rightarrow> ensure_env \<Rightarrow> win_files \<Rightarrow> string \<Rightarrow>
     file_error option \<times> win_files"
where
  "win_ensure canon Dir current env fs path =
     (case validateCreationParent canon current (parent_probe env) fs (Dir path) of
        Some e \<Rightarrow> (Some e, fs)
      | None \<Rightarrow>
     (let fs1 = after_parent env fs in
      case utf16_error path of
        Some e \<Rightarrow> (Some (System e), fs1)
      | None \<Rightarrow>
     (case currentUserSecurityDescriptor 3 current (descriptor_failure env) of
        Inl e \<Rightarrow> (Some (System e), fs1)
      | Inr d \<Rightarrow>
     (case CreateDirectory (create_failure env) d fs1 (canon path) of
        (err, fs2) \<Rightarrow>
          if err \<noteq> None \<and> err \<noteq> Some ERROR_ALREADY_EXISTS then (Some (System (the err)), fs2)
          else let fs3 = after_create env fs2 in (win_validate canon current (own_probe env) fs3 path, fs3)))))"

subsection \<open>The lock file\<close>

definition validatePrivateDirectory ::
  "(string \<Rightarrow> string) \<Rightarrow> (win_error, principal) result \<Rightarrow> probe \<Rightarrow> win_files \<Rightarrow> string \<Rightarrow> file_error option"
where
  "validatePrivateDirectory canon current pr fs path =
     dir_check (\<lambda>d. validateCurrentUserSecurity d current) (directorySecurityDescriptor canon pr fs path)"

definition validateLockHandle :: "(win_error, principal) result \<Rightarrow> probe \<Rightarrow> win_file \<Rightarrow> file_error option" where
  "validateLockHandle current pr f =
     (case on_info pr of
        Some e \<Rightarrow> Some (System e)
      | None \<Rightarrow>
          if FileAttributes f AND (FILE_ATTRIBUTE_DIRECTORY OR FILE_ATTRIBUTE_REPARSE_POINT) \<noteq> 0 then Some LockNotRegular
          else if NumberOfLinks f \<noteq> 1 then Some LockMultipleLinks
          else case on_security pr of
            Some e \<Rightarrow> Some (System e)
          | None \<Rightarrow> map_option Acl (validateCurrentUserSecurity (file_security f) current))"

text \<open>
  The files, and for each the process that has a handle on it which shares nothing; this handle is
  what a lock has.
\<close>

record win_world =
  win_nodes :: win_files
  exclusive :: "string \<Rightarrow> nat option"

text \<open>
  \<open>CreateFile\<close> with \<open>OPEN_ALWAYS\<close>, for reading and writing, sharing nothing: it opens what is there
  or makes a file with the descriptor.
\<close>

definition CreateFile_lock ::
  "win_error option \<Rightarrow> descriptor \<Rightarrow> nat \<Rightarrow> string \<Rightarrow> win_world \<Rightarrow> (win_error, win_file) result \<times> win_world"
where
  "CreateFile_lock failure d i name w =
     (if exclusive w name \<noteq> None then (Inl ERROR_SHARING_VIOLATION, w)
      else case failure of
        Some e \<Rightarrow> (Inl e, w)
      | None \<Rightarrow>
          let f = (case win_nodes w name of
                     Some f \<Rightarrow> f
                   | None \<Rightarrow> \<lparr>FileAttributes = FILE_ATTRIBUTE_NORMAL, NumberOfLinks = 1, file_security = Some d\<rparr>)
          in (Inr f, w\<lparr>win_nodes := (win_nodes w)(name \<mapsto> f), exclusive := (exclusive w)(name \<mapsto> i)\<rparr>))"

text \<open>\<open>CloseHandle\<close> by process \<open>i\<close>; when it fails, \<open>dropped\<close> tells whether the handle is gone all the same.\<close>

definition CloseHandle :: "win_error option \<Rightarrow> bool \<Rightarrow> nat \<Rightarrow> string \<Rightarrow> win_world \<Rightarrow> win_error option \<times> win_world" where
  "CloseHandle failure dropped i name w =
     (failure,
      if (failure = None \<or> dropped) \<and> exclusive w name = Some i then w\<lparr>exclusive := (exclusive w)(name := None)\<rparr> else w)"

record acquire_env =
  dir_probe :: probe
  sddl_failure :: "win_error option"
  open_failure :: "win_error option"
  file_probe :: probe
  close_failure :: "win_error option"
  close_dropped :: bool

definition win_acquire ::
  "(string \<Rightarrow> string) \<Rightarrow> (string \<Rightarrow> string) \<Rightarrow> (win_error, principal) result \<Rightarrow> acquire_env \<Rightarrow> nat \<Rightarrow> string \<Rightarrow>
     win_world \<Rightarrow> (file_error, string) result \<times> win_world"
where
  "win_acquire canon Dir current env i path w =
     (case validatePrivateDirectory canon current (dir_probe env) (win_nodes w) (Dir path) of
        Some e \<Rightarrow> (Inl e, w)
      | None \<Rightarrow>
     (case utf16_error path of
        Some e \<Rightarrow> (Inl (System e), w)
      | None \<Rightarrow>
     (case currentUserSecurityDescriptor 0 current (sddl_failure env) of
        Inl e \<Rightarrow> (Inl (System e), w)
      | Inr d \<Rightarrow>
     (case CreateFile_lock (open_failure env) d i (canon path) w of
        (Inl e, w1) \<Rightarrow> (Inl (if e = ERROR_SHARING_VIOLATION then LockHeld else System e), w1)
      | (Inr f, w1) \<Rightarrow>
          (case validateLockHandle current (file_probe env) f of
             Some e \<Rightarrow> (Inl e, snd (CloseHandle (close_failure env) (close_dropped env) i (canon path) w1))
           | None \<Rightarrow> (Inr (canon path), w1))))))"

text \<open>\<open>windowsLock.release\<close>: released exactly when closing reports no error.\<close>

fun win_release :: "win_error option \<times> bool \<Rightarrow> nat \<Rightarrow> string \<Rightarrow> win_world \<Rightarrow> bool \<times> win_error list \<times> win_world" where
  "win_release (failure, dropped) i h w =
     (case CloseHandle failure dropped i h w of (err, w') \<Rightarrow> (err = None, leaves err, w'))"

text \<open>The end of a process closes its handles.\<close>

definition close_handles :: "nat \<Rightarrow> win_world \<Rightarrow> win_world" where
  "close_handles i w = w\<lparr>exclusive := (\<lambda>n. if exclusive w n = Some i then None else exclusive w n)\<rparr>"

lemmas win_ops [step_defs] = CreateFile_lock_def CloseHandle_def win_acquire_def

subsection \<open>The platform\<close>

lemma win_acquire_outcome:
  assumes "win_acquire canon Dir current env i path w = (r, w')"
  shows "exclusive w n = Some j \<Longrightarrow> exclusive w' n = Some j"
    and "r = Inr h \<Longrightarrow> h = canon path \<and> exclusive w h = None \<and> exclusive w' h = Some i"
    and "exclusive w (canon path) \<noteq> None \<Longrightarrow> w' = w"
  using assms
  by (auto simp: win_acquire_def CreateFile_lock_def CloseHandle_def Let_def
      split: option.splits sum.splits prod.splits if_splits)

text \<open>A path always names the same file.\<close>

definition canon_at :: "(string \<Rightarrow> string) \<Rightarrow> win_world \<Rightarrow> string \<Rightarrow> string option" where
  "canon_at canon w p = Some (canon p)"

interpretation win_lock: lock_platform "win_acquire canon Dir current" win_release close_handles "canon_at canon" exclusive
  for canon Dir current
proof
  fix f i p k h k' r x j q g es b
  show "win_acquire canon Dir current f i p k = (Inr h, k') \<Longrightarrow>
      exclusive k h = None \<and> exclusive k' h = Some i \<and> canon_at canon k' p = Some h"
    by (drule win_acquire_outcome(2) [OF _ refl]) (auto simp: canon_at_def)
  show "win_acquire canon Dir current f i p k = (r, k') \<Longrightarrow> exclusive k x = Some j \<Longrightarrow> exclusive k' x = Some j"
    by (rule win_acquire_outcome(1))
  show "canon_at canon k q = Some x \<Longrightarrow> canon_at canon k' q = Some x" by (simp add: canon_at_def)
  show "win_acquire canon Dir current f i p k = (r, k') \<Longrightarrow> canon_at canon k p = Some x \<Longrightarrow> exclusive k x = Some j \<Longrightarrow>
      exclusive k' = exclusive k"
    using win_acquire_outcome(3) by (fastforce simp: canon_at_def)
  show "win_release g i h k = (b, es, k') \<Longrightarrow> exclusive k x = Some j \<Longrightarrow> j \<noteq> i \<Longrightarrow> exclusive k' x = Some j"
    by (cases g) (auto simp: CloseHandle_def split: if_splits)
  show "win_release g i h k = (b, es, k') \<Longrightarrow> canon_at canon k' = canon_at canon k" by (simp add: canon_at_def fun_eq_iff)
  show "exclusive k x = Some j \<Longrightarrow> j \<noteq> i \<Longrightarrow> exclusive (close_handles i k) x = Some j" by (simp add: close_handles_def)
  show "canon_at canon (close_handles i k) = canon_at canon k" by (simp add: canon_at_def fun_eq_iff)
qed

subsection \<open>The contracts\<close>

text \<open>
  C18 (safety): on Windows, however processes start, stop and end, two of them never hold the
  lock of one file at the same time, also under different spellings of its path, unless closing
  the handle of one of them failed. While one holds it, a \<open>Start\<close> by another fails and takes
  nothing.
\<close>

theorem win_mutual_exclusion:
  assumes "(lock_step (win_acquire canon Dir current) win_release close_handles)\<^sup>*\<^sup>* w0 w" and "fresh_world w0"
    and "i < length (locks w)" and "handle (locks w ! i) \<noteq> None" and "i \<notin> unsure w"
    and "j < length (locks w)" and "canon (Path (locks w ! j)) = canon (Path (locks w ! i))" and "j \<noteq> i"
  shows "(handle (locks w ! j) \<noteq> None \<longrightarrow> j \<in> unsure w)
       \<and> fst (Start (win_acquire canon Dir current env) ctx j w) \<noteq> None
       \<and> locks (snd (Start (win_acquire canon Dir current env) ctx j w)) = locks w
       \<and> exclusive (kernel (snd (Start (win_acquire canon Dir current env) ctx j w))) = exclusive (kernel w)"
  by (rule win_lock.exclusive [OF assms(1-6) assms(8)]) (simp add: canon_at_def assms(7))

text \<open>The lock is only given on a regular file with one name, in a directory that passes the policy.\<close>

lemma dir_check_None [inversion]:
  "dir_check policy (directorySecurityDescriptor canon pr fs path) = None \<longleftrightarrow>
     directorySecurityDescriptor canon pr fs path = Inr (file_security (the (fs (canon path))))
     \<and> (\<exists>f. fs (canon path) = Some f \<and> FileAttributes f AND FILE_ATTRIBUTE_DIRECTORY \<noteq> 0
          \<and> FileAttributes f AND FILE_ATTRIBUTE_REPARSE_POINT = 0 \<and> policy (file_security f) = None)"
  by (auto simp: dir_check_def directorySecurityDescriptor_def split: option.splits sum.splits)

lemma win_acquire_private:
  assumes "win_acquire canon Dir current env i path w = (Inr h, w')"
  shows "\<exists>d f. win_nodes w (canon (Dir path)) = Some d \<and> validateCurrentUserSecurity (file_security d) current = None
       \<and> FileAttributes d AND FILE_ATTRIBUTE_DIRECTORY \<noteq> 0
       \<and> win_nodes w' h = Some f \<and> NumberOfLinks f = 1
       \<and> FileAttributes f AND (FILE_ATTRIBUTE_DIRECTORY OR FILE_ATTRIBUTE_REPARSE_POINT) = 0
       \<and> validateCurrentUserSecurity (file_security f) current = None
       \<and> (win_nodes w h = None \<or> win_nodes w' = win_nodes w)"
proof -
  from assms have p: "validatePrivateDirectory canon current (dir_probe env) (win_nodes w) (Dir path) = None"
    by (auto simp: win_acquire_def split: option.splits)
  from assms p obtain d where d: "currentUserSecurityDescriptor 0 current (sddl_failure env) = Inr d"
    by (cases "currentUserSecurityDescriptor 0 current (sddl_failure env)")
       (auto simp: win_acquire_def split: option.splits)
  obtain r w1 where c: "CreateFile_lock (open_failure env) d i (canon path) w = (r, w1)" by fastforce
  from assms p d c obtain f where f: "r = Inr f" by (cases r) (auto simp: win_acquire_def split: option.splits)
  with assms p d c have c: "CreateFile_lock (open_failure env) d i (canon path) w = (Inr f, w')"
    "validateLockHandle current (file_probe env) f = None" "h = canon path"
    by (auto simp: win_acquire_def split: option.splits)
  have "NumberOfLinks f = 1 \<and> FileAttributes f AND (FILE_ATTRIBUTE_DIRECTORY OR FILE_ATTRIBUTE_REPARSE_POINT) = 0
      \<and> validateCurrentUserSecurity (file_security f) current = None"
    using c(2) by (auto simp: validateLockHandle_def split: option.splits if_splits)
  moreover have "win_nodes w' h = Some f \<and> (win_nodes w h = None \<or> win_nodes w' = win_nodes w)"
    using c by (auto simp: CreateFile_lock_def Let_def fun_upd_idem split: if_splits option.splits)
  ultimately show ?thesis using p by (auto simp: validatePrivateDirectory_def dir_check_None)
qed

text \<open>
  A successful \<open>ensure\<close> leaves a stable directory that passes the private policy, whatever others
  did meanwhile; the call itself only ever adds the directory, and adds it private.
\<close>

lemma user_descriptor_private:
  "validatePrivateSecurity (Some (user_descriptor flags user)) (Inr user) = None"
  by (simp add: validatePrivateSecurity_def with_dacl_def user_descriptor_def trusted_def)

lemma CreateDirectory_outcome:
  "CreateDirectory failure d fs name = (err, fs') \<Longrightarrow>
     fs' = fs \<or> fs name = None \<and> (\<exists>f. fs' = fs(name \<mapsto> f) \<and> file_security f = Some d)"
  by (auto simp: CreateDirectory_def split: option.splits if_splits)

lemma win_ensure_cases:
  assumes "win_ensure canon Dir current env fs path = (r, fs')"
  shows "r \<noteq> None \<and> fs' = fs \<or> r \<noteq> None \<and> fs' = after_parent env fs
       \<or> (\<exists>user err fs2. current = Inr user
            \<and> CreateDirectory (create_failure env) (user_descriptor 3 user) (after_parent env fs) (canon path) = (err, fs2)
            \<and> (r \<noteq> None \<and> fs' = fs2
               \<or> r = win_validate canon current (own_probe env) (after_create env fs2) path \<and> fs' = after_create env fs2))"
proof (cases current)
  case (Inr user)
  obtain err fs2 where c:
    "CreateDirectory (create_failure env) (user_descriptor 3 user) (after_parent env fs) (canon path) = (err, fs2)"
    by fastforce
  with assms Inr show ?thesis
    by (auto simp: win_ensure_def currentUserSecurityDescriptor_def Let_def split: option.splits if_splits)
qed (use assms in \<open>auto simp: win_ensure_def currentUserSecurityDescriptor_def Let_def split: option.splits\<close>)

lemma win_ensure_private:
  assumes "win_ensure canon Dir current env fs path = (r, fs')"
  shows "r = None \<Longrightarrow> \<exists>f. fs' (canon path) = Some f \<and> FileAttributes f AND FILE_ATTRIBUTE_DIRECTORY \<noteq> 0
          \<and> FileAttributes f AND FILE_ATTRIBUTE_REPARSE_POINT = 0 \<and> validatePrivateSecurity (file_security f) current = None"
    and "after_parent env = id \<Longrightarrow> after_create env = id \<Longrightarrow>
          fs' = fs \<or> fs (canon path) = None \<and> (\<exists>f. fs' = fs(canon path \<mapsto> f)
            \<and> validatePrivateSecurity (file_security f) current = None)"
proof -
  note cases = win_ensure_cases [OF assms]
  show "\<exists>f. fs' (canon path) = Some f \<and> FileAttributes f AND FILE_ATTRIBUTE_DIRECTORY \<noteq> 0
          \<and> FileAttributes f AND FILE_ATTRIBUTE_REPARSE_POINT = 0 \<and> validatePrivateSecurity (file_security f) current = None"
    if "r = None"
  proof -
    from cases that have "win_validate canon current (own_probe env) fs' path = None" by auto
    then show ?thesis unfolding win_validate_def dir_check_None by blast
  qed
  show "fs' = fs \<or> fs (canon path) = None \<and> (\<exists>f. fs' = fs(canon path \<mapsto> f)
            \<and> validatePrivateSecurity (file_security f) current = None)"
    if "after_parent env = id" "after_create env = id"
  proof -
    from cases that consider "fs' = fs" | user err where "current = Inr user"
      "CreateDirectory (create_failure env) (user_descriptor 3 user) fs (canon path) = (err, fs')" by auto
    then show ?thesis
    proof cases
      case 2
      from CreateDirectory_outcome [OF 2(2)] show ?thesis
      proof
        assume "fs (canon path) = None \<and> (\<exists>f. fs' = fs(canon path \<mapsto> f) \<and> file_security f = Some (user_descriptor 3 user))"
        then obtain f where "fs (canon path) = None" "fs' = fs(canon path \<mapsto> f)"
          "file_security f = Some (user_descriptor 3 user)" by blast
        with 2(1) user_descriptor_private [of 3 user] show ?thesis by metis
      qed simp
    qed simp
  qed
qed

subsection \<open>Witness\<close>

definition quiet :: probe where "quiet = \<lparr>on_open = None, on_info = None, on_security = None\<rparr>"

definition quiet_acquire :: acquire_env where
  "quiet_acquire = \<lparr>dir_probe = quiet, sddl_failure = None, open_failure = None, file_probe = quiet,
     close_failure = None, close_dropped = False\<rparr>"

text \<open>Two processes that spell the lock's path differently; the directory's policy lets others read.\<close>

definition canon_ab :: "string \<Rightarrow> string" where
  "canon_ab p = (if p = ''L'' then ''l'' else p)"

definition two_windows :: "(win_world, string) lock_world" where
  "two_windows =
     \<lparr>kernel = \<lparr>win_nodes = [''d'' \<mapsto> \<lparr>FileAttributes = 0x10, NumberOfLinks = 1, file_security = Some readable\<rparr>],
                exclusive = Map.empty\<rparr>,
      locks = [\<lparr>Path = ''l'', handle = None\<rparr>, \<lparr>Path = ''L'', handle = None\<rparr>], unsure = {}\<rparr>"

definition one_locked :: "(win_world, string) lock_world" where
  "one_locked = snd (Start (win_acquire canon_ab (\<lambda>_. ''d'') (Inr (Other 7)) quiet_acquire) None 0 two_windows)"

lemma lock_descriptor_accepted:
  "validateCurrentUserSecurity (Some (user_descriptor flags user)) (Inr user) = None"
  by (simp add: validateCurrentUserSecurity_def user_descriptor_def)

lemma one_locked_fields:
  "locks one_locked = [\<lparr>Path = ''l'', handle = Some ''l''\<rparr>, \<lparr>Path = ''L'', handle = None\<rparr>]"
  "unsure one_locked = {}"
  by (simp_all add: one_locked_def two_windows_def quiet_acquire_def quiet_def canon_ab_def win_ops
      validatePrivateDirectory_def dir_check_def directorySecurityDescriptor_def utf16_error_def readable_accepted
      FILE_ATTRIBUTE_DIRECTORY_def FILE_ATTRIBUTE_REPARSE_POINT_def FILE_ATTRIBUTE_NORMAL_def Start_def set_handle_def
      currentUserSecurityDescriptor_def validateLockHandle_def lock_descriptor_accepted Let_def)

theorem win_mutual_exclusion_witness:
  "fst (Start (win_acquire canon_ab (\<lambda>_. ''d'') (Inr (Other 7)) quiet_acquire) None 1 one_locked) \<noteq> None"
proof -
  have "(lock_step (win_acquire canon_ab (\<lambda>_. ''d'') (Inr (Other 7))) win_release close_handles)\<^sup>*\<^sup>* two_windows one_locked"
    unfolding one_locked_def by (intro r_into_rtranclp lock_step.start) (simp add: two_windows_def)
  moreover have "fresh_world two_windows" by (simp add: fresh_world_def two_windows_def)
  ultimately show ?thesis
    using win_mutual_exclusion [of canon_ab "\<lambda>_. ''d''" "Inr (Other 7)" two_windows one_locked 0 1 quiet_acquire None]
    by (simp add: one_locked_fields canon_ab_def)
qed

end
