(* ===== verification/GatewayClient.thy ===== *)
theory GatewayClient
  imports UnixEndpoint
begin

text \<open>
  The client side of the gateway on Unix: \<open>dialLocal\<close> of \<open>localgateway/endpoint_unix.go\<close>, and
  \<open>NewClient\<close> and \<open>Dial\<close> of \<open>gateway.go\<close>. What the dialer of \<open>net\<close> gives for the path, and the
  credentials of the peer of a connection, are arguments; the file system may change between the
  check of the socket and the connection, which is why the peer is checked as well.
\<close>

subsection \<open>Dialing\<close>

datatype dial_error =
    ValidateEndpoint endpoint_error
  | DialError nat
  | VerifyPeer nat
  | OtherUserPeer

type_synonym 'c dialer = "int \<Rightarrow> string \<Rightarrow> (nat, 'c) result"

text \<open>The first argument of a dialer is the time it has; the second result are the connections closed.\<close>

definition unix_dialLocal ::
  "32 word \<Rightarrow> nodes \<Rightarrow> ('c \<Rightarrow> (nat, 32 word option) result) \<Rightarrow> 'c dialer \<Rightarrow> int \<Rightarrow> string \<Rightarrow>
     (dial_error, 'c) result \<times> 'c list"
where
  "unix_dialLocal euid fs credential dial timeout endpoint =
     (case validateSocket euid fs endpoint of
        Some e \<Rightarrow> (Inl (ValidateEndpoint e), [])
      | None \<Rightarrow>
          (case dial timeout endpoint of
             Inl e \<Rightarrow> (Inl (DialError e), [])
           | Inr conn \<Rightarrow>
               (case peerAllowed euid (credential conn) of
                  Inl e \<Rightarrow> (Inl (VerifyPeer e), [conn])
                | Inr allowed \<Rightarrow> if \<not> allowed then (Inl OtherUserPeer, [conn]) else (Inr conn, []))))"

subsection \<open>The HTTP client\<close>

text \<open>Durations are in nanoseconds.\<close>

record ClientConfig =
  DialTimeout :: int
  ResponseHeaderTimeout :: int
  IdleConnTimeout :: int
  MaxIdleConns :: int

record transport =
  dial_endpoint :: string
  dial_timeout :: int
  ForceAttemptHTTP2 :: bool
  response_header_timeout :: int
  idle_conn_timeout :: int
  max_idle_conns :: int
  max_idle_conns_per_host :: int

definition second :: int where "second = 1000000000"

definition with_client_defaults :: "ClientConfig \<Rightarrow> ClientConfig" where
  "with_client_defaults c =
     (let c1 = (if DialTimeout c \<le> 0 then c\<lparr>DialTimeout := second\<rparr> else c);
          c2 = (if IdleConnTimeout c1 \<le> 0 then c1\<lparr>IdleConnTimeout := 30 * second\<rparr> else c1)
      in if MaxIdleConns c2 \<le> 0 then c2\<lparr>MaxIdleConns := 8\<rparr> else c2)"

definition NewClient :: "string \<Rightarrow> ClientConfig \<Rightarrow> transport" where
  "NewClient endpoint cfg =
     (let c = with_client_defaults cfg in
      \<lparr>dial_endpoint = endpoint, dial_timeout = DialTimeout c, ForceAttemptHTTP2 = False,
       response_header_timeout = ResponseHeaderTimeout c, idle_conn_timeout = IdleConnTimeout c,
       max_idle_conns = MaxIdleConns c, max_idle_conns_per_host = MaxIdleConns c\<rparr>)"

text \<open>
  The \<open>DialContext\<close> of the transport, for a network and an address that it does not look at;
  \<open>remaining\<close> is the time the caller's context has left, if it has a deadline, and
  \<open>time_left\<close> that of the context made with \<open>context.WithTimeout\<close>.
\<close>

definition time_left :: "transport \<Rightarrow> int option \<Rightarrow> int" where
  "time_left t remaining = (case remaining of None \<Rightarrow> dial_timeout t | Some r \<Rightarrow> min r (dial_timeout t))"

definition DialContext ::
  "transport \<Rightarrow> 32 word \<Rightarrow> nodes \<Rightarrow> ('c \<Rightarrow> (nat, 32 word option) result) \<Rightarrow> 'c dialer \<Rightarrow> int option \<Rightarrow>
     string \<Rightarrow> string \<Rightarrow> (dial_error, 'c) result \<times> 'c list"
where
  "DialContext t euid fs credential dial remaining network address =
     unix_dialLocal euid fs credential dial (time_left t remaining) (dial_endpoint t)"

text \<open>\<open>Dial\<close>, for callers that make their own protocol; \<open>timeout\<close> is the time of its context.\<close>

definition Dial ::
  "32 word \<Rightarrow> nodes \<Rightarrow> ('c \<Rightarrow> (nat, 32 word option) result) \<Rightarrow> 'c dialer \<Rightarrow> int \<Rightarrow> string \<Rightarrow>
     (dial_error, 'c) result \<times> 'c list"
where
  "Dial euid fs credential dial timeout endpoint = unix_dialLocal euid fs credential dial timeout endpoint"

subsection \<open>Only the same user answers\<close>

lemma unix_dial_same_user:
  assumes "unix_dialLocal euid fs credential dial timeout endpoint = (r, closed)"
  shows "r = Inr conn \<Longrightarrow> closed = [] \<and> credential conn = Inr (Some euid) \<and> dial timeout endpoint = Inr conn
          \<and> (\<exists>n. fs endpoint = Some n \<and> private_socket euid n)"
    and "dial timeout endpoint = Inr conn \<Longrightarrow> validateSocket euid fs endpoint = None \<Longrightarrow>
          r = Inr conn \<or> closed = [conn] \<and> credential conn \<noteq> Inr (Some euid)"
proof -
  show "closed = [] \<and> credential conn = Inr (Some euid) \<and> dial timeout endpoint = Inr conn
          \<and> (\<exists>n. fs endpoint = Some n \<and> private_socket euid n)" if "r = Inr conn"
    using assms that
    by (auto simp: unix_dialLocal_def peerAllowed_def validateSocket_private split: option.splits sum.splits if_splits)
  show "r = Inr conn \<or> closed = [conn] \<and> credential conn \<noteq> Inr (Some euid)"
    if "dial timeout endpoint = Inr conn" "validateSocket euid fs endpoint = None"
    using assms that by (auto simp: unix_dialLocal_def peerAllowed_def split: sum.splits if_splits)
qed

text \<open>
  Whatever origin a request of the client names, the connection that carries it goes
  to the configured endpoint, where a private socket of the user was, and is made within the
  caller's time and the configured one (a second by default); the process at its other end belongs
  to the user. A connection to anybody else is closed and not used.
\<close>

lemma client_reaches_own_gateway:
  assumes "DialContext (NewClient endpoint cfg) euid fs credential dial remaining network address = (r, closed)"
    and "t = time_left (NewClient endpoint cfg) remaining"
  shows "(r = Inr conn \<longrightarrow> closed = [] \<and> credential conn = Inr (Some euid) \<and> dial t endpoint = Inr conn
            \<and> (\<exists>n. fs endpoint = Some n \<and> private_socket euid n))
       \<and> (dial t endpoint = Inr conn \<and> validateSocket euid fs endpoint = None \<and> r \<noteq> Inr conn \<longrightarrow>
            closed = [conn] \<and> credential conn \<noteq> Inr (Some euid))
       \<and> t \<le> (if DialTimeout cfg \<le> 0 then second else DialTimeout cfg)
       \<and> (\<forall>left. remaining = Some left \<longrightarrow> t \<le> left)"
proof -
  have to: "dial_timeout (NewClient endpoint cfg) = (if DialTimeout cfg \<le> 0 then second else DialTimeout cfg)"
    "dial_endpoint (NewClient endpoint cfg) = endpoint"
    by (simp_all add: NewClient_def with_client_defaults_def Let_def)
  have run: "unix_dialLocal euid fs credential dial t endpoint = (r, closed)"
    using assms by (simp add: DialContext_def to)
  have "t \<le> (if DialTimeout cfg \<le> 0 then second else DialTimeout cfg)" "\<forall>left. remaining = Some left \<longrightarrow> t \<le> left"
    by (auto simp: assms(2) time_left_def to split: option.split)
  with unix_dial_same_user [OF run] show ?thesis by blast
qed

text \<open>At the stale socket of user 1000, now answered by a process of user 7 (connection 1).\<close>

lemma client_refuses_stranger:
  "DialContext (NewClient ''/run/s'' \<lparr>DialTimeout = 0, ResponseHeaderTimeout = 0, IdleConnTimeout = 0, MaxIdleConns = 0\<rparr>)
     1000 stale_fs (\<lambda>c. Inr (Some 7)) (\<lambda>t p. Inr (1 :: nat)) (Some 5) ''tcp'' ''evil.example:80'' = (Inl OtherUserPeer, [1])
   \<and> Inr (Some 7) \<noteq> (Inr (Some 1000) :: (nat, 32 word option) result)"
proof -
  let ?c = "\<lparr>DialTimeout = 0, ResponseHeaderTimeout = 0, IdleConnTimeout = 0, MaxIdleConns = 0\<rparr>"
  have v: "validateSocket 1000 stale_fs ''/run/s'' = None" by (simp add: stale_eval)
  have run: "DialContext (NewClient ''/run/s'' ?c) 1000 stale_fs (\<lambda>c. Inr (Some 7)) (\<lambda>t p. Inr (1 :: nat)) (Some 5)
      ''tcp'' ''evil.example:80'' = (Inl OtherUserPeer, [1])"
    using v by (simp add: DialContext_def unix_dialLocal_def peerAllowed_def NewClient_def Let_def)
  show ?thesis using client_reaches_own_gateway [OF run refl, of 1] v run by simp
qed

end
