(* ===== verification/Logging.thy ===== *)
theory Logging
  imports Paths
begin

text \<open>
  \<open>logging/logging.go\<close>: the choice of a handler of \<open>log/slog\<close> or \<open>tint\<close> and its settings, and
  \<open>ContextHandler\<close>, which puts the request id of the context into every record. What a handler of
  these libraries is and does is an argument; so is the formatting of times.
\<close>

subsection \<open>Levels and formats\<close>

datatype Format = FormatAuto | FormatText | FormatTint | FormatJSON | EmptyFormat | OtherFormat string

text \<open>A string of the source names its format.\<close>

definition Format_of :: "string \<Rightarrow> Format" where
  "Format_of s =
     (if s = ''auto'' then FormatAuto else if s = ''text'' then FormatText else if s = ''tint'' then FormatTint
      else if s = ''json'' then FormatJSON else if s = [] then EmptyFormat else OtherFormat s)"

text \<open>\<open>slog\<close> has -4 for debug, 0 for info, 4 for warnings.\<close>

definition LevelFromVerbosity :: "int \<Rightarrow> int" where
  "LevelFromVerbosity v = (if v \<le> 0 then 4 else if v = 1 then 0 else if v = 2 then -4 else -8)"

subsection \<open>Attributes\<close>

datatype 'v attr_value = TimeValue int | SourceValue string | StringValue string | OtherValue 'v

type_synonym 'v attr = "string \<times> 'v attr_value"

type_synonym 'v replacer = "string list \<Rightarrow> 'v attr \<Rightarrow> 'v attr"

text \<open>
  \<open>utc_rfc3339\<close> is \<open>Time().UTC().Format(time.RFC3339Nano)\<close>. \<open>TimeKey\<close> and \<open>SourceKey\<close> are \<open>time\<close> and
  \<open>source\<close>; a source is the name of its file.
\<close>

definition replaceAttr :: "(int \<Rightarrow> string) \<Rightarrow> 'v replacer option \<Rightarrow> 'v replacer" where
  "replaceAttr utc_rfc3339 custom groups a =
     (let a1 = (case a of (k, TimeValue t) \<Rightarrow> if k = ''time'' then (k, StringValue (utc_rfc3339 t)) else a | _ \<Rightarrow> a);
          a2 = (case a1 of (k, SourceValue f) \<Rightarrow> if k = ''source'' then (k, SourceValue (Base f)) else a1 | _ \<Rightarrow> a1)
      in case custom of None \<Rightarrow> a2 | Some f \<Rightarrow> f groups a2)"

subsection \<open>Handlers\<close>

text \<open>An output is standard output or a writer; the constructors of the libraries make a handler \<open>'h\<close>.\<close>

datatype out = Stdout | Writer nat

record ('v) handler_options =
  Level :: int
  AddSource :: bool
  ReplaceAttr :: "'v replacer"

record ('v, 'h) handler_libs =
  NewJSONHandler :: "out \<Rightarrow> 'v handler_options \<Rightarrow> 'h"
  NewTextHandler :: "out \<Rightarrow> 'v handler_options \<Rightarrow> 'h"
  NewTintHandler :: "out \<Rightarrow> 'v handler_options \<Rightarrow> bool \<Rightarrow> 'h"

record ('v) log_config =
  Verbosity :: int
  Output :: "out option"
  format :: Format
  add_source :: bool
  replace_attr :: "'v replacer option"

datatype log_error = UnsupportedFormat string

datatype 'h ContextHandler = ContextHandler (next_handler: 'h)

definition newTintHandler ::
  "('v, 'h) handler_libs \<Rightarrow> (out \<Rightarrow> bool) \<Rightarrow> out \<Rightarrow> 'v log_config \<Rightarrow> 'v replacer \<Rightarrow> 'h"
where
  "newTintHandler libs isTerminal out cfg rep =
     NewTintHandler libs out
       \<lparr>Level = LevelFromVerbosity (Verbosity cfg), AddSource = add_source cfg, ReplaceAttr = rep\<rparr> (\<not> isTerminal out)"

definition NewHandler ::
  "('v, 'h) handler_libs \<Rightarrow> (out \<Rightarrow> bool) \<Rightarrow> (int \<Rightarrow> string) \<Rightarrow> 'v log_config \<Rightarrow> (log_error, 'h ContextHandler) result"
where
  "NewHandler libs isTerminal utc_rfc3339 cfg =
     (let out = (case Output cfg of None \<Rightarrow> Stdout | Some w \<Rightarrow> w);
          rep = replaceAttr utc_rfc3339 (replace_attr cfg);
          opts = \<lparr>Level = LevelFromVerbosity (Verbosity cfg), AddSource = add_source cfg, ReplaceAttr = rep\<rparr>;
          auto = (if isTerminal out then newTintHandler libs isTerminal out cfg rep else NewJSONHandler libs out opts)
      in case format cfg of
           FormatJSON \<Rightarrow> Inr (ContextHandler (NewJSONHandler libs out opts))
         | FormatText \<Rightarrow> Inr (ContextHandler (NewTextHandler libs out opts))
         | FormatTint \<Rightarrow> Inr (ContextHandler (newTintHandler libs isTerminal out cfg rep))
         | FormatAuto \<Rightarrow> Inr (ContextHandler auto)
         | EmptyFormat \<Rightarrow> Inr (ContextHandler auto)
         | OtherFormat f \<Rightarrow> Inl (UnsupportedFormat f))"

text \<open>\<open>Setup\<close> also makes the logger the default one; \<open>current\<close> is that of the process.\<close>

definition Setup ::
  "('v, 'h) handler_libs \<Rightarrow> (out \<Rightarrow> bool) \<Rightarrow> (int \<Rightarrow> string) \<Rightarrow> 'v log_config \<Rightarrow> 'h ContextHandler option \<Rightarrow>
     (log_error, 'h ContextHandler) result \<times> 'h ContextHandler option"
where
  "Setup libs isTerminal utc_rfc3339 cfg current =
     (case NewHandler libs isTerminal utc_rfc3339 cfg of Inl e \<Rightarrow> (Inl e, current) | Inr l \<Rightarrow> (Inr l, Some l))"

subsection \<open>The request id\<close>

text \<open>A context: its values, the latest first. The key of the package is nobody else's.\<close>

datatype context_key = requestIDKey | OtherKey nat

datatype context_value = CtxString string | CtxOther nat

type_synonym log_context = "(context_key \<times> context_value) list"

definition WithRequestID :: "log_context \<Rightarrow> string \<Rightarrow> log_context" where
  "WithRequestID ctx requestID = (requestIDKey, CtxString requestID) # ctx"

definition RequestIDFromContext :: "log_context \<Rightarrow> string \<times> bool" where
  "RequestIDFromContext ctx =
     (case map_of ctx requestIDKey of
        Some (CtxString requestID) \<Rightarrow> (requestID, requestID \<noteq> [])
      | _ \<Rightarrow> ([], False))"

text \<open>What a handler of the libraries does: a record is the list of its attributes.\<close>

record ('v, 'h, 'w) handler_ops =
  enabled :: "'h \<Rightarrow> log_context \<Rightarrow> int \<Rightarrow> bool"
  handle_record :: "'h \<Rightarrow> log_context \<Rightarrow> 'v attr list \<Rightarrow> 'w \<Rightarrow> nat option \<times> 'w"
  with_attrs :: "'h \<Rightarrow> 'v attr list \<Rightarrow> 'h"
  with_group :: "'h \<Rightarrow> string \<Rightarrow> 'h"

definition Enabled :: "('v, 'h, 'w) handler_ops \<Rightarrow> 'h ContextHandler \<Rightarrow> log_context \<Rightarrow> int \<Rightarrow> bool" where
  "Enabled ops h ctx level = enabled ops (next_handler h) ctx level"

definition Handle ::
  "('v, 'h, 'w) handler_ops \<Rightarrow> 'h ContextHandler \<Rightarrow> log_context \<Rightarrow> 'v attr list \<Rightarrow> 'w \<Rightarrow> nat option \<times> 'w"
where
  "Handle ops h ctx r w =
     (case RequestIDFromContext ctx of
        (requestID, ok) \<Rightarrow>
          handle_record ops (next_handler h) ctx
            (if ok then r @ [(''request_id'', StringValue requestID)] else r) w)"

definition WithAttrs :: "('v, 'h, 'w) handler_ops \<Rightarrow> 'h ContextHandler \<Rightarrow> 'v attr list \<Rightarrow> 'h ContextHandler" where
  "WithAttrs ops h attrs = ContextHandler (with_attrs ops (next_handler h) attrs)"

definition WithGroup :: "('v, 'h, 'w) handler_ops \<Rightarrow> 'h ContextHandler \<Rightarrow> string \<Rightarrow> 'h ContextHandler" where
  "WithGroup ops h name = ContextHandler (with_group ops (next_handler h) name)"

subsection \<open>What reaches the output\<close>

text \<open>What a program derives from its logger, in order, and the same for the library's handler.\<close>

datatype 'v derivation = Attrs "'v attr list" | Group string

definition derive_context ::
  "('v, 'h, 'w) handler_ops \<Rightarrow> 'h ContextHandler \<Rightarrow> 'v derivation list \<Rightarrow> 'h ContextHandler"
where
  "derive_context ops = foldl (\<lambda>h d. case d of Attrs as \<Rightarrow> WithAttrs ops h as | Group g \<Rightarrow> WithGroup ops h g)"

definition derive_plain :: "('v, 'h, 'w) handler_ops \<Rightarrow> 'h \<Rightarrow> 'v derivation list \<Rightarrow> 'h" where
  "derive_plain ops = foldl (\<lambda>h d. case d of Attrs as \<Rightarrow> with_attrs ops h as | Group g \<Rightarrow> with_group ops h g)"

lemma derive_context_plain: "derive_context ops h ds = ContextHandler (derive_plain ops (next_handler h) ds)"
  unfolding derive_context_def derive_plain_def
  by (induction ds arbitrary: h) (auto simp: WithAttrs_def WithGroup_def split: derivation.split)

lemma request_id_found: "RequestIDFromContext (WithRequestID ctx requestID) = (requestID, requestID \<noteq> [])"
  by (simp add: RequestIDFromContext_def WithRequestID_def)

lemma request_id_kept:
  "requestIDKey \<notin> fst ` set vs \<Longrightarrow> RequestIDFromContext (vs @ ctx) = RequestIDFromContext ctx"
proof -
  assume "requestIDKey \<notin> fst ` set vs"
  then have "map_of vs requestIDKey = None" by (simp add: map_of_eq_None_iff)
  then show ?thesis by (simp add: RequestIDFromContext_def map_add_def)
qed

text \<open>
  A record logged through any handler derived from the one \<open>NewHandler\<close> gives,
  in a context made from \<open>WithRequestID\<close>, reaches the library's handler, derived in the same way,
  with the request id as its one new attribute at the end, and unchanged when the id is empty.
\<close>

lemma request_id_logged:
  assumes "requestIDKey \<notin> fst ` set vs"
  shows "Handle ops (derive_context ops (ContextHandler h) ds) (vs @ WithRequestID ctx requestID) r w =
           handle_record ops (derive_plain ops h ds) (vs @ WithRequestID ctx requestID)
             (r @ (if requestID = [] then [] else [(''request_id'', StringValue requestID)])) w"
  using request_id_kept [OF assms, of "WithRequestID ctx requestID"]
  by (simp add: Handle_def derive_context_plain request_id_found)

text \<open>
  The only error of \<open>NewHandler\<close> is a format it does not know; the automatic format is colours on
  a terminal and JSON elsewhere.
\<close>

lemma NewHandler_outcome:
  "NewHandler libs isTerminal utc cfg = Inl e \<longleftrightarrow> (\<exists>f. format cfg = OtherFormat f \<and> e = UnsupportedFormat f)"
  "format cfg \<in> {FormatAuto, EmptyFormat} \<Longrightarrow> NewHandler libs isTerminal utc cfg =
     NewHandler libs isTerminal utc
       (cfg\<lparr>format := if isTerminal (case Output cfg of None \<Rightarrow> Stdout | Some o' \<Rightarrow> o') then FormatTint else FormatJSON\<rparr>)"
  by (auto simp: NewHandler_def newTintHandler_def Let_def split: Format.split)

text \<open>More verbosity never raises the level; a level of \<open>slog\<close> is enabled from its verbosity on.\<close>

lemma LevelFromVerbosity_antimono: "v \<le> v' \<Longrightarrow> LevelFromVerbosity v' \<le> LevelFromVerbosity v"
  by (simp add: LevelFromVerbosity_def)

end
