(* ===== verification/Spec2Isabelle.thy ===== *)
theory Spec2Isabelle
  imports JsonErrors StrictDecode Admission Gateway Process EventBus SqlStore WindowsAcl ProcessLock UnixEndpoint
    OidcTokens Artifact JobCli Nats HttpServing ProcessControl EchoExample Ai WindowsPipe WindowsFiles GatewayClient Logging
begin

text \<open>
  A verification development for the Go packages of \<open>go-toolbelt\<close>: small libraries that services
  are put together from. Each package is modelled from its source under \<open>src/\<close>, one theory per
  component, and this theory imports them all.

  \<^bold>\<open>The program and the theories.\<close>

  \<^item> \<open>strictjson\<close> refuses JSON that \<open>encoding/json\<close> would accept: JsonLexer (the bytes, cut into
    the lexemes that \<open>json.Decoder\<close> reads), StrictJson (\<open>Validate\<close>, the token scanner with its
    stack of frames), JsonGrammar (JSON values, a recursive reference check, and the proof that
    the scanner decides exactly what it does), JsonErrors (the scanner one lexeme at a time, and which
    error it reports on any input), StrictDecode (\<open>Decode\<close>, \<open>DecodeReader\<close> with
    \<open>io.LimitedReader\<close> and \<open>io.ReadAll\<close>, the options, the redaction of errors).
  \<^item> \<open>localgateway\<close> serves HTTP on a local endpoint: Admission (\<open>admission.go\<close>, the listener that
    bounds the connections), HandlerGate (\<open>handlerGate\<close> of \<open>gateway.go\<close>), Gateway (\<open>Server\<close>:
    \<open>New\<close>, the options, \<open>Start\<close>, \<open>Stop\<close>, composed with the gate), UnixEndpoint
    (\<open>endpoint_unix.go\<close>, \<open>restore_linux.go\<close>, \<open>peer_linux.go\<close>: the socket and its removal),
    GatewayClient (\<open>dialLocal\<close> on Unix, \<open>NewClient\<close>, \<open>Dial\<close>), WindowsPipe (\<open>endpoint_windows.go\<close>: the
    named pipe and the identity checks of both its ends).
  \<^item> \<open>oidcverifier\<close> checks ID tokens: GoStrings and NetHttp (what the packages use
    of \<open>strings\<close>, \<open>encoding/hex\<close>, \<open>bufio\<close>, \<open>net/url\<close>, \<open>net/http\<close>), Oidc (configuration, \<open>Discover\<close>, which decodes with
    \<open>DecodeReader\<close>), OidcTokens (\<open>Start\<close>, \<open>Stop\<close>, \<open>Verify\<close>, the remote key set).
  \<^item> \<open>artifact\<close> is a content-addressed store: Artifact (\<open>Put\<close> and what it calls, on a file system
    of names and inodes).
  \<^item> \<open>process\<close> runs child processes: Process (the environment, the events and their sinks) and
    ProcessControl (the context, signals and time limits, on a timed model of \<open>os/exec\<close>).
    \<open>eventbus\<close> distributes events: EventBus (the broker and the publishers).
  \<^item> \<open>sqlite\<close> and \<open>postgres\<close> own a database handle: SqlStore, one model for both.
  \<^item> \<open>embeddednats\<close> runs a NATS server inside the process: Nats (its life cycle and temporary store).
  \<^item> \<open>privatedir\<close> and \<open>processlock\<close>: Paths (\<open>path/filepath\<close>), PrivateDir, LockLife (the life
    cycle of \<open>Lock\<close> on any platform), ProcessLock (the platform \<open>lock_unix.go\<close>), WindowsAcl (the
    access control lists that both packages check on Windows), WindowsFiles (the directories, lock
    files and handles behind these lists: the platform \<open>lock_windows.go\<close>).
  \<^item> \<open>httpserver\<close>, \<open>echoserver\<close>: HttpServer (both, the second on the first), HttpServing (the goroutine
    and the calls of \<open>Stop\<close>, interleaved). \<open>logging\<close>: Logging
    (the choice of a handler, the request id in every record).
  \<^item> \<open>ai\<close>: Ai (the client of a language model, and its example's command line).
  \<^item> \<open>examples/advanced-jobs\<close>: Jobs (the job manager, the commands and the routes that drive it),
    JobCli (the command line while it runs, with its scanner and channels), and
    \<open>examples/localgateway-echo\<close>: EchoExample (the handler and the call).

  \<^bold>\<open>How code becomes definitions.\<close> A definition has the name of the function it translates, a
  record that of the struct (its fields may carry a prefix where two records would clash). A call
  that returns \<open>(value, error)\<close> is a sum (\<open>result\<close>), one that returns \<open>error\<close> an option. A
  component whose calls overlap is a step relation with one rule per critical section or per
  action between two of them; ghost fields record what happened (how often a guard was passed,
  what a channel was sent). Code outside the repository is an argument or a field of a record: the
  decoding by reflection, \<open>go-oidc\<close>, \<open>go-jose\<close>, SHA-256, the transport, the media types, the
  database driver, and what other processes do between two system calls.

  \<^bold>\<open>Contracts.\<close> Prelude has the locales for machines (operations that keep an invariant, operations
  that implement simpler ones, interleaved steps); every step relation interprets one of them and
  rests its properties on it. StrictDecode has the locales for readers (\<open>byte_reader\<close>,
  \<open>progressing_reader\<close>, \<open>honest_reader\<close>), interpreted on a scripted reader and on a stream; the
  client lemmas of \<open>DecodeReader\<close> are proved inside them, and \<open>Discover\<close> uses them again. LockLife has
  the contract between \<open>Lock\<close> and its platform (\<open>lock_platform\<close>, by a sublocale a machine of the
  prelude); mutual exclusion is proved from it and holds on Unix and on Windows by interpretation.

  \<^bold>\<open>What the lemmas show.\<close> JSON: acceptance is equivalent to the grammar, errors are classified on
  every input, reading is bounded, no name or value gets into the text of an error (what an
  application's own decoding method reports stays reachable by \<open>Unwrap\<close>). Gateway and listener: connections are bounded
  (together with \<open>New\<close>: by 4096, below), no wake-up is lost, cleanup follows the last handler, the
  endpoint is removed once. OIDC: the type of the metadata (every value that \<open>Discover\<close> returns is
  well formed), termination of discovery, readiness only between discovery and \<open>Stop\<close>, exact
  acceptance of tokens, soundness of the key set. Artifact: a rely-guarantee proof that \<open>Put\<close> never
  harms an entry. Stores: one handle at most, migrations all or nothing. Files and locks: private
  directories, mutual exclusion on Unix and on Windows, no rights for others under an accepted
  descriptor, the same user at both ends of a socket or pipe, removal of the own socket only and of
  nothing that others put in its place, for any interference that the statement allows. Processes,
  events and jobs: order, completeness, an end within the time limits, no send on a closed
  channel, every command of the command line answered once and for the state of its moment; two lemmas of JobCli show what its
  channels can lose, an error of the input and the goroutine that reads it.

  \<^bold>\<open>Recursion and bounds.\<close> Loops that may not end are \<open>partial_function (option)\<close>, \<open>None\<close> standing
  for a call that never returns: \<open>read_all\<close>, \<open>send_from\<close>, \<open>read_file\<close>, \<open>copy_from\<close>, \<open>publish\<close>. That
  they return is proved under what makes them return (a reader that progresses, a client that
  limits redirects). \<open>validate_loop\<close>, \<open>scan_lines\<close> and the splitting of strings end because their
  input shrinks. There is no fuel but the counters of the code itself (10000 names of
  \<open>os.CreateTemp\<close>) and the kernel's 40 symbolic links. Bytes are lists of \<open>char\<close>; access masks are
  words; lengths and counters, which no run can bring near \<open>2 ^ 63\<close>, are \<open>nat\<close> or \<open>int\<close>.

  \<^bold>\<open>Not modelled.\<close> The Darwin variants (one system call each, like those of Linux), the stubs for
  unsupported platforms, the SQLite example and the test helpers. The \<open>Component\<close> methods only hand
  \<open>Start\<close> and \<open>Stop\<close> to \<open>go-app\<close>.
\<close>

subsection \<open>The gateway and its listener\<close>

text \<open>
  C15 (bounds): a gateway server configured with any options of the package, in any order, never
  has more than 4096 connections open through its admission listener, and never more than its own
  limit, whatever number of goroutines accept and however they interleave with connections that
  are closed.
\<close>

theorem gateway_connections_bounded:
  assumes "\<forall>opt \<in> set opts. package_option opt"
    and "admission_step\<^sup>*\<^sup>* (newAdmissionListener (maxConnections (Gateway.New c h opts n)) k) s"
  shows "tally unreleased (conns s) \<le> maxConnections (Gateway.New c h opts n) \<and> tally unreleased (conns s) \<le> 4096"
proof -
  have limit: "1 \<le> maxConnections (Gateway.New c h opts n)" "maxConnections (Gateway.New c h opts n) \<le> 4096"
    using fresh_New [OF assms(1), of c n h] by (simp_all add: fresh_def MaxConnections_def)
  have "0 \<le> at_pc Accepted s" "0 \<le> at_pc Rejecting s" by simp_all
  with admission_bounds [OF assms(2)] limit show ?thesis by linarith
qed

theorem gateway_connections_bounded_witness:
  "tally unreleased (conns one_open) = 1
   \<and> tally unreleased (conns one_open) \<le> maxConnections (Gateway.New small_config None [WithMaxConnections 1] 0)"
proof -
  have "maxConnections (Gateway.New small_config None [WithMaxConnections 1] 0) = 1"
    by (simp add: Gateway.New_def WithMaxConnections_def normalizeMaxConnections_def MaxConnections_def Let_def)
  with gateway_connections_bounded [of "[WithMaxConnections 1]" small_config None 0 3 one_open] reach_one_open
  show ?thesis by (auto simp: package_option_def one_open_def)
qed

subsection \<open>The two ends of the gateway\<close>

text \<open>
  C16 (safety): the gateway and its client meet exactly when they have the same user. At an
  endpoint where a gateway listens, a client that is answered by that gateway gets its connection
  if and only if its user is the gateway's, with any configuration and whatever origin its request
  names, and otherwise keeps none open; and of the connections that clients of any users make,
  the gateway accepts the first that comes from its own user, having closed those before it.
\<close>

theorem gateway_same_user:
  assumes "listenLocal euid lenv fs place = (Inr ident, fs')"
    and "dialing = (\<lambda>_ _. Inr conn1)"
    and "DialContext (NewClient place settings) visitor fs' (\<lambda>_. Inr (Some euid)) dialing time1 net1 addr1 = (r, dropped)"
  shows "(r = Inr conn1 \<longleftrightarrow> visitor = euid) \<and> (r = Inr conn1 \<longrightarrow> dropped = [])
       \<and> (case peer_accept (map (\<lambda>(c, user). (c, peerAllowed euid (Inr (Some user)))) cs) of
            (accepted, refused) \<Rightarrow>
              accepted = map_option fst (List.find (\<lambda>(c, user). user = euid) cs)
              \<and> refused = map fst (takeWhile (\<lambda>(c, user). user \<noteq> euid) cs))"
proof -
  from listen_private [OF assms(1)] obtain n where n: "fs' place = Some n" "private_socket euid n" by blast
  have "validateSocket visitor fs' place = None \<longleftrightarrow> visitor = euid"
    using n by (auto simp: validateSocket_private private_socket_def)
  moreover have "unix_dialLocal visitor fs' (\<lambda>_. Inr (Some euid)) dialing (time_left (NewClient place settings) time1) place
      = (r, dropped)"
    using assms(3) by (simp add: DialContext_def NewClient_def Let_def)
  ultimately have "(r = Inr conn1 \<longleftrightarrow> visitor = euid) \<and> (r = Inr conn1 \<longrightarrow> dropped = [])"
    by (auto simp: unix_dialLocal_def assms(2) peerAllowed_def split: option.splits if_splits)
  moreover have "peer_accept (map (\<lambda>(c, user). (c, peerAllowed euid (Inr (Some user)))) cs)
      = (map_option fst (List.find (\<lambda>(c, user). user = euid) cs), map fst (takeWhile (\<lambda>(c, user). user \<noteq> euid) cs))"
    by (induction cs) (auto simp: peerAllowed_def)
  ultimately show ?thesis by simp
qed

theorem gateway_same_user_witness:
  "DialContext (NewClient ''/run/s'' \<lparr>DialTimeout = 0, ResponseHeaderTimeout = 0, IdleConnTimeout = 0, MaxIdleConns = 0\<rparr>)
     1000 (snd (listenLocal 1000 listening stale_fs ''/run/s'')) (\<lambda>_. Inr (Some 1000)) (\<lambda>_ _. Inr (1 :: nat)) None ''tcp'' ''x''
   = (Inr 1, [])"
proof -
  let ?c = "\<lparr>DialTimeout = 0, ResponseHeaderTimeout = 0, IdleConnTimeout = 0, MaxIdleConns = 0\<rparr>"
  let ?fs = "snd (listenLocal 1000 listening stale_fs ''/run/s'')"
  have l: "listenLocal 1000 listening stale_fs ''/run/s'' = (Inr (1, 5), ?fs)"
    using listening_result by (simp add: prod_eq_iff)
  obtain r dropped where run: "DialContext (NewClient ''/run/s'' ?c) 1000 ?fs (\<lambda>_. Inr (Some 1000)) (\<lambda>_ _. Inr (1 :: nat))
      None ''tcp'' ''x'' = (r, dropped)" by fastforce
  from gateway_same_user [OF l refl run, of "[]"] run show ?thesis by simp
qed

end
